(* ===== verification/Prelude.thy ===== *)
theory Prelude
  imports Main "HOL-Library.Word"
begin

unbundle bit_operations_syntax

text \<open>
  Shared material of the development: the outcome type of a kernel computation and the
  combinators the component theories are written with, C bit-fields on machine words,
  and the alignment macros of \<^verbatim>\<open>include/kernel/mm.h\<close>.

  A C function of the kernel is a state transformer. It can
  \<^item> return a value (\<open>Ret\<close>),
  \<^item> leave the kernel for user mode and never come back (\<open>Switch\<close>: the
    \<^verbatim>\<open>RESTORE_STATE\<close> / \<^verbatim>\<open>iret\<close> at the end of a context switch),
  \<^item> stop the machine or run into undefined behaviour (\<open>Fault\<close>).
  Faults are kept apart by cause: \<^verbatim>\<open>PANIC\<close>, a failed \<^verbatim>\<open>KASSERT\<close> (the default build
  defines \<^verbatim>\<open>DEBUG\<close>, where it halts), a null dereference, an index outside a static array,
  an access to an unmapped page and a loop that never ends.
\<close>

named_theorems kexec \<open>symbolic execution of kernel computations\<close>

section \<open>Kernel computations\<close>

datatype kfault = Panic | AssertFail | NullDeref | OutOfBounds | PageFault | Hang

datatype ('s, 'a) kres = Ret 'a 's | Switch 's | Fault kfault

type_synonym ('s, 'a) kmon = "'s \<Rightarrow> ('s, 'a) kres"

definition kret :: "'a \<Rightarrow> ('s, 'a) kmon" where
  [kexec]: "kret a s = Ret a s"

definition kbind :: "('s, 'a) kmon \<Rightarrow> ('a \<Rightarrow> ('s, 'b) kmon) \<Rightarrow> ('s, 'b) kmon" where
  [kexec]: "kbind m f s =
     (case m s of Ret a s' \<Rightarrow> f a s' | Switch s' \<Rightarrow> Switch s' | Fault e \<Rightarrow> Fault e)"

definition kget :: "('s \<Rightarrow> 'a) \<Rightarrow> ('s, 'a) kmon" where
  [kexec]: "kget f s = Ret (f s) s"

definition kmod :: "('s \<Rightarrow> 's) \<Rightarrow> ('s, unit) kmon" where
  [kexec]: "kmod f s = Ret () (f s)"

definition kfail :: "kfault \<Rightarrow> ('s, 'a) kmon" where
  [kexec]: "kfail e s = Fault e"

definition kskip :: "('s, unit) kmon" where
  [kexec]: "kskip s = Ret () s"

definition kwhen :: "bool \<Rightarrow> ('s, unit) kmon \<Rightarrow> ('s, unit) kmon" where
  [kexec]: "kwhen b m s = (if b then m s else Ret () s)"

text \<open>\<open>kguard b e\<close> goes on if \<open>b\<close> holds and faults with \<open>e\<close> otherwise.\<close>

definition kguard :: "bool \<Rightarrow> kfault \<Rightarrow> ('s, unit) kmon" where
  [kexec]: "kguard b e s = (if b then Ret () s else Fault e)"

text \<open>A block of statements, run in order.\<close>

primrec kseq :: "('s, unit) kmon list \<Rightarrow> ('s, unit) kmon" where
  "kseq [] = kskip"
| "kseq (m # ms) = kbind m (\<lambda>_. kseq ms)"

declare kseq.simps [kexec]

definition kthen :: "('s, 'a) kmon \<Rightarrow> ('s, 'b) kmon \<Rightarrow> ('s, 'b) kmon" where
  "kthen m n = kbind m (\<lambda>_. n)"

declare kthen_def [kexec]

lemma kbind_Ret: "m s = Ret a s' \<Longrightarrow> kbind m f s = f a s'"
  by (simp add: kbind_def)

lemma kbind_kret: "kbind (kret a) f = f a"
  by (rule ext) (simp add: kexec)

lemma kbind_assoc: "kbind (kbind m f) g = kbind m (\<lambda>a. kbind (f a) g)"
  by (rule ext) (simp add: kexec split: kres.split)

lemma kbind_eq_Ret_iff:
  "kbind m f s = Ret b t \<longleftrightarrow> (\<exists>a s'. m s = Ret a s' \<and> f a s' = Ret b t)"
  by (simp add: kbind_def split: kres.split)

lemma kwhen_simps [simp]: "kwhen True m = m" "kwhen False m = kskip"
  by (rule ext, simp add: kexec)+

section \<open>Bit-fields\<close>

text \<open>
  A C bit-field is its offset and its width; the unions of \<^verbatim>\<open>paging.h\<close> overlay several
  layouts on one 32-bit value, so a field is read from and stored into the word itself.
  GCC allocates the fields of a little-endian target from bit 0 up.
\<close>

type_synonym bitfield = "nat \<times> nat"

definition bf_get :: "bitfield \<Rightarrow> 'a::len word \<Rightarrow> 'a word" where
  "bf_get f w = take_bit (snd f) (drop_bit (fst f) w)"

definition bf_set :: "bitfield \<Rightarrow> 'a::len word \<Rightarrow> 'a word \<Rightarrow> 'a word" where
  "bf_set f v w =
     (w AND NOT (push_bit (fst f) (mask (snd f)))) OR push_bit (fst f) (take_bit (snd f) v)"

text \<open>Two fields do not overlap.\<close>

definition bf_disjoint :: "bitfield \<Rightarrow> bitfield \<Rightarrow> bool" where
  "bf_disjoint f g \<longleftrightarrow> fst f + snd f \<le> fst g \<or> fst g + snd g \<le> fst f"

lemma bit_bf_get:
  "bit (bf_get f w) i \<longleftrightarrow> i < snd f \<and> bit w (fst f + i)"
  for w :: "'a::len word"
  by (auto simp: bf_get_def bit_simps ac_simps)

lemma bit_bf_set:
  "bit (bf_set f v w) i \<longleftrightarrow> i < LENGTH('a) \<and>
     (if fst f \<le> i \<and> i < fst f + snd f then bit v (i - fst f) else bit w i)"
  for w :: "'a::len word"
  by (auto simp: bf_set_def bit_simps dest: bit_imp_le_length)

lemma bf_get_set_same:
  "fst f + snd f \<le> LENGTH('a) \<Longrightarrow> bf_get f (bf_set f v w) = take_bit (snd f) v"
  for w :: "'a::len word"
  by (rule bit_word_eqI) (auto simp: bit_bf_get bit_bf_set bit_simps)

lemma bf_get_set_other:
  "bf_disjoint f g \<Longrightarrow> bf_get f (bf_set g v w) = bf_get f w"
  for w :: "'a::len word"
  by (rule bit_word_eqI)
    (auto simp: bit_bf_get bit_bf_set bf_disjoint_def dest: bit_imp_le_length)

lemma bf_set_set_same: "bf_set f v (bf_set f u w) = bf_set f v w"
  for w :: "'a::len word"
  by (rule bit_word_eqI) (auto simp: bit_bf_set)

lemma bf_set_commute:
  "bf_disjoint f g \<Longrightarrow> bf_set f v (bf_set g u w) = bf_set g u (bf_set f v w)"
  for w :: "'a::len word"
  by (rule bit_word_eqI) (auto simp: bit_bf_set bf_disjoint_def)

lemma bf_get_zero [simp]: "bf_get f 0 = 0"
  by (rule bit_word_eqI) (simp add: bit_bf_get)

text \<open>A C condition on a one-bit field.\<close>

definition bf_on :: "bitfield \<Rightarrow> 'a::len word \<Rightarrow> bool" where
  "bf_on f w \<longleftrightarrow> bf_get f w \<noteq> 0"

lemma bf_on_set_same:
  "fst f + snd f \<le> LENGTH('a) \<Longrightarrow> bf_on f (bf_set f v w) \<longleftrightarrow> take_bit (snd f) v \<noteq> 0"
  for w :: "'a::len word"
  by (simp add: bf_on_def bf_get_set_same)

lemma bf_on_set_other: "bf_disjoint f g \<Longrightarrow> bf_on f (bf_set g v w) \<longleftrightarrow> bf_on f w"
  for w :: "'a::len word"
  by (simp add: bf_on_def bf_get_set_other)

lemmas bf_simps = bf_get_set_same bf_get_set_other bf_on_set_same bf_on_set_other
  bf_disjoint_def

section \<open>Alignment\<close>

text \<open>
  The macros of \<^verbatim>\<open>include/kernel/mm.h\<close>. \<open>boundary\<close> is a power of two at every use.
\<close>

definition ALIGN_DOWN :: "'a::len word \<Rightarrow> 'a word \<Rightarrow> 'a word" where
  "ALIGN_DOWN addr boundary = addr AND NOT (boundary - 1)"

definition IS_ALIGNED :: "'a::len word \<Rightarrow> 'a word \<Rightarrow> bool" where
  "IS_ALIGNED addr boundary \<longleftrightarrow> addr AND (boundary - 1) = 0"

definition ALIGN_NEXT :: "'a::len word \<Rightarrow> 'a word \<Rightarrow> 'a word" where
  "ALIGN_NEXT addr boundary = ALIGN_DOWN addr boundary + boundary"

definition ALIGN_UP :: "'a::len word \<Rightarrow> 'a word \<Rightarrow> 'a word" where
  "ALIGN_UP addr boundary =
     (if addr = ALIGN_DOWN addr boundary then addr else ALIGN_NEXT addr boundary)"

definition IS_FLAG_SET :: "'a::len word \<Rightarrow> 'a word \<Rightarrow> bool" where
  "IS_FLAG_SET value flag \<longleftrightarrow> value AND flag \<noteq> 0"

lemma and_mask_split: "(w AND NOT (mask n)) + (w AND mask n) = (w :: 'a::len word)"
proof -
  have "(w AND NOT (mask n)) AND (w AND mask n) = 0"
    by (rule bit_word_eqI) (simp add: bit_simps)
  then have "(w AND NOT (mask n)) + (w AND mask n) = (w AND NOT (mask n)) OR (w AND mask n)"
    by (simp add: disjunctive_add_eq_or)
  also have "\<dots> = w"
    by (rule bit_word_eqI) (auto simp: bit_simps)
  finally show ?thesis .
qed

section \<open>Machine words and lists\<close>

lemma unat_of_nat_small: "n < 2 ^ LENGTH('a) \<Longrightarrow> unat (of_nat n :: 'a::len word) = n"
  by (simp add: unsigned_of_nat take_bit_nat_eq_self_iff)

lemma unat_less32: "unat (w :: 32 word) < 2 ^ 32"
proof -
  have "unat w < 2 ^ LENGTH(32)" by (rule unsigned_less)
  then show ?thesis by simp
qed

lemma find_skip: "\<forall>x\<in>set xs. \<not> P x \<Longrightarrow> find P (xs @ ys) = find P ys"
  by (induction xs) auto

end
