(* ===== verification/Kernel_State.thy ===== *)
theory Kernel_State
  imports Prelude
begin

text \<open>
  The data of the kernel: return codes (\<^verbatim>\<open>include/kernel/error.h\<close>, \<^verbatim>\<open>include/os/syscalls.h\<close>),
  the saved register file (\<^verbatim>\<open>include/kernel/lowlevel.h\<close>), the thread control block and the
  processor table (\<^verbatim>\<open>include/kernel/thread.h\<close>), and the record of all static kernel
  variables the modelled functions read or write.

  Pointers. A \<^verbatim>\<open>tcb_t*\<close> points into \<^verbatim>\<open>tcb_table\<close>, so it is the index of its entry: a plain
  \<open>tid\<close> where the source declares the parameter non-null, a \<open>tid option\<close> (\<open>None\<close> for
  \<^verbatim>\<open>NULL\<close>) elsewhere. A \<^verbatim>\<open>list_t*\<close> points to one of the named list heads, a \<open>list_ref\<close>.
  Static arrays are functions on their index; every access checks the declared length and
  faults with \<open>OutOfBounds\<close> beyond it.
\<close>

section \<open>Return codes\<close>

definition E_DONE :: int where "E_DONE = 1"
definition E_OK :: int where "E_OK = 0"
definition E_FAIL :: int where "E_FAIL = -1"
definition E_INVALID_ARG :: int where "E_INVALID_ARG = -2"
definition E_NOT_MAPPED :: int where "E_NOT_MAPPED = -3"
definition E_PERM :: int where "E_PERM = -6"
definition E_BLOCK :: int where "E_BLOCK = -7"
definition E_UNREACH :: int where "E_UNREACH = -8"
definition E_INTERRUPT :: int where "E_INTERRUPT = -9"
definition E_PREEMPT :: int where "E_PREEMPT = -10"

definition IS_ERROR :: "int \<Rightarrow> bool" where
  "IS_ERROR x \<longleftrightarrow> x < 0"

lemmas error_codes = E_DONE_def E_OK_def E_FAIL_def E_INVALID_ARG_def E_NOT_MAPPED_def
  E_PERM_def E_BLOCK_def E_UNREACH_def E_INTERRUPT_def E_PREEMPT_def IS_ERROR_def

text \<open>A return code in a 32-bit register, as the cast \<^verbatim>\<open>(uint32_t)E_UNREACH\<close> stores it.\<close>

definition code32 :: "int \<Rightarrow> 32 word" where
  "code32 e = word_of_int e"

section \<open>Thread control blocks\<close>

type_synonym tid = "16 word"
type_synonym addr = "32 word"
type_synonym paddr = "32 word"

abbreviation NULL_TID :: tid where "NULL_TID \<equiv> 0"
abbreviation ANY_SENDER :: tid where "ANY_SENDER \<equiv> NULL_TID"
abbreviation ANY_RECIPIENT :: tid where "ANY_RECIPIENT \<equiv> NULL_TID"
abbreviation KERNEL_TID :: tid where "KERNEL_TID \<equiv> 0"

record list_t =
  head_tid :: tid
  tail_tid :: tid

definition null_list :: list_t where
  "null_list = \<lparr>head_tid = NULL_TID, tail_tid = NULL_TID\<rparr>"

definition LIST_IS_EMPTY :: "list_t \<Rightarrow> bool" where
  "LIST_IS_EMPTY q \<longleftrightarrow> head_tid q = NULL_TID \<and> tail_tid q = NULL_TID"

text \<open>The saved user-mode registers.\<close>

record ExecutionState =
  gs :: "16 word"
  fs :: "16 word"
  es :: "16 word"
  ds :: "16 word"
  edi :: "32 word"
  esi :: "32 word"
  ebp :: "32 word"
  ebx :: "32 word"
  edx :: "32 word"
  ecx :: "32 word"
  eax :: "32 word"
  eip :: "32 word"
  cs :: "16 word"
  eflags :: "32 word"
  user_esp :: "32 word"
  user_ss :: "16 word"

text \<open>The values of the 4-bit field \<^verbatim>\<open>thread_state\<close>, in the order of their numbers.\<close>

datatype thread_state_t =
  INACTIVE | PAUSED | ZOMBIE | READY | RUNNING | WAIT_FOR_SEND | WAIT_FOR_RECV | SLEEPING

fun state_num :: "thread_state_t \<Rightarrow> 8 word" where
  "state_num INACTIVE = 0"
| "state_num PAUSED = 1"
| "state_num ZOMBIE = 2"
| "state_num READY = 3"
| "state_num RUNNING = 4"
| "state_num WAIT_FOR_SEND = 5"
| "state_num WAIT_FOR_RECV = 6"
| "state_num SLEEPING = 7"

record tcb =
  wait_for_kernel_msg :: bool
  thread_state :: thread_state_t
  priority :: "3 word"
  wait_tid :: tid
  receiver_wait_queue :: list_t
  sender_wait_queue :: list_t
  prev_tid :: tid
  next_tid :: tid
  ex_handler :: tid
  pager :: tid
  event_mask :: "32 word"
  pending_events :: "32 word"
  cap_table :: addr
  cap_table_size :: "32 word"
  fxsave_state :: addr
  fxsave_state_len :: "32 word"
  xsave_rfbm :: "64 word"
  user_exec_state :: ExecutionState
  root_pmap :: "32 word"

text \<open>\<^verbatim>\<open>memset(.., 0, sizeof ..)\<close> of a register file and of a control block.\<close>

definition zero_exec_state :: ExecutionState where
  "zero_exec_state = \<lparr>gs = 0, fs = 0, es = 0, ds = 0, edi = 0, esi = 0, ebp = 0, ebx = 0,
     edx = 0, ecx = 0, eax = 0, eip = 0, cs = 0, eflags = 0, user_esp = 0, user_ss = 0\<rparr>"

definition zero_tcb :: tcb where
  "zero_tcb = \<lparr>wait_for_kernel_msg = False, thread_state = INACTIVE, priority = 0,
     wait_tid = NULL_TID, receiver_wait_queue = null_list, sender_wait_queue = null_list,
     prev_tid = NULL_TID, next_tid = NULL_TID, ex_handler = NULL_TID, pager = NULL_TID,
     event_mask = 0, pending_events = 0, cap_table = 0, cap_table_size = 0,
     fxsave_state = 0, fxsave_state_len = 0, xsave_rfbm = 0,
     user_exec_state = zero_exec_state, root_pmap = 0\<rparr>"

record Processor =
  is_online :: bool
  acpi_uid :: "8 word"
  lapic_id :: "8 word"
  running_thread :: "tid option"

section \<open>The kernel's static variables\<close>

text \<open>
  \<open>phys\<close>, \<open>cr3\<close> and \<open>mmu\<close> are the machine: physical memory, the page directory register
  and the processor's own address translation, an uninterpreted function of memory,
  directory and virtual address that stands for the hardware page walk outside the
  kernel's temporary window. \<open>klower_mem_ptab\<close> is the page table under directory entry
  1022, through which \<^verbatim>\<open>map_temp\<close> maps the temporary window. \<open>fpu\<close> and \<open>fx_mem\<close> are the
  processor's FPU/SSE image and the images saved at the addresses \<^verbatim>\<open>_fxsave\<close> was given.
  \<open>user_regs\<close> is the frame \<^verbatim>\<open>RESTORE_STATE\<close> pops, built below \<open>kernel_stack_top\<close>;
  \<open>local_var\<close> is the address of the one local variable of the running function whose
  address is taken and handed to another function.
\<close>

type_synonym fximage = "8 word list"

record kstate =
  tcb_table :: "tid \<Rightarrow> tcb"
  tcb_table_lock :: bool
  last_tid :: "32 word"
  run_queues :: "nat \<Rightarrow> list_t"
  paused_list :: list_t
  zombie_list :: list_t
  processors :: "nat \<Rightarrow> Processor"
  num_processors :: nat
  irq_handlers :: "nat \<Rightarrow> tid option"
  init_server_thread :: "tid option"
  user_regs :: ExecutionState
  tss_esp0 :: "32 word"
  kernel_stack_top :: addr
  local_var :: addr
  fpu :: fximage
  fx_mem :: "addr \<Rightarrow> fximage"
  phys :: "paddr \<Rightarrow> 8 word"
  cr0 :: "32 word"
  cr2 :: "32 word"
  cr3 :: "32 word"
  cr4 :: "32 word"
  klower_mem_ptab :: "nat \<Rightarrow> 32 word"
  mmu :: "(paddr \<Rightarrow> 8 word) \<Rightarrow> paddr \<Rightarrow> addr \<Rightarrow> paddr option"

type_synonym 'a kernel = "(kstate, 'a) kmon"

definition TCB_TABLE_SIZE :: nat where "TCB_TABLE_SIZE = 16"
definition NUM_PRIORITIES :: nat where "NUM_PRIORITIES = 5"
definition MIN_PRIORITY :: nat where "MIN_PRIORITY = 0"
definition MAX_PRIORITY :: nat where "MAX_PRIORITY = 4"
definition NORMAL_PRIORITY :: "3 word" where "NORMAL_PRIORITY = 2"
definition MAX_PROCESSORS :: nat where "MAX_PROCESSORS = 64"
definition NUM_IRQS :: nat where "NUM_IRQS = 24"

lemmas table_sizes = TCB_TABLE_SIZE_def NUM_PRIORITIES_def MIN_PRIORITY_def
  MAX_PRIORITY_def NORMAL_PRIORITY_def MAX_PROCESSORS_def NUM_IRQS_def

section \<open>Access to the thread table\<close>

text \<open>\<open>in_table t\<close>: entry \<open>t\<close> lies inside the 16-entry array; \<open>is_thread\<close> leaves out
  entry 0, whose identifier is \<^verbatim>\<open>NULL_TID\<close>.\<close>

definition in_table :: "tid \<Rightarrow> bool" where
  "in_table t \<longleftrightarrow> unat t < TCB_TABLE_SIZE"

definition is_thread :: "tid \<Rightarrow> bool" where
  "is_thread t \<longleftrightarrow> t \<noteq> NULL_TID \<and> in_table t"

lemma is_threadD [dest]: "is_thread t \<Longrightarrow> t \<noteq> NULL_TID \<and> in_table t"
  by (simp add: is_thread_def)

lemma in_table_0 [simp]: "in_table 0"
  by (simp add: in_table_def table_sizes)

definition get_tid :: "tid \<Rightarrow> tid" where
  "get_tid p = p"

definition get_tcb :: "tid \<Rightarrow> tid option" where
  "get_tcb t = (if t = NULL_TID then None else Some t)"

text \<open>\<open>rd t f\<close> is the C expression \<^verbatim>\<open>t->f\<close>, \<open>wr t u\<close> an assignment to fields of \<^verbatim>\<open>*t\<close>.\<close>

definition rd :: "tid \<Rightarrow> (tcb \<Rightarrow> 'a) \<Rightarrow> 'a kernel" where
  [kexec]: "rd t f s = (if in_table t then Ret (f (tcb_table s t)) s else Fault OutOfBounds)"

definition upd_tcb :: "tid \<Rightarrow> (tcb \<Rightarrow> tcb) \<Rightarrow> kstate \<Rightarrow> kstate" where
  "upd_tcb t u s = s\<lparr>tcb_table := (tcb_table s)(t := u (tcb_table s t))\<rparr>"

definition wr :: "tid \<Rightarrow> (tcb \<Rightarrow> tcb) \<Rightarrow> unit kernel" where
  [kexec]: "wr t u s = (if in_table t then Ret () (upd_tcb t u s) else Fault OutOfBounds)"

text \<open>Dereferencing a pointer that may be \<^verbatim>\<open>NULL\<close>.\<close>

definition deref :: "tid option \<Rightarrow> tid kernel" where
  [kexec]: "deref p s = (case p of None \<Rightarrow> Fault NullDeref | Some t \<Rightarrow> Ret t s)"

definition upd_regs :: "(ExecutionState \<Rightarrow> ExecutionState) \<Rightarrow> tcb \<Rightarrow> tcb" where
  "upd_regs u c = c\<lparr>user_exec_state := u (user_exec_state c)\<rparr>"

lemma tcb_table_upd_tcb [simp]:
  "tcb_table (upd_tcb t u s) = (tcb_table s)(t := u (tcb_table s t))"
  by (simp add: upd_tcb_def)

lemma upd_tcb_frame [simp]:
  "run_queues (upd_tcb t u s) = run_queues s"
  "paused_list (upd_tcb t u s) = paused_list s"
  "zombie_list (upd_tcb t u s) = zombie_list s"
  "processors (upd_tcb t u s) = processors s"
  "num_processors (upd_tcb t u s) = num_processors s"
  "irq_handlers (upd_tcb t u s) = irq_handlers s"
  "last_tid (upd_tcb t u s) = last_tid s"
  "tcb_table_lock (upd_tcb t u s) = tcb_table_lock s"
  "init_server_thread (upd_tcb t u s) = init_server_thread s"
  "user_regs (upd_tcb t u s) = user_regs s"
  "fpu (upd_tcb t u s) = fpu s"
  "fx_mem (upd_tcb t u s) = fx_mem s"
  "phys (upd_tcb t u s) = phys s"
  "cr3 (upd_tcb t u s) = cr3 s"
  "klower_mem_ptab (upd_tcb t u s) = klower_mem_ptab s"
  "mmu (upd_tcb t u s) = mmu s"
  by (simp_all add: upd_tcb_def)

section \<open>The current processor\<close>

definition processor_get_current :: nat where
  "processor_get_current = 0"

definition thread_get_current :: "kstate \<Rightarrow> tid option" where
  "thread_get_current s = running_thread (processors s processor_get_current)"

definition set_running :: "nat \<Rightarrow> tid option \<Rightarrow> kstate \<Rightarrow> kstate" where
  "set_running p t s =
     s\<lparr>processors := (processors s)(p := (processors s p)\<lparr>running_thread := t\<rparr>)\<rparr>"

definition thread_set_current :: "tid option \<Rightarrow> unit kernel" where
  [kexec]: "thread_set_current t = kmod (set_running processor_get_current t)"

lemma set_running_simps [simp]:
  "processors (set_running p t s) = (processors s)(p := (processors s p)\<lparr>running_thread := t\<rparr>)"
  "tcb_table (set_running p t s) = tcb_table s"
  "run_queues (set_running p t s) = run_queues s"
  "paused_list (set_running p t s) = paused_list s"
  "zombie_list (set_running p t s) = zombie_list s"
  "num_processors (set_running p t s) = num_processors s"
  by (simp_all add: set_running_def)

end
