(* ===== verification/Thread_List.thy ===== *)
theory Thread_List
  imports Kernel_State
begin

text \<open>
  The intrusive thread lists of \<^verbatim>\<open>kernel/list.c\<close>: doubly linked through the \<^verbatim>\<open>prev_tid\<close> and
  \<^verbatim>\<open>next_tid\<close> fields of the control blocks, with a head and a tail identifier per list. The
  relation to lists of threads is the subject of \<open>Queue_Refinement\<close>.
\<close>

section \<open>List heads\<close>

text \<open>
  The places a \<^verbatim>\<open>list_t*\<close> can point to. \<open>LinkFields t\<close> is the pair \<^verbatim>\<open>prev_tid\<close>, \<^verbatim>\<open>next_tid\<close>
  of a control block read as a \<^verbatim>\<open>list_t\<close>: the two fields follow \<^verbatim>\<open>sender_wait_queue\<close> in the
  structure, so that a pointer to it incremented by one points there.
\<close>

datatype list_ref =
    RunQueue nat | PausedList | ZombieList | SenderQueue tid | ReceiverQueue tid
  | LinkFields tid

fun valid_ref :: "list_ref \<Rightarrow> bool" where
  "valid_ref (RunQueue p) \<longleftrightarrow> p < NUM_PRIORITIES"
| "valid_ref PausedList \<longleftrightarrow> True"
| "valid_ref ZombieList \<longleftrightarrow> True"
| "valid_ref (SenderQueue t) \<longleftrightarrow> in_table t"
| "valid_ref (ReceiverQueue t) \<longleftrightarrow> in_table t"
| "valid_ref (LinkFields t) \<longleftrightarrow> in_table t"

fun list_at :: "list_ref \<Rightarrow> kstate \<Rightarrow> list_t" where
  "list_at (RunQueue p) s = run_queues s p"
| "list_at PausedList s = paused_list s"
| "list_at ZombieList s = zombie_list s"
| "list_at (SenderQueue t) s = sender_wait_queue (tcb_table s t)"
| "list_at (ReceiverQueue t) s = receiver_wait_queue (tcb_table s t)"
| "list_at (LinkFields t) s =
     \<lparr>head_tid = prev_tid (tcb_table s t), tail_tid = next_tid (tcb_table s t)\<rparr>"

fun put_list :: "list_ref \<Rightarrow> list_t \<Rightarrow> kstate \<Rightarrow> kstate" where
  "put_list (RunQueue p) q s = s\<lparr>run_queues := (run_queues s)(p := q)\<rparr>"
| "put_list PausedList q s = s\<lparr>paused_list := q\<rparr>"
| "put_list ZombieList q s = s\<lparr>zombie_list := q\<rparr>"
| "put_list (SenderQueue t) q s = upd_tcb t (\<lambda>c. c\<lparr>sender_wait_queue := q\<rparr>) s"
| "put_list (ReceiverQueue t) q s = upd_tcb t (\<lambda>c. c\<lparr>receiver_wait_queue := q\<rparr>) s"
| "put_list (LinkFields t) q s =
     upd_tcb t (\<lambda>c. c\<lparr>prev_tid := head_tid q, next_tid := tail_tid q\<rparr>) s"

definition ld_list :: "list_ref \<Rightarrow> list_t kernel" where
  [kexec]: "ld_list l s = (if valid_ref l then Ret (list_at l s) s else Fault OutOfBounds)"

definition st_list :: "list_ref \<Rightarrow> (list_t \<Rightarrow> list_t) \<Rightarrow> unit kernel" where
  [kexec]: "st_list l u s =
     (if valid_ref l then Ret () (put_list l (u (list_at l s)) s) else Fault OutOfBounds)"

section \<open>The operations\<close>

definition list_insert_at_end :: "list_ref \<Rightarrow> tid \<Rightarrow> bool \<Rightarrow> unit kernel" where
  "list_insert_at_end list thread at_tail =
     (let threadTid = get_tid thread in
      kbind (ld_list list) (\<lambda>l.
        if LIST_IS_EMPTY l then
          kseq [st_list list (\<lambda>q. q\<lparr>head_tid := threadTid\<rparr>),
                st_list list (\<lambda>q. q\<lparr>tail_tid := threadTid\<rparr>),
                wr thread (\<lambda>c. c\<lparr>next_tid := NULL_TID\<rparr>),
                wr thread (\<lambda>c. c\<lparr>prev_tid := NULL_TID\<rparr>)]
        else if at_tail then
          kseq [wr thread (\<lambda>c. c\<lparr>next_tid := NULL_TID\<rparr>),
                kbind (ld_list list) (\<lambda>l. case get_tcb (tail_tid l) of
                    None \<Rightarrow> kskip
                  | Some t \<Rightarrow> wr t (\<lambda>c. c\<lparr>next_tid := threadTid\<rparr>)),
                kbind (ld_list list) (\<lambda>l. wr thread (\<lambda>c. c\<lparr>prev_tid := tail_tid l\<rparr>)),
                st_list list (\<lambda>q. q\<lparr>tail_tid := threadTid\<rparr>)]
        else
          kseq [wr thread (\<lambda>c. c\<lparr>prev_tid := NULL_TID\<rparr>),
                kbind (ld_list list) (\<lambda>l. case get_tcb (head_tid l) of
                    None \<Rightarrow> kskip
                  | Some t \<Rightarrow> wr t (\<lambda>c. c\<lparr>prev_tid := threadTid\<rparr>)),
                kbind (ld_list list) (\<lambda>l. wr thread (\<lambda>c. c\<lparr>next_tid := head_tid l\<rparr>)),
                st_list list (\<lambda>q. q\<lparr>head_tid := threadTid\<rparr>)]))"

definition list_remove_from_end :: "list_ref \<Rightarrow> bool \<Rightarrow> tid option kernel" where
  "list_remove_from_end list at_tail =
     kbind (ld_list list) (\<lambda>l.
       let removed_tcb = get_tcb (if at_tail then tail_tid l else head_tid l) in
       kthen (kguard ((head_tid l = NULL_TID \<or> tail_tid l = NULL_TID) \<longrightarrow>
                      (head_tid l = NULL_TID \<and> tail_tid l = NULL_TID)) AssertFail)
      (kthen (kguard ((head_tid l \<noteq> NULL_TID \<or> tail_tid l \<noteq> NULL_TID) \<longrightarrow>
                      (head_tid l \<noteq> NULL_TID \<and> tail_tid l \<noteq> NULL_TID)) AssertFail)
      (case removed_tcb of
         None \<Rightarrow> kret None
       | Some r \<Rightarrow>
           kthen (kseq
             [if at_tail then
                kseq [kbind (rd r prev_tid) (\<lambda>p. st_list list (\<lambda>q. q\<lparr>tail_tid := p\<rparr>)),
                      kbind (ld_list list) (\<lambda>l.
                        if tail_tid l = NULL_TID then st_list list (\<lambda>q. q\<lparr>head_tid := NULL_TID\<rparr>)
                        else kbind (deref (get_tcb (tail_tid l)))
                               (\<lambda>t. wr t (\<lambda>c. c\<lparr>next_tid := NULL_TID\<rparr>)))]
              else
                kseq [kbind (rd r next_tid) (\<lambda>n. st_list list (\<lambda>q. q\<lparr>head_tid := n\<rparr>)),
                      kbind (ld_list list) (\<lambda>l.
                        if head_tid l = NULL_TID then st_list list (\<lambda>q. q\<lparr>tail_tid := NULL_TID\<rparr>)
                        else kbind (deref (get_tcb (head_tid l)))
                               (\<lambda>t. wr t (\<lambda>c. c\<lparr>prev_tid := NULL_TID\<rparr>)))],
              wr r (\<lambda>c. c\<lparr>prev_tid := NULL_TID\<rparr>),
              wr r (\<lambda>c. c\<lparr>next_tid := NULL_TID\<rparr>)])
           (kret (Some r)))))"

definition list_remove :: "list_ref \<Rightarrow> tid \<Rightarrow> unit kernel" where
  "list_remove list thread =
     (let thread_tid = get_tid thread in
      kseq [kbind (rd thread next_tid) (\<lambda>n. kwhen (n \<noteq> NULL_TID)
              (kbind (deref (get_tcb n)) (\<lambda>t. kbind (rd thread prev_tid)
                (\<lambda>p. wr t (\<lambda>c. c\<lparr>prev_tid := p\<rparr>))))),
            kbind (rd thread prev_tid) (\<lambda>p. kwhen (p \<noteq> NULL_TID)
              (kbind (deref (get_tcb p)) (\<lambda>t. kbind (rd thread next_tid)
                (\<lambda>n. wr t (\<lambda>c. c\<lparr>next_tid := n\<rparr>))))),
            kbind (ld_list list) (\<lambda>l. kwhen (head_tid l = thread_tid)
              (kbind (rd thread next_tid) (\<lambda>n. st_list list (\<lambda>q. q\<lparr>head_tid := n\<rparr>)))),
            kbind (ld_list list) (\<lambda>l. kwhen (tail_tid l = thread_tid)
              (kbind (rd thread prev_tid) (\<lambda>p. st_list list (\<lambda>q. q\<lparr>tail_tid := p\<rparr>)))),
            wr thread (\<lambda>c. c\<lparr>prev_tid := NULL_TID\<rparr>),
            wr thread (\<lambda>c. c\<lparr>next_tid := NULL_TID\<rparr>)])"

text \<open>The macros of \<^verbatim>\<open>list.h\<close>: queues grow at the head and are served from the tail.\<close>

definition list_enqueue :: "list_ref \<Rightarrow> tid \<Rightarrow> unit kernel" where
  "list_enqueue list thread = list_insert_at_end list thread False"

definition list_dequeue :: "list_ref \<Rightarrow> tid option kernel" where
  "list_dequeue list = list_remove_from_end list True"

definition list_push :: "list_ref \<Rightarrow> tid \<Rightarrow> unit kernel" where
  "list_push list thread = list_insert_at_end list thread False"

definition list_pop :: "list_ref \<Rightarrow> tid option kernel" where
  "list_pop list = list_remove_from_end list False"

end
