(* ===== verification/Queue_Refinement.thy ===== *)
theory Queue_Refinement
  imports Thread_List
begin

text \<open>
  The abstract view of the thread lists: a map from list heads to lists of thread
  identifiers. \<open>repr s Q\<close> says that the links stored in \<open>s\<close> are the doubly linked lists
  \<open>Q\<close> describes; \<open>strip s\<close> is everything else of the state. Each operation of
  \<^verbatim>\<open>kernel/list.c\<close> refines an operation on \<open>Q\<close> and leaves \<open>strip s\<close> alone.
\<close>

section \<open>Doubly linked segments\<close>

definition head_or :: "tid list \<Rightarrow> tid \<Rightarrow> tid" where
  "head_or xs n = (if xs = [] then n else hd xs)"

definition last_or :: "tid list \<Rightarrow> tid \<Rightarrow> tid" where
  "last_or xs p = (if xs = [] then p else last xs)"

lemma head_or_simps [simp]:
  "head_or [] n = n" "head_or (x # xs) n = x"
  "head_or (xs @ ys) n = head_or xs (head_or ys n)"
  by (simp_all add: head_or_def)

lemma last_or_simps [simp]:
  "last_or [] p = p" "last_or (x # xs) p = last_or xs x"
  "last_or (xs @ ys) p = last_or ys (last_or xs p)"
  by (simp_all add: last_or_def)

fun seg :: "(tid \<Rightarrow> tcb) \<Rightarrow> tid \<Rightarrow> tid list \<Rightarrow> tid \<Rightarrow> bool" where
  "seg tb p [] n \<longleftrightarrow> True"
| "seg tb p (x # xs) n \<longleftrightarrow>
     prev_tid (tb x) = p \<and> next_tid (tb x) = head_or xs n \<and> seg tb x xs n"

lemma seg_append:
  "seg tb p (xs @ ys) n \<longleftrightarrow> seg tb p xs (head_or ys n) \<and> seg tb (last_or xs p) ys n"
  by (induction xs arbitrary: p) auto

definition same_links :: "(tid \<Rightarrow> tcb) \<Rightarrow> (tid \<Rightarrow> tcb) \<Rightarrow> tid \<Rightarrow> bool" where
  "same_links tb tb' x \<longleftrightarrow>
     prev_tid (tb' x) = prev_tid (tb x) \<and> next_tid (tb' x) = next_tid (tb x)"

lemma seg_cong:
  "\<forall>x\<in>set xs. same_links tb tb' x \<Longrightarrow> seg tb' p xs n = seg tb p xs n"
  by (induction xs arbitrary: p) (auto simp: same_links_def)

lemma seg_upd_notin [simp]: "x \<notin> set xs \<Longrightarrow> seg (tb(x := c)) p xs n = seg tb p xs n"
  by (rule seg_cong) (auto simp: same_links_def)

definition dll :: "(tid \<Rightarrow> tcb) \<Rightarrow> list_t \<Rightarrow> tid list \<Rightarrow> bool" where
  "dll tb q xs \<longleftrightarrow> head_tid q = head_or xs NULL_TID \<and> tail_tid q = last_or xs NULL_TID \<and>
     seg tb NULL_TID xs NULL_TID \<and> distinct xs \<and> (\<forall>x\<in>set xs. is_thread x)"

lemma dll_cong: "\<forall>x\<in>set xs. same_links tb tb' x \<Longrightarrow> dll tb' q xs = dll tb q xs"
  by (simp add: dll_def seg_cong)

lemma dll_empty_iff: "dll tb q xs \<Longrightarrow> LIST_IS_EMPTY q \<longleftrightarrow> xs = []"
  by (cases xs) (auto simp: dll_def LIST_IS_EMPTY_def)

section \<open>The abstraction relation\<close>

fun queue_ref :: "list_ref \<Rightarrow> bool" where
  "queue_ref (LinkFields t) \<longleftrightarrow> False"
| "queue_ref r \<longleftrightarrow> valid_ref r"

lemma queue_ref_valid [simp]: "queue_ref r \<Longrightarrow> valid_ref r"
  by (cases r) auto

type_synonym queues = "list_ref \<Rightarrow> tid list"

definition members :: "queues \<Rightarrow> tid set" where
  "members Q = (\<Union>r. set (Q r))"

definition repr :: "kstate \<Rightarrow> queues \<Rightarrow> bool" where
  "repr s Q \<longleftrightarrow>
     (\<forall>r. queue_ref r \<longrightarrow> dll (tcb_table s) (list_at r s) (Q r)) \<and>
     (\<forall>r. \<not> queue_ref r \<longrightarrow> Q r = []) \<and>
     (\<forall>r r'. r \<noteq> r' \<longrightarrow> set (Q r) \<inter> set (Q r') = {}) \<and>
     (\<forall>t. in_table t \<longrightarrow> t \<notin> members Q \<longrightarrow>
        prev_tid (tcb_table s t) = NULL_TID \<and> next_tid (tcb_table s t) = NULL_TID)"

text \<open>The state with all links and list heads erased.\<close>

definition strip_tcb :: "tcb \<Rightarrow> tcb" where
  "strip_tcb c = c\<lparr>prev_tid := NULL_TID, next_tid := NULL_TID,
     sender_wait_queue := null_list, receiver_wait_queue := null_list\<rparr>"

definition strip :: "kstate \<Rightarrow> kstate" where
  "strip s = s\<lparr>tcb_table := (\<lambda>t. strip_tcb (tcb_table s t)), run_queues := (\<lambda>_. null_list),
     paused_list := null_list, zombie_list := null_list\<rparr>"

lemma strip_tcb_eqD:
  assumes "strip_tcb c = strip_tcb d"
  shows "wait_for_kernel_msg c = wait_for_kernel_msg d" "thread_state c = thread_state d"
    "priority c = priority d" "wait_tid c = wait_tid d" "ex_handler c = ex_handler d"
    "pager c = pager d" "event_mask c = event_mask d" "pending_events c = pending_events d"
    "user_exec_state c = user_exec_state d" "root_pmap c = root_pmap d"
    "fxsave_state c = fxsave_state d"
  using assms by (cases c; cases d; simp add: strip_tcb_def)+

lemma strip_eqD:
  assumes "strip s = strip s'"
  shows "strip_tcb (tcb_table s t) = strip_tcb (tcb_table s' t)"
    "processors s = processors s'" "num_processors s = num_processors s'"
    "irq_handlers s = irq_handlers s'" "init_server_thread s = init_server_thread s'"
    "last_tid s = last_tid s'" "tcb_table_lock s = tcb_table_lock s'"
    "phys s = phys s'" "cr3 s = cr3 s'" "klower_mem_ptab s = klower_mem_ptab s'"
    "mmu s = mmu s'" "fpu s = fpu s'" "fx_mem s = fx_mem s'"
  using assms by (cases s; cases s'; simp add: strip_def fun_eq_iff)+

lemma strip_upd_tcb:
  "strip_tcb (u (tcb_table s t)) = strip_tcb (tcb_table s t) \<Longrightarrow> strip (upd_tcb t u s) = strip s"
  by (simp add: strip_def upd_tcb_def fun_eq_iff)

lemma strip_links [simp]:
  "strip_tcb (c\<lparr>next_tid := n\<rparr>) = strip_tcb c" "strip_tcb (c\<lparr>prev_tid := p\<rparr>) = strip_tcb c"
  "strip_tcb (c\<lparr>sender_wait_queue := q\<rparr>) = strip_tcb c"
  "strip_tcb (c\<lparr>receiver_wait_queue := q\<rparr>) = strip_tcb c"
  by (simp_all add: strip_tcb_def)

lemma strip_upd_links [simp]:
  "strip (upd_tcb t (next_tid_update f) s) = strip s"
  "strip (upd_tcb t (prev_tid_update f) s) = strip s"
  by (rule strip_upd_tcb; simp add: strip_tcb_def)+

lemma strip_put_list [simp]: "strip (put_list r q s) = strip s"
  by (cases r) (simp_all add: strip_def upd_tcb_def strip_tcb_def fun_eq_iff)

lemma list_at_upd_links [simp]:
  "queue_ref r \<Longrightarrow> list_at r (upd_tcb t (next_tid_update f) s) = list_at r s"
  "queue_ref r \<Longrightarrow> list_at r (upd_tcb t (prev_tid_update f) s) = list_at r s"
  by (cases r; simp)+

lemma list_at_put_list [simp]:
  "queue_ref r \<Longrightarrow> queue_ref r' \<Longrightarrow>
     list_at r' (put_list r q s) = (if r' = r then q else list_at r' s)"
  by (cases r; cases r'; simp)

lemma links_put_list [simp]:
  "queue_ref r \<Longrightarrow> prev_tid (tcb_table (put_list r q s) t) = prev_tid (tcb_table s t)"
  "queue_ref r \<Longrightarrow> next_tid (tcb_table (put_list r q s) t) = next_tid (tcb_table s t)"
  by (cases r; simp)+

lemma same_links_put_list [simp]:
  "queue_ref r \<Longrightarrow> same_links (tcb_table s) (tcb_table (put_list r q s)) t"
  by (simp add: same_links_def)

lemma seg_put_list [simp]:
  "queue_ref r \<Longrightarrow> seg (tcb_table (put_list r q s)) p xs n = seg (tcb_table s) p xs n"
  by (rule seg_cong) simp

lemma reprD:
  assumes "repr s Q"
  shows "queue_ref r \<Longrightarrow> dll (tcb_table s) (list_at r s) (Q r)"
    and "\<not> queue_ref r \<Longrightarrow> Q r = []"
    and "r \<noteq> r' \<Longrightarrow> set (Q r) \<inter> set (Q r') = {}"
    and "in_table t \<Longrightarrow> t \<notin> members Q \<Longrightarrow> prev_tid (tcb_table s t) = NULL_TID"
    and "in_table t \<Longrightarrow> t \<notin> members Q \<Longrightarrow> next_tid (tcb_table s t) = NULL_TID"
  using assms by (auto simp: repr_def)

lemma repr_thread: "repr s Q \<Longrightarrow> t \<in> set (Q r) \<Longrightarrow> is_thread t"
  by (cases "queue_ref r") (auto simp: repr_def dll_def)

text \<open>
  How an operation on one list is lifted to the whole relation: the new list is linked
  properly, no link of a thread outside the old and the new list changes, no other list
  head changes, and a thread that left the list is unlinked.
\<close>

lemma repr_update:
  assumes "repr s Q" and "queue_ref r"
    and new: "dll (tcb_table s') (list_at r s') ys"
    and links: "\<And>t. t \<notin> set (Q r) \<union> set ys \<Longrightarrow> same_links (tcb_table s) (tcb_table s') t"
    and heads: "\<And>r'. queue_ref r' \<Longrightarrow> r' \<noteq> r \<Longrightarrow> list_at r' s' = list_at r' s"
    and fresh: "\<And>t r'. t \<in> set ys \<Longrightarrow> t \<in> set (Q r') \<Longrightarrow> r' = r"
    and gone: "\<And>t. t \<in> set (Q r) - set ys \<Longrightarrow>
      prev_tid (tcb_table s' t) = NULL_TID \<and> next_tid (tcb_table s' t) = NULL_TID"
  shows "repr s' (Q(r := ys))"
proof -
  note R = reprD [OF assms(1)]
  have other: "dll (tcb_table s') (list_at r' s') (Q r')"
    if "queue_ref r'" "r' \<noteq> r" for r'
  proof -
    have "\<forall>x\<in>set (Q r'). same_links (tcb_table s) (tcb_table s') x"
      using that R(3) [of r r'] fresh by (auto intro!: links)
    then show ?thesis
      using R(1) [OF that(1)] heads [OF that] by (simp add: dll_cong)
  qed
  have mem: "members (Q(r := ys)) = (members Q - set (Q r)) \<union> set ys"
    using R(3) by (fastforce simp: members_def split: if_splits)
  have unl: "prev_tid (tcb_table s' t) = NULL_TID \<and> next_tid (tcb_table s' t) = NULL_TID"
    if "in_table t" "t \<notin> members (Q(r := ys))" for t
  proof (cases "t \<in> set (Q r)")
    case True
    with that mem gone show ?thesis by auto
  next
    case False
    with that mem have "t \<notin> members Q" "t \<notin> set (Q r) \<union> set ys" by auto
    then show ?thesis
      using links [of t] R(4,5) [OF that(1)] by (simp add: same_links_def)
  qed
  show ?thesis
    unfolding repr_def
  proof (intro conjI allI impI)
    show "dll (tcb_table s') (list_at r' s') ((Q(r := ys)) r')" if "queue_ref r'" for r'
      using other new that by auto
    show "(Q(r := ys)) r' = []" if "\<not> queue_ref r'" for r'
      using R(2) that assms(2) by auto
    show "set ((Q(r := ys)) r1) \<inter> set ((Q(r := ys)) r2) = {}" if "r1 \<noteq> r2" for r1 r2
      using R(3) that fresh by (auto split: if_splits)
  qed (use unl in auto)
qed

lemma repr_unique: "repr s Q \<Longrightarrow> t \<in> set (Q r) \<Longrightarrow> t \<in> set (Q r') \<Longrightarrow> r' = r"
  using reprD(3) by blast

lemma repr_grow:
  assumes "repr s Q" and "queue_ref r" and "t \<notin> members Q" and "set ys = insert t (set (Q r))"
    and "dll (tcb_table s') (list_at r s') ys"
    and "\<And>u. u \<notin> set ys \<Longrightarrow> same_links (tcb_table s) (tcb_table s') u"
    and "\<And>r'. queue_ref r' \<Longrightarrow> r' \<noteq> r \<Longrightarrow> list_at r' s' = list_at r' s"
  shows "repr s' (Q(r := ys))"
  using assms(3,4) repr_unique [OF assms(1)]
  by (intro repr_update [OF assms(1,2,5)] assms(6,7)) (auto simp: members_def)

lemma repr_shrink:
  assumes "repr s Q" and "queue_ref r" and "set (Q r) = insert t (set ys)"
    and "dll (tcb_table s') (list_at r s') ys"
    and "\<And>u. u \<notin> set (Q r) \<Longrightarrow> same_links (tcb_table s) (tcb_table s') u"
    and "\<And>r'. queue_ref r' \<Longrightarrow> r' \<noteq> r \<Longrightarrow> list_at r' s' = list_at r' s"
    and "prev_tid (tcb_table s' t) = NULL_TID" "next_tid (tcb_table s' t) = NULL_TID"
  shows "repr s' (Q(r := ys))"
  using assms(3,7,8) repr_unique [OF assms(1)]
  by (intro repr_update [OF assms(1,2,4)] assms(5,6)) auto

section \<open>Insertion\<close>

lemma not_membersD: "t \<notin> members Q \<Longrightarrow> t \<notin> set (Q r)"
  by (auto simp: members_def)

lemma last_or_neq:
  "\<forall>x\<in>set xs. is_thread x \<Longrightarrow> p \<noteq> NULL_TID \<Longrightarrow> last_or xs p \<noteq> NULL_TID"
  by (auto simp: last_or_def dest: last_in_set)

lemma head_or_neq:
  "\<forall>x\<in>set xs. is_thread x \<Longrightarrow> n \<noteq> NULL_TID \<Longrightarrow> head_or xs n \<noteq> NULL_TID"
  by (cases xs) auto

lemma last_or_eq: "last_or xs p \<in> insert p (set xs)"
  by (auto simp: last_or_def)

lemma head_or_eq: "head_or xs n \<in> insert n (set xs)"
  by (auto simp: head_or_def)

lemma get_tcb_simps [simp]: "get_tcb NULL_TID = None" "t \<noteq> NULL_TID \<Longrightarrow> get_tcb t = Some t"
  by (simp_all add: get_tcb_def)

lemma list_insert_empty:
  assumes "repr s Q" and "queue_ref r" and "is_thread t" and "t \<notin> members Q" and "Q r = []"
  shows "\<exists>s'. list_insert_at_end r t b s = Ret () s' \<and> repr s' (Q(r := [t])) \<and> strip s' = strip s"
proof -
  let ?q = "list_at r s"
  let ?s = "upd_tcb t (\<lambda>c. c\<lparr>prev_tid := NULL_TID\<rparr>) (upd_tcb t (\<lambda>c. c\<lparr>next_tid := NULL_TID\<rparr>)
    (put_list r (?q\<lparr>head_tid := t, tail_tid := t\<rparr>) (put_list r (?q\<lparr>head_tid := t\<rparr>) s)))"
  have "LIST_IS_EMPTY ?q"
    using reprD(1) [OF assms(1,2)] assms(5) by (simp add: dll_empty_iff)
  then have "list_insert_at_end r t b s = Ret () ?s"
    using assms(2,3) by (simp add: list_insert_at_end_def kexec get_tid_def is_thread_def)
  moreover have "repr ?s (Q(r := [t]))"
    by (rule repr_grow [OF assms(1,2,4)])
      (use assms in \<open>auto simp: dll_def same_links_def is_thread_def\<close>)
  ultimately show ?thesis by simp
qed

lemma list_insert_head:
  assumes "repr s Q" and "queue_ref r" and "is_thread t" and "t \<notin> members Q" and "Q r = x # xs"
  shows "\<exists>s'. list_insert_at_end r t False s = Ret () s' \<and> repr s' (Q(r := t # x # xs)) \<and>
           strip s' = strip s"
proof -
  let ?q = "list_at r s"
  let ?s = "put_list r (?q\<lparr>head_tid := t\<rparr>) (upd_tcb t (\<lambda>c. c\<lparr>next_tid := x\<rparr>)
    (upd_tcb x (\<lambda>c. c\<lparr>prev_tid := t\<rparr>) (upd_tcb t (\<lambda>c. c\<lparr>prev_tid := NULL_TID\<rparr>) s)))"
  have d: "dll (tcb_table s) ?q (x # xs)"
    using reprD(1) [OF assms(1,2)] assms(5) by simp
  have f: "head_tid ?q = x" "is_thread x" "x \<noteq> t" "t \<notin> set xs" "x \<noteq> NULL_TID" "\<not> LIST_IS_EMPTY ?q"
    using d not_membersD [OF assms(4), of r] assms(5) by (auto simp: dll_def LIST_IS_EMPTY_def)
  have "list_insert_at_end r t False s = Ret () ?s"
    using assms(2,3) f by (simp add: list_insert_at_end_def kexec get_tid_def is_thread_def)
  moreover have "repr ?s (Q(r := t # x # xs))"
    by (rule repr_grow [OF assms(1,2,4)])
      (use assms(2,3,5) d f in \<open>simp_all add: dll_def same_links_def\<close>)
  ultimately show ?thesis using assms(2) by simp
qed

lemma list_insert_tail:
  assumes "repr s Q" and "queue_ref r" and "is_thread t" and "t \<notin> members Q" and "Q r = xs @ [x]"
  shows "\<exists>s'. list_insert_at_end r t True s = Ret () s' \<and> repr s' (Q(r := xs @ [x, t])) \<and>
           strip s' = strip s"
proof -
  let ?q = "list_at r s"
  let ?s = "put_list r (?q\<lparr>tail_tid := t\<rparr>) (upd_tcb t (\<lambda>c. c\<lparr>prev_tid := x\<rparr>)
    (upd_tcb x (\<lambda>c. c\<lparr>next_tid := t\<rparr>) (upd_tcb t (\<lambda>c. c\<lparr>next_tid := NULL_TID\<rparr>) s)))"
  have d: "dll (tcb_table s) ?q (xs @ [x])"
    using reprD(1) [OF assms(1,2)] assms(5) by simp
  have f: "tail_tid ?q = x" "is_thread x" "x \<noteq> t" "t \<notin> set xs" "x \<noteq> NULL_TID" "\<not> LIST_IS_EMPTY ?q"
    using d not_membersD [OF assms(4), of r] assms(5) by (auto simp: dll_def LIST_IS_EMPTY_def)
  have "list_insert_at_end r t True s = Ret () ?s"
    using assms(2,3) f by (simp add: list_insert_at_end_def kexec get_tid_def is_thread_def)
  moreover have "repr ?s (Q(r := xs @ [x, t]))"
    by (rule repr_grow [OF assms(1,2,4)])
      (use assms(2,3,5) d f in \<open>simp_all add: dll_def same_links_def seg_append insert_commute\<close>)
  ultimately show ?thesis using assms(2) by simp
qed

lemma list_insert_at_end_repr:
  assumes "repr s Q" and "queue_ref r" and "is_thread t" and "t \<notin> members Q"
  shows "\<exists>s'. list_insert_at_end r t b s = Ret () s' \<and>
           repr s' (Q(r := if b then Q r @ [t] else t # Q r)) \<and> strip s' = strip s"
proof (cases "Q r")
  case Nil
  then show ?thesis using list_insert_empty [OF assms] by simp
next
  case (Cons x xs)
  obtain ys y where y: "Q r = ys @ [y]" using Cons by (metis rev_exhaust list.distinct(1))
  show ?thesis
  proof (cases b)
    case True
    with list_insert_tail [OF assms y] y show ?thesis by simp
  next
    case False
    with list_insert_head [OF assms Cons] Cons show ?thesis by simp
  qed
qed

section \<open>Removal\<close>

lemma list_remove_from_end_empty:
  assumes "repr s Q" and "queue_ref r" and "Q r = []"
  shows "list_remove_from_end r b s = Ret None s"
  using reprD(1) [OF assms(1,2)] assms(2,3)
  by (simp add: list_remove_from_end_def kexec dll_def)

lemma list_remove_last:
  assumes "repr s Q" and "queue_ref r" and "Q r = [x]"
  shows "\<exists>s'. list_remove_from_end r b s = Ret (Some x) s' \<and> repr s' (Q(r := [])) \<and>
           strip s' = strip s"
proof -
  let ?q = "list_at r s"
  let ?s1 = "if b
    then put_list r (?q\<lparr>tail_tid := NULL_TID, head_tid := NULL_TID\<rparr>)
           (put_list r (?q\<lparr>tail_tid := NULL_TID\<rparr>) s)
    else put_list r (?q\<lparr>head_tid := NULL_TID, tail_tid := NULL_TID\<rparr>)
           (put_list r (?q\<lparr>head_tid := NULL_TID\<rparr>) s)"
  let ?s = "upd_tcb x (\<lambda>c. c\<lparr>next_tid := NULL_TID\<rparr>) (upd_tcb x (\<lambda>c. c\<lparr>prev_tid := NULL_TID\<rparr>) ?s1)"
  have d: "dll (tcb_table s) ?q [x]"
    using reprD(1) [OF assms(1,2)] assms(3) by simp
  then have f: "head_tid ?q = x" "tail_tid ?q = x" "in_table x" "x \<noteq> NULL_TID"
    "prev_tid (tcb_table s x) = NULL_TID" "next_tid (tcb_table s x) = NULL_TID"
    by (auto simp: dll_def)
  have "list_remove_from_end r b s = Ret (Some x) ?s"
    using assms(2) by (cases b) (simp_all add: list_remove_from_end_def kexec f)
  moreover have "repr ?s (Q(r := []))"
    by (rule repr_shrink [OF assms(1,2), where t = x])
      (use assms(2,3) d f in \<open>simp_all add: dll_def same_links_def\<close>)
  ultimately show ?thesis using assms(2) by simp
qed

lemma list_remove_tail:
  assumes "repr s Q" and "queue_ref r" and "Q r = xs @ [y, x]"
  shows "\<exists>s'. list_remove_from_end r True s = Ret (Some x) s' \<and> repr s' (Q(r := xs @ [y])) \<and>
           strip s' = strip s"
proof -
  let ?q = "list_at r s"
  let ?s = "upd_tcb x (\<lambda>c. c\<lparr>next_tid := NULL_TID\<rparr>) (upd_tcb x (\<lambda>c. c\<lparr>prev_tid := NULL_TID\<rparr>)
    (upd_tcb y (\<lambda>c. c\<lparr>next_tid := NULL_TID\<rparr>) (put_list r (?q\<lparr>tail_tid := y\<rparr>) s)))"
  have d: "dll (tcb_table s) ?q (xs @ [y, x])"
    using reprD(1) [OF assms(1,2)] assms(3) by simp
  then have f: "tail_tid ?q = x" "in_table x" "x \<noteq> NULL_TID" "in_table y" "y \<noteq> NULL_TID"
    "prev_tid (tcb_table s x) = y" "x \<noteq> y" "y \<noteq> x" "x \<notin> set xs" "head_tid ?q \<noteq> NULL_TID"
    by (auto simp: dll_def seg_append dest: head_or_neq)
  have "list_remove_from_end r True s = Ret (Some x) ?s"
    using assms(2) by (simp add: list_remove_from_end_def kexec f)
  moreover have "repr ?s (Q(r := xs @ [y]))"
    by (rule repr_shrink [OF assms(1,2), where t = x])
      (use assms(2,3) d f in \<open>simp_all add: dll_def same_links_def seg_append insert_commute\<close>)
  ultimately show ?thesis using assms(2) by simp
qed

lemma list_remove_head:
  assumes "repr s Q" and "queue_ref r" and "Q r = x # y # ys"
  shows "\<exists>s'. list_remove_from_end r False s = Ret (Some x) s' \<and> repr s' (Q(r := y # ys)) \<and>
           strip s' = strip s"
proof -
  let ?q = "list_at r s"
  let ?s = "upd_tcb x (\<lambda>c. c\<lparr>next_tid := NULL_TID\<rparr>) (upd_tcb x (\<lambda>c. c\<lparr>prev_tid := NULL_TID\<rparr>)
    (upd_tcb y (\<lambda>c. c\<lparr>prev_tid := NULL_TID\<rparr>) (put_list r (?q\<lparr>head_tid := y\<rparr>) s)))"
  have d: "dll (tcb_table s) ?q (x # y # ys)"
    using reprD(1) [OF assms(1,2)] assms(3) by simp
  then have f: "head_tid ?q = x" "in_table x" "x \<noteq> NULL_TID" "in_table y" "y \<noteq> NULL_TID"
    "next_tid (tcb_table s x) = y" "x \<noteq> y" "y \<noteq> x" "x \<notin> set ys" "tail_tid ?q \<noteq> NULL_TID"
    by (auto simp: dll_def dest: last_or_neq)
  have "list_remove_from_end r False s = Ret (Some x) ?s"
    using assms(2) by (simp add: list_remove_from_end_def kexec f)
  moreover have "repr ?s (Q(r := y # ys))"
    by (rule repr_shrink [OF assms(1,2), where t = x])
      (use assms(2,3) d f in \<open>simp_all add: dll_def same_links_def\<close>)
  ultimately show ?thesis using assms(2) by simp
qed

lemma list_remove_from_end_tail:
  assumes "repr s Q" and "queue_ref r" and "Q r = xs @ [x]"
  shows "\<exists>s'. list_remove_from_end r True s = Ret (Some x) s' \<and> repr s' (Q(r := xs)) \<and>
           strip s' = strip s"
  using assms list_remove_last [OF assms(1,2)] list_remove_tail [OF assms(1,2)]
  by (cases xs rule: rev_cases) simp_all

lemma list_remove_from_end_head:
  assumes "repr s Q" and "queue_ref r" and "Q r = x # xs"
  shows "\<exists>s'. list_remove_from_end r False s = Ret (Some x) s' \<and> repr s' (Q(r := xs)) \<and>
           strip s' = strip s"
  using assms list_remove_last [OF assms(1,2)] list_remove_head [OF assms(1,2)]
  by (cases xs) simp_all

lemma dll_remove:
  assumes "dll tb q (xs @ t # ys)"
    and P: "\<And>u. u \<noteq> t \<Longrightarrow> prev_tid (tb' u) =
      (if ys \<noteq> [] \<and> u = hd ys then last_or xs NULL_TID else prev_tid (tb u))"
    and N: "\<And>u. u \<noteq> t \<Longrightarrow> next_tid (tb' u) =
      (if xs \<noteq> [] \<and> u = last xs then head_or ys NULL_TID else next_tid (tb u))"
    and "head_tid q' = head_or (xs @ ys) NULL_TID" "tail_tid q' = last_or (xs @ ys) NULL_TID"
  shows "dll tb' q' (xs @ ys)"
proof -
  have dist: "distinct (xs @ t # ys)" and s: "seg tb NULL_TID xs t" "seg tb t ys NULL_TID"
    using assms(1) by (simp_all add: dll_def seg_append)
  have "seg tb' NULL_TID xs (head_or ys NULL_TID)"
  proof (cases xs rule: rev_cases)
    case (snoc ws a)
    have "\<forall>u\<in>set ws. same_links tb tb' u"
    proof
      fix u assume "u \<in> set ws"
      then have "u \<noteq> t" "u \<noteq> a" "ys \<noteq> [] \<Longrightarrow> u \<noteq> hd ys" using dist snoc by auto
      then show "same_links tb tb' u" using P [of u] N [of u] snoc by (auto simp: same_links_def)
    qed
    with s(1) snoc dist P [of a] N [of a] show ?thesis
      by (auto simp: seg_append seg_cong)
  qed simp
  moreover have "seg tb' (last_or xs NULL_TID) ys NULL_TID"
  proof (cases ys)
    case (Cons b zs)
    have "\<forall>u\<in>set zs. same_links tb tb' u"
    proof
      fix u assume "u \<in> set zs"
      then have "u \<noteq> t" "u \<noteq> b" "xs \<noteq> [] \<Longrightarrow> u \<noteq> last xs"
        using dist Cons by (auto, metis IntI empty_iff last_in_set)
      then show "same_links tb tb' u" using P [of u] N [of u] Cons by (auto simp: same_links_def)
    qed
    with s(2) Cons dist P [of b] N [of b] show ?thesis
      by (auto simp: seg_cong)
  qed simp
  ultimately show ?thesis
    using assms(1,4,5) by (auto simp: dll_def seg_append)
qed


lemma list_remove_repr:
  assumes "repr s Q" and "queue_ref r" and "Q r = xs @ t # ys"
  shows "\<exists>s'. list_remove r t s = Ret () s' \<and> repr s' (Q(r := xs @ ys)) \<and> strip s' = strip s"
proof -
  let ?q = "list_at r s" and ?p = "last_or xs NULL_TID" and ?n = "head_or ys NULL_TID"
  let ?s1 = "if ys = [] then s else upd_tcb (hd ys) (\<lambda>c. c\<lparr>prev_tid := ?p\<rparr>) s"
  let ?s2 = "if xs = [] then ?s1 else upd_tcb (last xs) (\<lambda>c. c\<lparr>next_tid := ?n\<rparr>) ?s1"
  let ?s3 = "if xs = [] then put_list r (?q\<lparr>head_tid := ?n\<rparr>) ?s2 else ?s2"
  let ?s4 = "if ys = [] then put_list r ((list_at r ?s3)\<lparr>tail_tid := ?p\<rparr>) ?s3 else ?s3"
  let ?s = "upd_tcb t (\<lambda>c. c\<lparr>next_tid := NULL_TID\<rparr>) (upd_tcb t (\<lambda>c. c\<lparr>prev_tid := NULL_TID\<rparr>) ?s4)"
  have d: "dll (tcb_table s) ?q (xs @ t # ys)"
    using reprD(1) [OF assms(1,2)] assms(3) by simp
  then have f: "prev_tid (tcb_table s t) = ?p" "next_tid (tcb_table s t) = ?n" "in_table t"
    "t \<noteq> NULL_TID" "t \<notin> set xs" "t \<notin> set ys" "head_tid ?q = head_or xs t" "tail_tid ?q = last_or ys t"
    by (auto simp: dll_def seg_append)
  have g: "xs \<noteq> [] \<Longrightarrow> is_thread (last xs) \<and> last xs \<noteq> t \<and> t \<noteq> last xs \<and> hd xs \<noteq> t"
     "ys \<noteq> [] \<Longrightarrow> is_thread (hd ys) \<and> hd ys \<noteq> t \<and> t \<noteq> hd ys \<and> last ys \<noteq> t"
    using d by (auto simp: dll_def dest: last_in_set hd_in_set)
  have ex: "list_remove r t s = Ret () ?s"
    using assms(2) f g
    by (cases "xs = []"; cases "ys = []")
      (simp_all add: list_remove_def kexec get_tid_def head_or_def last_or_def is_thread_def)
  obtain s' where s': "s' = ?s" by blast
  have P: "prev_tid (tcb_table s' u) = (if ys \<noteq> [] \<and> u = hd ys then ?p else prev_tid (tcb_table s u))"
    and N: "next_tid (tcb_table s' u) = (if xs \<noteq> [] \<and> u = last xs then ?n else next_tid (tcb_table s u))"
    if "u \<noteq> t" for u
    unfolding s' using that assms(2) by simp_all
  have h: "head_tid (list_at r s') = head_or (xs @ ys) NULL_TID"
    "tail_tid (list_at r s') = last_or (xs @ ys) NULL_TID"
    unfolding s' using assms(2) f by (simp_all add: head_or_def last_or_def)
  have l: "list_at r' s' = list_at r' s" if "queue_ref r'" "r' \<noteq> r" for r'
    unfolding s' using that assms(2) by simp
  have e: "prev_tid (tcb_table s' t) = NULL_TID" "next_tid (tcb_table s' t) = NULL_TID" "strip s' = strip s"
    unfolding s' by simp_all
  have "repr s' (Q(r := xs @ ys))"
  proof (rule repr_shrink [OF assms(1,2) _ dll_remove [OF d P N h] _ l e(1,2)])
    show "same_links (tcb_table s) (tcb_table s') u" if "u \<notin> set (Q r)" for u
      using that assms(3) P [of u] N [of u] by (auto simp: same_links_def)
  qed (use assms(3) in simp_all)
  then show ?thesis using ex e(3) s' by blast
qed

lemma unlinked_tcb:
  "prev_tid c = NULL_TID \<Longrightarrow> next_tid c = NULL_TID \<Longrightarrow>
     c\<lparr>prev_tid := NULL_TID, next_tid := NULL_TID\<rparr> = c" for c :: tcb
  by (cases c) simp

lemma list_remove_absent:
  assumes "repr s Q" and "queue_ref r" and "is_thread t" and "t \<notin> members Q"
  shows "list_remove r t s = Ret () s"
proof -
  have d: "dll (tcb_table s) (list_at r s) (Q r)" and n: "t \<notin> set (Q r)"
    using reprD(1) [OF assms(1,2)] not_membersD [OF assms(4)] by simp_all
  have l: "prev_tid (tcb_table s t) = NULL_TID" "next_tid (tcb_table s t) = NULL_TID"
    using reprD(4,5) [OF assms(1) _ assms(4)] assms(3) by auto
  have "head_tid (list_at r s) \<noteq> t" "tail_tid (list_at r s) \<noteq> t"
    using d n assms(3) by (auto simp: dll_def head_or_def last_or_def split: if_splits)
  moreover have "upd_tcb t (\<lambda>c. c\<lparr>next_tid := NULL_TID\<rparr>) (upd_tcb t (\<lambda>c. c\<lparr>prev_tid := NULL_TID\<rparr>) s) = s"
    using l by (simp add: upd_tcb_def unlinked_tcb)
  ultimately show ?thesis
    using l assms(2,3) by (auto simp: list_remove_def kexec get_tid_def)
qed
section \<open>The queue interface\<close>

text \<open>
  What the rest of the kernel relies on: \<open>rep s Q\<close> relates a state to its queues and
  \<open>rest s\<close> is what the queue operations leave alone.
\<close>

definition Qdel :: "tid \<Rightarrow> queues \<Rightarrow> queues" where
  "Qdel t Q = (\<lambda>r. removeAll t (Q r))"

lemma members_Qdel [simp]: "members (Qdel t Q) = members Q - {t}"
  by (auto simp: members_def Qdel_def)

lemma members_add [simp]: "members (Q(r := t # Q r)) = insert t (members Q)"
  by (fastforce simp: members_def split: if_splits)

lemma Qdel_id [simp]: "t \<notin> members Q \<Longrightarrow> Qdel t Q = Q"
  by (auto simp: members_def Qdel_def fun_eq_iff)

lemma Qdel_apply [simp]: "t \<notin> members Q \<Longrightarrow> Qdel t (Q(r := t # Q r)) = Q"
  by (auto simp: members_def Qdel_def fun_eq_iff)

primrec kmapM :: "('a \<Rightarrow> ('s, 'b) kmon) \<Rightarrow> 'a list \<Rightarrow> ('s, 'b list) kmon" where
  "kmapM f [] = kret []"
| "kmapM f (x # xs) = kbind (f x) (\<lambda>y. kbind (kmapM f xs) (\<lambda>ys. kret (y # ys)))"

locale thread_queue =
  fixes enq :: "list_ref \<Rightarrow> tid \<Rightarrow> unit kernel"
    and deq :: "list_ref \<Rightarrow> tid option kernel"
    and del :: "list_ref \<Rightarrow> tid \<Rightarrow> unit kernel"
    and rep :: "kstate \<Rightarrow> queues \<Rightarrow> bool"
    and rest :: "kstate \<Rightarrow> kstate"
  assumes enq: "rep s Q \<Longrightarrow> queue_ref r \<Longrightarrow> is_thread t \<Longrightarrow> t \<notin> members Q \<Longrightarrow>
      \<exists>s'. enq r t s = Ret () s' \<and> rep s' (Q(r := t # Q r)) \<and> rest s' = rest s"
    and deq_empty: "rep s Q \<Longrightarrow> queue_ref r \<Longrightarrow> Q r = [] \<Longrightarrow> deq r s = Ret None s"
    and deq: "rep s Q \<Longrightarrow> queue_ref r \<Longrightarrow> Q r = xs @ [t] \<Longrightarrow>
      \<exists>s'. deq r s = Ret (Some t) s' \<and> rep s' (Q(r := xs)) \<and> rest s' = rest s"
    and del: "rep s Q \<Longrightarrow> queue_ref r \<Longrightarrow> t \<in> set (Q r) \<Longrightarrow>
      \<exists>s'. del r t s = Ret () s' \<and> rep s' (Qdel t Q) \<and> rest s' = rest s"
    and del_absent: "rep s Q \<Longrightarrow> queue_ref r \<Longrightarrow> is_thread t \<Longrightarrow> t \<notin> members Q \<Longrightarrow>
      del r t s = Ret () s"
begin

lemma enq_all:
  assumes "rep s Q" and "queue_ref r" and "\<forall>t\<in>set ts. is_thread t" and "distinct ts"
    and "set ts \<inter> members Q = {}"
  shows "\<exists>s'. kseq (map (enq r) ts) s = Ret () s' \<and> rep s' (Q(r := rev ts @ Q r)) \<and>
           rest s' = rest s"
  using assms
proof (induction ts arbitrary: s Q)
  case Nil
  then show ?case by (simp add: kexec)
next
  case (Cons t ts)
  then obtain s1 where s1: "enq r t s = Ret () s1" "rep s1 (Q(r := t # Q r))" "rest s1 = rest s"
    using enq [of s Q r t] by auto
  have "set ts \<inter> members (Q(r := t # Q r)) = {}"
    using Cons.prems(4,5) by (simp del: fun_upd_apply)
  then obtain s2 where "kseq (map (enq r) ts) s1 = Ret () s2"
      "rep s2 (Q(r := rev ts @ t # Q r))" "rest s2 = rest s1"
    using Cons.IH [OF s1(2)] Cons.prems(2-4) by (auto simp del: fun_upd_apply simp: fun_upd_same)
  with s1 show ?case by (simp add: kbind_def del: fun_upd_apply)
qed

lemma deq_all:
  assumes "rep s Q" and "queue_ref r" and "Q r = ys @ rev ts"
  shows "\<exists>s'. kmapM (\<lambda>_. deq r) ts s = Ret (map Some ts) s' \<and> rep s' (Q(r := ys)) \<and>
           rest s' = rest s"
  using assms
proof (induction ts arbitrary: s Q)
  case Nil
  then have "Q(r := ys) = Q" by auto
  with Nil show ?case by (simp add: kexec)
next
  case (Cons t ts)
  then obtain s1 where s1: "deq r s = Ret (Some t) s1" "rep s1 (Q(r := ys @ rev ts))"
      "rest s1 = rest s"
    using deq [of s Q r "ys @ rev ts" t] by auto
  then obtain s2 where "kmapM (\<lambda>_. deq r) ts s1 = Ret (map Some ts) s2"
      "rep s2 (Q(r := ys))" "rest s2 = rest s1"
    using Cons.IH [OF s1(2) Cons.prems(2)] by (metis fun_upd_same fun_upd_upd)
  with s1 show ?case by (simp add: kbind_def kret_def del: fun_upd_apply)
qed

text \<open>Threads leave a queue in the order in which they entered it.\<close>

lemma fifo:
  assumes "rep s Q" and "queue_ref r" and "Q r = []" and "\<forall>t\<in>set ts. is_thread t"
    and "distinct ts" and "set ts \<inter> members Q = {}"
  shows "\<exists>s'. kthen (kseq (map (enq r) ts)) (kmapM (\<lambda>_. deq r) ts) s = Ret (map Some ts) s' \<and>
           rep s' Q \<and> rest s' = rest s"
proof -
  obtain s1 where s1: "kseq (map (enq r) ts) s = Ret () s1" "rep s1 (Q(r := rev ts))"
      "rest s1 = rest s"
    using enq_all [OF assms(1,2,4-6)] assms(3) by auto
  have "(Q(r := rev ts))(r := []) = Q" using assms(3) by auto
  then show ?thesis
    using deq_all [OF s1(2) assms(2), of "[]" ts] s1 by (simp add: kexec)
qed

lemma del_any:
  assumes "rep s Q" and "queue_ref r" and "is_thread t" and "t \<in> members Q \<Longrightarrow> t \<in> set (Q r)"
  shows "\<exists>s'. del r t s = Ret () s' \<and> rep s' (Qdel t Q) \<and> rest s' = rest s"
proof (cases "t \<in> members Q")
  case True
  with assms del show ?thesis by blast
next
  case False
  with assms del_absent show ?thesis by simp
qed

end

lemma Qdel_repr:
  assumes "repr s Q" and "Q r = xs @ t # ys"
  shows "Qdel t Q = Q(r := xs @ ys)"
proof
  fix r'
  have "queue_ref r"
    using reprD(2) [OF assms(1), of r] assms(2) by auto
  then have "distinct (Q r)"
    using reprD(1) [OF assms(1)] by (simp add: dll_def)
  then show "Qdel t Q r' = (Q(r := xs @ ys)) r'"
    using assms(2) repr_unique [OF assms(1), of t r r']
    by (cases "r' = r") (auto simp: Qdel_def intro!: removeAll_id)
qed

interpretation kq: thread_queue list_enqueue list_dequeue list_remove repr strip
proof unfold_locales
  fix s Q r t
  assume a: "repr s Q" "queue_ref r"
  show "\<exists>s'. list_enqueue r t s = Ret () s' \<and> repr s' (Q(r := t # Q r)) \<and> strip s' = strip s"
    if "is_thread t" "t \<notin> members Q"
    using list_insert_at_end_repr [OF a that, of False] by (simp add: list_enqueue_def)
  show "list_dequeue r s = Ret None s" if "Q r = []"
    using list_remove_from_end_empty [OF a that] by (simp add: list_dequeue_def)
  show "\<exists>s'. list_dequeue r s = Ret (Some t) s' \<and> repr s' (Q(r := xs)) \<and> strip s' = strip s"
    if "Q r = xs @ [t]" for xs
    using list_remove_from_end_tail [OF a that] by (simp add: list_dequeue_def)
  show "\<exists>s'. list_remove r t s = Ret () s' \<and> repr s' (Qdel t Q) \<and> strip s' = strip s"
    if "t \<in> set (Q r)"
  proof -
    obtain xs ys where "Q r = xs @ t # ys" using \<open>t \<in> set (Q r)\<close> by (meson split_list)
    then show ?thesis using list_remove_repr [OF a] Qdel_repr [OF a(1)] by simp
  qed
  show "list_remove r t s = Ret () s" if "is_thread t" "t \<notin> members Q"
    using list_remove_absent [OF a that] .
qed

text \<open>The queues a state represents are determined by it.\<close>

lemma seg_functional:
  assumes "seg tb p xs NULL_TID" and "seg tb p ys NULL_TID" and "head_or xs NULL_TID = head_or ys NULL_TID"
    and "NULL_TID \<notin> set xs" and "NULL_TID \<notin> set ys"
  shows "xs = ys"
  using assms
proof (induction xs arbitrary: p ys)
  case Nil
  then show ?case by (cases ys) auto
next
  case (Cons x xs)
  then obtain zs where "ys = x # zs" by (cases ys) auto
  with Cons show ?case by auto
qed

lemma repr_functional:
  assumes "repr s Q" and "repr s Q'"
  shows "Q = Q'"
proof
  fix r
  show "Q r = Q' r"
  proof (cases "queue_ref r")
    case True
    then have "dll (tcb_table s) (list_at r s) (Q r)" "dll (tcb_table s) (list_at r s) (Q' r)"
      using assms by (auto simp: repr_def)
    then show ?thesis by (intro seg_functional) (auto simp: dll_def is_thread_def)
  next
    case False
    then show ?thesis using assms by (simp add: repr_def)
  qed
qed

end
