(* ===== verification/Kernel_Invariant.thy ===== *)
theory Kernel_Invariant
  imports Queue_Refinement
begin

text \<open>
  The invariant of the thread subsystem: a thread is on exactly the list its state asks for
  (\<open>loc\<close>), its priority indexes a run queue, and the threads in state \<open>RUNNING\<close> are the
  current threads of the processors. \<open>kinv_ex X s Q\<close> is the invariant with the threads in
  \<open>X\<close> taken out, detached from all lists and processors: what holds in the middle of an
  operation that moves a thread from one list to another.
\<close>

section \<open>Definition\<close>

definition loc :: "tcb \<Rightarrow> list_ref option" where
  "loc c = (case thread_state c of
       READY \<Rightarrow> Some (RunQueue (unat (priority c)))
     | PAUSED \<Rightarrow> Some PausedList
     | ZOMBIE \<Rightarrow> Some ZombieList
     | WAIT_FOR_RECV \<Rightarrow>
         if wait_tid c = NULL_TID then None else Some (SenderQueue (wait_tid c))
     | WAIT_FOR_SEND \<Rightarrow>
         if wait_tid c = NULL_TID then None else Some (ReceiverQueue (wait_tid c))
     | _ \<Rightarrow> None)"

definition on_cpu :: "kstate \<Rightarrow> tid \<Rightarrow> bool" where
  "on_cpu s t \<longleftrightarrow> (\<exists>p<num_processors s. running_thread (processors s p) = Some t)"

definition wf_thread :: "kstate \<Rightarrow> queues \<Rightarrow> tid \<Rightarrow> bool" where
  "wf_thread s Q t \<longleftrightarrow>
     (let c = tcb_table s t in
      unat (priority c) < NUM_PRIORITIES \<and> in_table (wait_tid c) \<and>
      (\<forall>r. t \<in> set (Q r) \<longleftrightarrow> loc c = Some r) \<and>
      (thread_state c = RUNNING \<longleftrightarrow> on_cpu s t))"

definition wf_cpus :: "kstate \<Rightarrow> bool" where
  "wf_cpus s \<longleftrightarrow> 0 < num_processors s \<and> num_processors s \<le> MAX_PROCESSORS \<and>
     (\<forall>t. on_cpu s t \<longrightarrow> is_thread t) \<and>
     (\<forall>p<num_processors s. \<forall>q<num_processors s. \<forall>t.
        running_thread (processors s p) = Some t \<longrightarrow>
        running_thread (processors s q) = Some t \<longrightarrow> p = q)"

definition kinv_ex :: "tid set \<Rightarrow> kstate \<Rightarrow> queues \<Rightarrow> bool" where
  "kinv_ex X s Q \<longleftrightarrow> repr s Q \<and> wf_cpus s \<and>
     (\<forall>t. is_thread t \<longrightarrow> t \<notin> X \<longrightarrow> wf_thread s Q t) \<and>
     (\<forall>t\<in>X. t \<notin> members Q \<and> \<not> on_cpu s t)"

abbreviation kinv :: "kstate \<Rightarrow> queues \<Rightarrow> bool" where
  "kinv \<equiv> kinv_ex {}"

lemma loc_cong:
  "thread_state c = thread_state d \<Longrightarrow> priority c = priority d \<Longrightarrow> wait_tid c = wait_tid d \<Longrightarrow>
     loc c = loc d"
  by (simp add: loc_def split: thread_state_t.split)

lemma loc_strip: "strip_tcb c = strip_tcb d \<Longrightarrow> loc c = loc d"
  by (rule loc_cong) (erule strip_tcb_eqD)+

lemma kinv_exD:
  assumes "kinv_ex X s Q"
  shows "repr s Q" "wf_cpus s"
    and "is_thread t \<Longrightarrow> t \<notin> X \<Longrightarrow> wf_thread s Q t"
    and "t \<in> X \<Longrightarrow> t \<notin> members Q" "t \<in> X \<Longrightarrow> \<not> on_cpu s t"
  using assms by (auto simp: kinv_ex_def)

lemma kinv_fields:
  assumes "kinv_ex X s Q" and "is_thread t" and "t \<notin> X"
  shows "unat (priority (tcb_table s t)) < NUM_PRIORITIES" "in_table (wait_tid (tcb_table s t))"
    and "t \<in> set (Q r) \<longleftrightarrow> loc (tcb_table s t) = Some r"
    and "thread_state (tcb_table s t) = RUNNING \<longleftrightarrow> on_cpu s t"
  using kinv_exD(3) [OF assms] by (auto simp: wf_thread_def Let_def)

text \<open>The thread on the current processor.\<close>

lemma kinv_current:
  assumes "kinv s Q" and "thread_get_current s = Some t"
  shows "on_cpu s t" "is_thread t" "thread_state (tcb_table s t) = RUNNING" "t \<notin> members Q"
proof -
  show oc: "on_cpu s t"
    using assms kinv_exD(2) [OF assms(1)]
    by (auto simp: on_cpu_def thread_get_current_def processor_get_current_def wf_cpus_def)
  then show t: "is_thread t" using kinv_exD(2) [OF assms(1)] by (simp add: wf_cpus_def)
  show run: "thread_state (tcb_table s t) = RUNNING" using kinv_fields(4) [OF assms(1) t] oc by simp
  show "t \<notin> members Q"
    using kinv_fields(3) [OF assms(1) t] run by (auto simp: members_def loc_def)
qed

section \<open>Moving a thread\<close>

text \<open>Links and list heads are not part of the invariant's view of a thread.\<close>

lemma on_cpu_strip: "strip s' = strip s \<Longrightarrow> on_cpu s' t = on_cpu s t"
  using strip_eqD(2,3) [of s' s] by (simp add: on_cpu_def)

lemma wf_cpus_strip: "strip s' = strip s \<Longrightarrow> wf_cpus s' = wf_cpus s"
  using strip_eqD(2,3) [of s' s] on_cpu_strip [of s' s] by (simp add: wf_cpus_def)

lemma wf_thread_strip:
  assumes "strip s' = strip s" and "\<And>r. t \<in> set (Q' r) \<longleftrightarrow> t \<in> set (Q r)"
  shows "wf_thread s' Q' t = wf_thread s Q t"
  using strip_eqD(1) [OF assms(1), of t] loc_strip [OF strip_eqD(1) [OF assms(1)], of t]
    strip_tcb_eqD(2-4) [OF strip_eqD(1) [OF assms(1)], of t]
  by (simp add: wf_thread_def Let_def on_cpu_strip [OF assms(1)] assms(2))

lemma kinv_detach:
  assumes "kinv_ex X s Q" and "repr s' (Qdel t Q)" and "strip s' = strip s" and "\<not> on_cpu s t"
  shows "kinv_ex (insert t X) s' (Qdel t Q)"
proof -
  have "wf_thread s' (Qdel t Q) u" if "is_thread u" "u \<notin> insert t X" for u
  proof -
    have "wf_thread s' (Qdel t Q) u = wf_thread s Q u"
      using that by (intro wf_thread_strip [OF assms(3)]) (auto simp: Qdel_def)
    then show ?thesis using kinv_exD(3) [OF assms(1), of u] that by simp
  qed
  then show ?thesis
    using kinv_exD(2,4,5) [OF assms(1)] assms
    by (auto simp: kinv_ex_def wf_cpus_strip [OF assms(3)] on_cpu_strip [OF assms(3)])
qed

lemma kinv_attach:
  assumes "kinv_ex X s Q" and "t \<in> X" and "is_thread t"
    and "repr s' (Q(r := t # Q r))" and "strip s' = strip s"
    and "loc (tcb_table s t) = Some r"
    and "unat (priority (tcb_table s t)) < NUM_PRIORITIES" "in_table (wait_tid (tcb_table s t))"
  shows "kinv_ex (X - {t}) s' (Q(r := t # Q r))"
proof -
  have nm: "t \<notin> members Q" "\<not> on_cpu s t" using kinv_exD(4,5) [OF assms(1,2)] .
  have "wf_thread s' (Q(r := t # Q r)) u" if "is_thread u" "u \<notin> X - {t}" for u
  proof (cases "u = t")
    case True
    have "wf_thread s (Q(r := t # Q r)) t"
      using assms(6-8) nm not_membersD [OF nm(1)]
      by (auto simp: wf_thread_def Let_def loc_def split: thread_state_t.splits)
    then show ?thesis
      unfolding True by (subst wf_thread_strip [OF assms(5) refl])
  next
    case False
    then have "wf_thread s' (Q(r := t # Q r)) u = wf_thread s Q u"
      by (intro wf_thread_strip [OF assms(5)]) auto
    then show ?thesis using kinv_exD(3) [OF assms(1), of u] that False by simp
  qed
  then show ?thesis
    using kinv_exD(2,4,5) [OF assms(1)] assms(4,5)
    by (auto simp: kinv_ex_def wf_cpus_strip [OF assms(5)] on_cpu_strip [OF assms(5)]
        simp del: fun_upd_apply)
qed

text \<open>A thread whose state asks for no list is reattached as it is.\<close>

lemma kinv_attach_none:
  assumes "kinv_ex X s Q" and "loc (tcb_table s t) = None"
    and "thread_state (tcb_table s t) \<noteq> RUNNING"
    and "unat (priority (tcb_table s t)) < NUM_PRIORITIES" "in_table (wait_tid (tcb_table s t))"
  shows "kinv_ex (X - {t}) s Q"
proof (cases "t \<in> X")
  case True
  then have "wf_thread s Q t"
    using kinv_exD(4,5) [OF assms(1) True] assms(2-5) not_membersD [of t Q]
    by (simp add: wf_thread_def Let_def)
  then show ?thesis using assms(1) by (auto simp: kinv_ex_def)
qed (use assms(1) in simp)

section \<open>Updating control blocks\<close>

text \<open>\<open>keeps_links u\<close>: the assignment leaves the fields alone that only lists use.\<close>

definition keeps_links :: "(tcb \<Rightarrow> tcb) \<Rightarrow> bool" where
  "keeps_links u \<longleftrightarrow> (\<forall>c. prev_tid (u c) = prev_tid c \<and> next_tid (u c) = next_tid c \<and>
     sender_wait_queue (u c) = sender_wait_queue c \<and>
     receiver_wait_queue (u c) = receiver_wait_queue c)"

lemma list_at_upd_keeps:
  "keeps_links u \<Longrightarrow> list_at r (upd_tcb t u s) = list_at r s"
  by (cases r) (simp_all add: keeps_links_def)

lemma repr_upd_keeps:
  assumes "repr s Q" and "keeps_links u"
  shows "repr (upd_tcb t u s) Q"
proof -
  have l: "\<forall>x. same_links (tcb_table s) (tcb_table (upd_tcb t u s)) x"
    using assms(2) by (simp add: same_links_def keeps_links_def)
  then have "dll (tcb_table (upd_tcb t u s)) q xs = dll (tcb_table s) q xs" for q xs
    by (intro dll_cong) simp
  with l show ?thesis
    using assms(1) unfolding repr_def list_at_upd_keeps [OF assms(2)] same_links_def by simp
qed

lemma on_cpu_upd_tcb [simp]: "on_cpu (upd_tcb t u s) v = on_cpu s v"
  by (simp add: on_cpu_def)

lemma wf_cpus_upd_tcb [simp]: "wf_cpus (upd_tcb t u s) = wf_cpus s"
  by (simp add: wf_cpus_def)

lemma wf_thread_upd_other:
  "v \<noteq> t \<Longrightarrow> wf_thread (upd_tcb t u s) Q v = wf_thread s Q v"
  by (simp add: wf_thread_def)

text \<open>A detached thread can be changed freely.\<close>

lemma kinv_upd_detached:
  assumes "kinv_ex X s Q" and "t \<in> X" and "keeps_links u"
  shows "kinv_ex X (upd_tcb t u s) Q"
proof -
  have "wf_thread (upd_tcb t u s) Q v" if "is_thread v" "v \<notin> X" for v
    using that assms(2) kinv_exD(3) [OF assms(1) that] wf_thread_upd_other [of v t] by auto
  then show ?thesis
    using assms by (simp add: kinv_ex_def repr_upd_keeps)
qed

text \<open>Of an attached one the fields the invariant does not read.\<close>

definition keeps_sched :: "(tcb \<Rightarrow> tcb) \<Rightarrow> bool" where
  "keeps_sched u \<longleftrightarrow> keeps_links u \<and> (\<forall>c. thread_state (u c) = thread_state c \<and>
     priority (u c) = priority c \<and> wait_tid (u c) = wait_tid c)"

lemma wf_thread_upd_keeps:
  "keeps_sched u \<Longrightarrow> wf_thread (upd_tcb t u s) Q v = wf_thread s Q v"
  using loc_cong [of "u (tcb_table s t)" "tcb_table s t"]
  by (cases "v = t") (simp_all add: wf_thread_def Let_def keeps_sched_def)

lemma kinv_upd_keeps:
  "kinv_ex X s Q \<Longrightarrow> keeps_sched u \<Longrightarrow> kinv_ex X (upd_tcb t u s) Q"
  unfolding kinv_ex_def by (auto simp: repr_upd_keeps wf_thread_upd_keeps keeps_sched_def)

text \<open>\<open>strip\<close> commutes with an assignment to fields that are not links.\<close>

lemma strip_upd_keeps:
  assumes "\<And>c. strip_tcb (u c) = u (strip_tcb c)"
  shows "strip (upd_tcb t u s) = upd_tcb t u (strip s)"
  using assms by (simp add: strip_def upd_tcb_def fun_eq_iff)

lemma thread_state_strip [simp]:
  "thread_state (tcb_table (strip s) t) = thread_state (tcb_table s t)"
  "priority (tcb_table (strip s) t) = priority (tcb_table s t)"
  "wait_tid (tcb_table (strip s) t) = wait_tid (tcb_table s t)"
  "user_exec_state (tcb_table (strip s) t) = user_exec_state (tcb_table s t)"
  "root_pmap (tcb_table (strip s) t) = root_pmap (tcb_table s t)"
  "wait_for_kernel_msg (tcb_table (strip s) t) = wait_for_kernel_msg (tcb_table s t)"
  "num_processors (strip s) = num_processors s" "processors (strip s) = processors s"
  by (simp_all add: strip_def strip_tcb_def)

end
