(* ===== verification/Wait_Queue.thy ===== *)
theory Wait_Queue
  imports Kernel_Invariant
begin

text \<open>
  The wait queues of message passing (\<^verbatim>\<open>kernel/message.c\<close>): a sender that blocks is put on
  the recipient's \<^verbatim>\<open>sender_wait_queue\<close>, a recipient that blocks on the sender's
  \<^verbatim>\<open>receiver_wait_queue\<close>. Attaching a detached thread and detaching an attached one keep the
  kernel invariant.
\<close>

text \<open>\<^verbatim>\<open>get_tid\<close> of a pointer that may be \<^verbatim>\<open>NULL\<close>: its parameter is declared non-null.\<close>

definition get_tid_ptr :: "tid option \<Rightarrow> tid kernel" where
  [kexec]: "get_tid_ptr p = kbind (deref p) (\<lambda>t. kret (get_tid t))"

definition attach_sender_wait_queue :: "tid \<Rightarrow> tid option \<Rightarrow> unit kernel" where
  "attach_sender_wait_queue sender recipient =
     kseq [case recipient of None \<Rightarrow> kskip | Some r \<Rightarrow> list_enqueue (SenderQueue r) sender,
           wr sender (\<lambda>c. c\<lparr>thread_state := WAIT_FOR_RECV\<rparr>),
           kbind (get_tid_ptr recipient) (\<lambda>w. wr sender (\<lambda>c. c\<lparr>wait_tid := w\<rparr>))]"

definition attach_receiver_wait_queue :: "tid \<Rightarrow> tid option \<Rightarrow> unit kernel" where
  "attach_receiver_wait_queue recipient sender =
     kseq [case sender of None \<Rightarrow> kskip | Some t \<Rightarrow> list_enqueue (ReceiverQueue t) recipient,
           wr recipient (\<lambda>c. c\<lparr>thread_state := WAIT_FOR_SEND\<rparr>),
           kbind (get_tid_ptr sender) (\<lambda>w. wr recipient (\<lambda>c. c\<lparr>wait_tid := w\<rparr>))]"

definition detach_sender_wait_queue :: "tid \<Rightarrow> unit kernel" where
  "detach_sender_wait_queue sender =
     kbind (rd sender wait_tid) (\<lambda>w.
       let recipient = get_tcb w in
       kseq [wr sender (\<lambda>c. c\<lparr>wait_tid := NULL_TID\<rparr>),
             case recipient of None \<Rightarrow> kskip | Some r \<Rightarrow> list_remove (SenderQueue r) sender])"

definition detach_receiver_wait_queue :: "tid \<Rightarrow> unit kernel" where
  "detach_receiver_wait_queue recipient =
     kbind (rd recipient wait_tid) (\<lambda>w.
       let sender = get_tcb w in
       kseq [wr recipient (\<lambda>c. c\<lparr>wait_tid := NULL_TID\<rparr>),
             case sender of None \<Rightarrow> kskip | Some t \<Rightarrow> list_remove (ReceiverQueue t) recipient])"

section \<open>Fields that are not links\<close>

lemma keeps_links_fields [simp]:
  "keeps_links (wait_tid_update f)" "keeps_links (thread_state_update g)"
  "keeps_links (priority_update h)" "keeps_links (user_exec_state_update k)"
  "keeps_links (wait_for_kernel_msg_update m)"
  by (simp_all add: keeps_links_def)

lemma strip_tcb_fields [simp]:
  "strip_tcb (wait_tid_update f c) = wait_tid_update f (strip_tcb c)"
  "strip_tcb (thread_state_update g c) = thread_state_update g (strip_tcb c)"
  "strip_tcb (priority_update h c) = priority_update h (strip_tcb c)"
  "strip_tcb (user_exec_state_update k c) = user_exec_state_update k (strip_tcb c)"
  "strip_tcb (wait_for_kernel_msg_update m c) = wait_for_kernel_msg_update m (strip_tcb c)"
  by (simp_all add: strip_tcb_def)

lemma strip_upd_fields [simp]:
  "strip (upd_tcb t (wait_tid_update f) s) = upd_tcb t (wait_tid_update f) (strip s)"
  "strip (upd_tcb t (thread_state_update g) s) = upd_tcb t (thread_state_update g) (strip s)"
  "strip (upd_tcb t (priority_update h) s) = upd_tcb t (priority_update h) (strip s)"
  "strip (upd_tcb t (user_exec_state_update k) s) = upd_tcb t (user_exec_state_update k) (strip s)"
  "strip (upd_tcb t (wait_for_kernel_msg_update m) s) =
     upd_tcb t (wait_for_kernel_msg_update m) (strip s)"
  by (rule strip_upd_keeps; simp)+

section \<open>Detaching\<close>

text \<open>
  Both queues have the same shape, so the lemmas are stated for a wait queue \<open>wq\<close> that is
  either of the two constructors of \<open>list_ref\<close>.
\<close>

definition detach_from :: "(tid \<Rightarrow> list_ref) \<Rightarrow> tid \<Rightarrow> unit kernel" where
  "detach_from wq t =
     kbind (rd t wait_tid) (\<lambda>w.
       let p = get_tcb w in
       kseq [wr t (\<lambda>c. c\<lparr>wait_tid := NULL_TID\<rparr>),
             case p of None \<Rightarrow> kskip | Some r \<Rightarrow> list_remove (wq r) t])"

lemma detach_from_eqs:
  "detach_sender_wait_queue = detach_from SenderQueue"
  "detach_receiver_wait_queue = detach_from ReceiverQueue"
  by (rule ext, simp add: detach_sender_wait_queue_def detach_receiver_wait_queue_def
      detach_from_def)+

lemma detach_from_repr:
  assumes "repr s Q" and "is_thread t" and "in_table (wait_tid (tcb_table s t))"
    and "\<And>w. w = wait_tid (tcb_table s t) \<Longrightarrow> w \<noteq> NULL_TID \<Longrightarrow> queue_ref (wq w)"
    and "t \<in> members Q \<Longrightarrow> wait_tid (tcb_table s t) \<noteq> NULL_TID \<and>
      t \<in> set (Q (wq (wait_tid (tcb_table s t))))"
  shows "\<exists>s'. detach_from wq t s = Ret () s' \<and> repr s' (Qdel t Q) \<and>
           strip s' = upd_tcb t (\<lambda>c. c\<lparr>wait_tid := NULL_TID\<rparr>) (strip s)"
proof -
  let ?w = "wait_tid (tcb_table s t)"
  let ?s1 = "upd_tcb t (\<lambda>c. c\<lparr>wait_tid := NULL_TID\<rparr>) s"
  have it: "in_table t" using assms(2) by auto
  have r1: "repr ?s1 Q"
    by (rule repr_upd_keeps [OF assms(1)]) simp
  show ?thesis
  proof (cases "?w = NULL_TID")
    case True
    with assms(5) have "t \<notin> members Q" by auto
    with True it r1 show ?thesis
      by (simp add: detach_from_def kexec)
  next
    case False
    with assms(4,5) obtain s' where "list_remove (wq ?w) t ?s1 = Ret () s'"
        "repr s' (Qdel t Q)" "strip s' = strip ?s1"
      using kq.del_any [OF r1 _ assms(2), of "wq ?w"] by auto
    with False it show ?thesis
      by (simp add: detach_from_def kexec)
  qed
qed

section \<open>Attaching\<close>

definition attach_to :: "(tid \<Rightarrow> list_ref) \<Rightarrow> thread_state_t \<Rightarrow> tid \<Rightarrow> tid option \<Rightarrow> unit kernel" where
  "attach_to wq st t p =
     kseq [case p of None \<Rightarrow> kskip | Some r \<Rightarrow> list_enqueue (wq r) t,
           wr t (\<lambda>c. c\<lparr>thread_state := st\<rparr>),
           kbind (get_tid_ptr p) (\<lambda>w. wr t (\<lambda>c. c\<lparr>wait_tid := w\<rparr>))]"

lemma attach_to_eqs:
  "attach_sender_wait_queue = attach_to SenderQueue WAIT_FOR_RECV"
  "attach_receiver_wait_queue = attach_to ReceiverQueue WAIT_FOR_SEND"
  by (rule ext, rule ext, simp add: attach_sender_wait_queue_def attach_receiver_wait_queue_def
      attach_to_def)+

lemma attach_to_null: "attach_to wq st t None s \<noteq> Ret a s'"
  by (simp add: attach_to_def kexec)

lemma attach_to_kinv:
  assumes "kinv_ex X s Q" and "t \<in> X" and "is_thread t" and "queue_ref (wq p)" and "in_table p"
    and "unat (priority (tcb_table s t)) < NUM_PRIORITIES"
    and "\<And>c. loc (c\<lparr>thread_state := st, wait_tid := p\<rparr>) = Some (wq p)"
  shows "\<exists>s'. attach_to wq st t (Some p) s = Ret () s' \<and>
           kinv_ex (X - {t}) s' (Q(wq p := t # Q (wq p))) \<and>
           strip s' = upd_tcb t (\<lambda>c. c\<lparr>thread_state := st, wait_tid := p\<rparr>) (strip s)"
proof -
  let ?Q = "Q(wq p := t # Q (wq p))"
  obtain s1 where s1: "list_enqueue (wq p) t s = Ret () s1" "repr s1 ?Q" "strip s1 = strip s"
    using kq.enq [OF kinv_exD(1) [OF assms(1)] assms(4,3) kinv_exD(4) [OF assms(1,2)]] by blast
  let ?u = "\<lambda>c. c\<lparr>thread_state := st, wait_tid := p\<rparr>"
  let ?s2 = "upd_tcb t (\<lambda>c. c\<lparr>wait_tid := p\<rparr>) (upd_tcb t (\<lambda>c. c\<lparr>thread_state := st\<rparr>) s1)"
  have u2: "?s2 = upd_tcb t ?u s1" by (simp add: upd_tcb_def)
  have sc: "strip (upd_tcb t ?u s0) = upd_tcb t ?u (strip s0)" for s0
    by (rule strip_upd_keeps) simp
  have kl: "keeps_links ?u" by (simp add: keeps_links_def)
  have str: "strip ?s2 = strip (upd_tcb t ?u s)"
    unfolding u2 sc s1(3) ..
  have "attach_to wq st t (Some p) s = Ret () ?s2"
    using assms(3,5) s1(1) by (auto simp: attach_to_def kexec get_tid_def)
  moreover have "kinv_ex (X - {t}) ?s2 ?Q"
  proof (rule kinv_attach [OF kinv_upd_detached [OF assms(1,2) kl] assms(2,3) _ str])
    show "repr ?s2 ?Q"
      unfolding u2 by (rule repr_upd_keeps [OF s1(2) kl])
  qed (use assms in \<open>simp_all del: fun_upd_apply add: fun_upd_same\<close>)
  ultimately show ?thesis
    using str sc by metis
qed

end
