(* ===== verification/Kernel_Mem.thy ===== *)
theory Kernel_Mem
  imports Kernel_State
begin

text \<open>
  Memory as the kernel sees it. A virtual address inside the temporary mapping window is
  translated through \<open>klower_mem_ptab\<close>, whose entries \<^verbatim>\<open>map_temp\<close> writes; every other address
  by the processor (\<open>mmu\<close>). Translation is always up to date: stale TLB entries are not
  modelled. On top of it stand \<^verbatim>\<open>memset\<close> and \<^verbatim>\<open>memcpy\<close> of \<^verbatim>\<open>kernel/mem.c\<close>.
\<close>

section \<open>Page table entries\<close>

text \<open>The bit-fields of \<^verbatim>\<open>pte_t\<close>, \<^verbatim>\<open>pde_t\<close> and \<^verbatim>\<open>large_pde_t\<close> (\<^verbatim>\<open>include/kernel/paging.h\<close>).\<close>

definition is_present :: bitfield where "is_present = (0, 1)"
definition is_read_write :: bitfield where "is_read_write = (1, 1)"
definition is_user :: bitfield where "is_user = (2, 1)"
definition pwt :: bitfield where "pwt = (3, 1)"
definition pcd :: bitfield where "pcd = (4, 1)"
definition accessed :: bitfield where "accessed = (5, 1)"
definition dirty :: bitfield where "dirty = (6, 1)"
definition pte_pat :: bitfield where "pte_pat = (7, 1)"
definition is_page_sized :: bitfield where "is_page_sized = (7, 1)"
definition pte_global :: bitfield where "pte_global = (8, 1)"
definition pte_available :: bitfield where "pte_available = (10, 2)"
definition entry_base :: bitfield where "entry_base = (12, 20)"
definition large_pat :: bitfield where "large_pat = (12, 1)"
definition base_upper :: bitfield where "base_upper = (13, 8)"
definition base_lower :: bitfield where "base_lower = (22, 10)"

lemmas fields = is_present_def is_read_write_def is_user_def pwt_def pcd_def accessed_def
  dirty_def pte_pat_def is_page_sized_def pte_global_def pte_available_def entry_base_def
  large_pat_def base_upper_def base_lower_def

definition PAGE_SIZE :: "32 word" where "PAGE_SIZE = 0x1000"
definition PAGE_OFFSET :: "addr \<Rightarrow> 32 word" where "PAGE_OFFSET a = a AND (PAGE_SIZE - 1)"
definition PDE_INDEX :: "addr \<Rightarrow> 32 word" where "PDE_INDEX a = drop_bit 22 a AND 0x3FF"
definition PTE_INDEX :: "addr \<Rightarrow> 32 word" where "PTE_INDEX a = drop_bit 12 a AND 0x3FF"
definition PBASE_TO_PADDR :: "32 word \<Rightarrow> paddr" where "PBASE_TO_PADDR f = push_bit 12 f"
definition PADDR_TO_PBASE :: "paddr \<Rightarrow> 32 word" where "PADDR_TO_PBASE a = drop_bit 12 a"
definition KERNEL_TEMP_START :: addr where "KERNEL_TEMP_START = 0xFF991000"
definition KERNEL_TEMP_END :: addr where "KERNEL_TEMP_END = 0xFFC00000"

section \<open>Translation and byte access\<close>

definition in_window :: "addr \<Rightarrow> bool" where
  "in_window a \<longleftrightarrow> KERNEL_TEMP_START \<le> a \<and> a < KERNEL_TEMP_END"

definition translate :: "kstate \<Rightarrow> addr \<Rightarrow> paddr option" where
  "translate s a =
     (if in_window a then
        let pte = klower_mem_ptab s (unat (PTE_INDEX a)) in
        if bf_on is_present pte
        then Some (PBASE_TO_PADDR (bf_get entry_base pte) + PAGE_OFFSET a) else None
      else mmu s (phys s) (cr3 s) a)"

definition set_phys :: "paddr \<Rightarrow> 8 word \<Rightarrow> kstate \<Rightarrow> kstate" where
  "set_phys p v s = s\<lparr>phys := (phys s)(p := v)\<rparr>"

definition ld8 :: "addr \<Rightarrow> 8 word kernel" where
  [kexec]: "ld8 a s = (case translate s a of None \<Rightarrow> Fault PageFault | Some p \<Rightarrow> Ret (phys s p) s)"

definition st8 :: "addr \<Rightarrow> 8 word \<Rightarrow> unit kernel" where
  [kexec]: "st8 a v s =
     (case translate s a of None \<Rightarrow> Fault PageFault | Some p \<Rightarrow> Ret () (set_phys p v s))"

text \<open>Little-endian 32-bit accesses, byte by byte.\<close>

definition word_of_bytes :: "8 word \<Rightarrow> 8 word \<Rightarrow> 8 word \<Rightarrow> 8 word \<Rightarrow> 32 word" where
  "word_of_bytes a b c d =
     ucast a OR push_bit 8 (ucast b) OR push_bit 16 (ucast c) OR push_bit 24 (ucast d)"

definition byte_of :: "nat \<Rightarrow> 32 word \<Rightarrow> 8 word" where
  "byte_of i w = ucast (drop_bit (8 * i) w)"

lemma word_of_byte_of: "word_of_bytes (byte_of 0 w) (byte_of 1 w) (byte_of 2 w) (byte_of 3 w) = w"
proof (rule bit_word_eqI)
  fix n assume "n < LENGTH(32)"
  then consider "n < 8" | "8 \<le> n" "n < 16" | "16 \<le> n" "n < 24" | "24 \<le> n" "n < 32"
    by fastforce
  then show "bit (word_of_bytes (byte_of 0 w) (byte_of 1 w) (byte_of 2 w) (byte_of 3 w)) n = bit w n"
    by cases (auto simp: word_of_bytes_def byte_of_def bit_simps dest: bit_imp_le_length)
qed

definition ld32 :: "addr \<Rightarrow> 32 word kernel" where
  [kexec]: "ld32 a = kbind (ld8 a) (\<lambda>b0. kbind (ld8 (a + 1)) (\<lambda>b1. kbind (ld8 (a + 2)) (\<lambda>b2.
     kbind (ld8 (a + 3)) (\<lambda>b3. kret (word_of_bytes b0 b1 b2 b3)))))"

definition st32 :: "addr \<Rightarrow> 32 word \<Rightarrow> unit kernel" where
  [kexec]: "st32 a v = kseq [st8 a (byte_of 0 v), st8 (a + 1) (byte_of 1 v),
     st8 (a + 2) (byte_of 2 v), st8 (a + 3) (byte_of 3 v)]"

section \<open>memset and memcpy\<close>

text \<open>\<^verbatim>\<open>rep stosb\<close> and \<^verbatim>\<open>rep stosl\<close>: \<open>n\<close> stores at increasing addresses.\<close>

primrec rep_stosb :: "addr \<Rightarrow> 8 word \<Rightarrow> nat \<Rightarrow> unit kernel" where
  "rep_stosb a v 0 = kskip"
| "rep_stosb a v (Suc n) = kthen (st8 a v) (rep_stosb (a + 1) v n)"

primrec rep_stosl :: "addr \<Rightarrow> 32 word \<Rightarrow> nat \<Rightarrow> unit kernel" where
  "rep_stosl a v 0 = kskip"
| "rep_stosl a v (Suc n) = kthen (st32 a v) (rep_stosl (a + 4) v n)"

text \<open>The loop that brings \<open>p\<close> to a 4-byte boundary, then goes on with what is left.\<close>

primrec align_then :: "nat \<Rightarrow> addr \<Rightarrow> (addr \<Rightarrow> nat \<Rightarrow> unit kernel) \<Rightarrow> unit kernel" where
  "align_then 0 p k = k p 0"
| "align_then (Suc len) p k =
     (if p mod 4 \<noteq> 0 then kthen (st8 p 0) (align_then len (p + 1) k) else k p (Suc len))"

definition memset :: "addr \<Rightarrow> int \<Rightarrow> 32 word \<Rightarrow> addr kernel" where
  "memset ptr value len =
     kthen
       (if (word_of_int value :: 8 word) \<noteq> 0 then rep_stosb ptr (word_of_int value) (unat len)
        else align_then (unat len) ptr (\<lambda>p len.
          kseq [kwhen (len \<noteq> 0) (rep_stosl p 0 (len div 4)),
                rep_stosb (p + of_nat (len - len mod 4)) 0 (len mod 4)]))
       (kret ptr)"

primrec copy_bytes :: "addr \<Rightarrow> addr \<Rightarrow> nat \<Rightarrow> unit kernel" where
  "copy_bytes d s 0 = kskip"
| "copy_bytes d s (Suc num) = kthen (kbind (ld8 s) (st8 d)) (copy_bytes (d + 1) (s + 1) num)"

definition memcpy :: "addr \<Rightarrow> addr \<Rightarrow> 32 word \<Rightarrow> addr kernel" where
  "memcpy dest src num = kthen (copy_bytes dest src (unat num)) (kret dest)"

subsection \<open>memset fills bytes\<close>

lemma kskip_kthen [simp]: "kthen kskip m = m" and kthen_kskip [simp]: "kthen m' kskip = m'"
  by (rule ext, simp add: kexec split: kres.split)+

lemma kthen_assoc: "kthen (kthen a b) c = kthen a (kthen b c)"
  by (simp add: kthen_def kbind_assoc)

lemma rep_stosb_add: "rep_stosb a v (m + n) = kthen (rep_stosb a v m) (rep_stosb (a + of_nat m) v n)"
  by (induction m arbitrary: a) (simp_all add: kthen_assoc ac_simps)

lemma st32_zero: "st32 a 0 = rep_stosb a 0 4"
  by (rule ext) (simp add: st32_def byte_of_def eval_nat_numeral kthen_def add.assoc)

lemma rep_stosl_zero: "rep_stosl a 0 n = rep_stosb a 0 (4 * n)"
proof (induction n arbitrary: a)
  case (Suc n)
  have "rep_stosb a 0 (4 * Suc n) = rep_stosb a 0 (4 + 4 * n)" by simp
  also have "\<dots> = kthen (st32 a 0) (rep_stosb (a + 4) 0 (4 * n))"
    unfolding rep_stosb_add by (simp add: st32_zero)
  finally show ?case using Suc by simp
qed simp

lemma align_then_fill:
  assumes "\<And>p n. k p n = rep_stosb p 0 n"
  shows "align_then len p k = rep_stosb p 0 len"
  by (induction len arbitrary: p) (simp_all add: assms)

lemma memset_fills:
  "memset ptr value len = kthen (rep_stosb ptr (word_of_int value) (unat len)) (kret ptr)"
proof (cases "(word_of_int value :: 8 word) = 0")
  case True
  have "kseq [kwhen (n \<noteq> 0) (rep_stosl p 0 (n div 4)),
           rep_stosb (p + of_nat (n - n mod 4)) 0 (n mod 4)] = rep_stosb p 0 n" for p n
  proof -
    have "rep_stosb p 0 n = rep_stosb p 0 (4 * (n div 4) + n mod 4)" by simp
    also have "\<dots> = kthen (rep_stosl p 0 (n div 4)) (rep_stosb (p + of_nat (n - n mod 4)) 0 (n mod 4))"
      unfolding rep_stosb_add by (simp add: rep_stosl_zero minus_mod_eq_mult_div)
    finally show ?thesis
      by (cases "n = 0") (simp_all add: kthen_def [symmetric])
  qed
  with True show ?thesis
    unfolding memset_def by (simp add: align_then_fill)
qed (simp add: memset_def)

end
