(* ===== verification/Paging.thy ===== *)
theory Paging
  imports Kernel_Mem
begin

text \<open>
  Paging (\<^verbatim>\<open>kernel/paging.c\<close>, \<^verbatim>\<open>include/kernel/paging.h\<close>): the temporary mapping window,
  access to page map entries by physical address, copying to and from physical memory and
  other address spaces. Without \<^verbatim>\<open>PAE\<close>, physical addresses have 32 bits.
\<close>

section \<open>Page map entries\<close>

definition CURRENT_ROOT_PMAP :: paddr where "CURRENT_ROOT_PMAP = - 1"
definition PAGE_BASE_MASK :: "32 word" where "PAGE_BASE_MASK = - PAGE_SIZE"
definition CR3_BASE_MASK :: "32 word" where "CR3_BASE_MASK = PAGE_BASE_MASK"
definition KERNEL_RECURSIVE_PDE :: "32 word" where "KERNEL_RECURSIVE_PDE = 1023"
definition KERNEL_VSTART :: addr where "KERNEL_VSTART = 0xFEC00000"

definition NDX_TO_VADDR :: "32 word \<Rightarrow> 32 word \<Rightarrow> 32 word \<Rightarrow> addr" where
  "NDX_TO_VADDR pde pte offset =
     push_bit 22 (pde AND 0x3FF) OR push_bit 12 (pte AND 0x3FF) OR push_bit 2 (offset AND 0x3FF)"

definition PTE_BASE :: "32 word \<Rightarrow> paddr" where
  "PTE_BASE pte = push_bit 12 (bf_get entry_base pte)"

definition get_root_page_map :: "kstate \<Rightarrow> paddr" where
  "get_root_page_map s = cr3 s AND CR3_BASE_MASK"

definition get_pde_frame_number :: "32 word \<Rightarrow> 32 word" where
  "get_pde_frame_number pde =
     (if bf_on is_page_sized pde
      then push_bit 10 (bf_get base_lower pde) OR push_bit 20 (bf_get base_upper pde)
      else bf_get entry_base pde)"

definition set_large_pde_base :: "32 word \<Rightarrow> 32 word \<Rightarrow> 32 word" where
  "set_large_pde_base large_pde pframe =
     bf_set base_upper (drop_bit 20 pframe AND 0xFF)
       (bf_set base_lower (drop_bit 10 pframe AND 0x3FF) large_pde)"

section \<open>The temporary window\<close>

definition temp_pte :: "paddr \<Rightarrow> 32 word" where
  "temp_pte paddr =
     bf_set is_present 1 (bf_set is_read_write 1 (bf_set entry_base (PADDR_TO_PBASE paddr) 0))"

definition set_temp_pte :: "nat \<Rightarrow> 32 word \<Rightarrow> kstate \<Rightarrow> kstate" where
  "set_temp_pte i v s = s\<lparr>klower_mem_ptab := (klower_mem_ptab s)(i := v)\<rparr>"

text \<open>
  The loops; \<open>pte\<close> is the index of the entry the pointer \<^verbatim>\<open>pte\<close> is at, \<open>i\<close> the loop
  counter, the last argument the iterations \<^verbatim>\<open>count\<close> still allows.
\<close>

primrec map_temp_loop :: "addr \<Rightarrow> paddr \<Rightarrow> nat \<Rightarrow> 32 word \<Rightarrow> nat \<Rightarrow> 32 word kernel" where
  "map_temp_loop addr paddr pte i 0 = kret i"
| "map_temp_loop addr paddr pte i (Suc n) =
     (if addr < KERNEL_TEMP_END
      then kthen (kmod (set_temp_pte pte (temp_pte paddr)))
             (map_temp_loop (addr + PAGE_SIZE) (paddr + PAGE_SIZE) (Suc pte) (i + 1) n)
      else kret i)"

definition map_temp :: "addr \<Rightarrow> paddr \<Rightarrow> 32 word \<Rightarrow> 32 word kernel" where
  "map_temp virt base count =
     (let addr = ALIGN_DOWN virt PAGE_SIZE; paddr = ALIGN_DOWN base PAGE_SIZE in
      if addr < KERNEL_TEMP_START then kret 0
      else map_temp_loop addr paddr (unat (PTE_INDEX addr)) 0 (unat count))"

primrec unmap_temp_loop :: "addr \<Rightarrow> nat \<Rightarrow> 32 word \<Rightarrow> nat \<Rightarrow> 32 word kernel" where
  "unmap_temp_loop addr pte i 0 = kret i"
| "unmap_temp_loop addr pte i (Suc n) =
     (if addr < KERNEL_TEMP_END
      then kthen (kmod (set_temp_pte pte 0)) (unmap_temp_loop (addr + PAGE_SIZE) (Suc pte) (i + 1) n)
      else kret i)"

definition unmap_temp :: "addr \<Rightarrow> 32 word \<Rightarrow> 32 word kernel" where
  "unmap_temp virt count =
     (let addr = ALIGN_DOWN virt PAGE_SIZE in
      if addr < KERNEL_TEMP_START then kret 0
      else unmap_temp_loop addr (unat (PTE_INDEX addr)) 0 (unat count))"

definition clear_phys_frames_with_start :: "addr \<Rightarrow> paddr \<Rightarrow> 32 word \<Rightarrow> 32 word kernel" where
  "clear_phys_frames_with_start virt paddr count =
     kbind (map_temp virt paddr count) (\<lambda>total_pages.
     kthen (memset virt 0 (total_pages * PAGE_SIZE))
    (kthen (unmap_temp virt total_pages) (kret total_pages)))"

definition clear_phys_frames :: "paddr \<Rightarrow> 32 word \<Rightarrow> 32 word kernel" where
  "clear_phys_frames paddr count = clear_phys_frames_with_start KERNEL_TEMP_START paddr count"

section \<open>Page map access\<close>

text \<open>An error code, and the entry read when there was no error.\<close>

definition read_pmap_entry :: "paddr \<Rightarrow> 32 word \<Rightarrow> (int \<times> 32 word) kernel" where
  "read_pmap_entry pbase entry =
     kthen (kguard (entry < 1024) AssertFail)
    (kbind (kget (\<lambda>s. if pbase = CURRENT_ROOT_PMAP then get_root_page_map s else pbase)) (\<lambda>pbase.
     kbind (map_temp KERNEL_TEMP_START pbase 1) (\<lambda>m.
     if m < 1 then kret (E_FAIL, 0)
     else kbind (ld32 (KERNEL_TEMP_START + 4 * entry)) (\<lambda>v.
          kbind (unmap_temp KERNEL_TEMP_START 1) (\<lambda>u.
          if u \<noteq> 1 then kret (E_FAIL, v) else kret (E_OK, v))))))"

definition write_pmap_entry :: "paddr \<Rightarrow> 32 word \<Rightarrow> 32 word \<Rightarrow> int kernel" where
  "write_pmap_entry pbase entry buffer =
     kthen (kguard (entry < 1024) AssertFail)
    (kbind (kget (\<lambda>s. if pbase = CURRENT_ROOT_PMAP then get_root_page_map s else pbase)) (\<lambda>pbase.
     kbind (map_temp KERNEL_TEMP_START pbase 1) (\<lambda>m.
     if m < 1 then kret E_FAIL
     else kthen (st32 (KERNEL_TEMP_START + 4 * entry) buffer)
         (kbind (unmap_temp KERNEL_TEMP_START 1) (\<lambda>u.
          if u \<noteq> 1 then kret E_FAIL else kret E_OK)))))"

definition read_pde :: "32 word \<Rightarrow> paddr \<Rightarrow> (int \<times> 32 word) kernel" where
  "read_pde entry_num page_dir = read_pmap_entry page_dir entry_num"

definition write_pde :: "32 word \<Rightarrow> 32 word \<Rightarrow> paddr \<Rightarrow> int kernel" where
  "write_pde entry_num pde page_dir = write_pmap_entry page_dir entry_num pde"

definition read_pte :: "32 word \<Rightarrow> paddr \<Rightarrow> (int \<times> 32 word) kernel" where
  "read_pte entry_num page_table = read_pmap_entry page_table entry_num"

definition write_pte :: "32 word \<Rightarrow> 32 word \<Rightarrow> paddr \<Rightarrow> int kernel" where
  "write_pte entry_num pte page_table = write_pmap_entry page_table entry_num pte"

definition is_accessible :: "addr \<Rightarrow> paddr \<Rightarrow> bool \<Rightarrow> int kernel" where
  "is_accessible addr pdir is_read =
     kbind (read_pde (PDE_INDEX addr) pdir) (\<lambda>(e, pde).
     if IS_ERROR e then kret E_FAIL
     else if bf_on is_page_sized pde then
       kret (if bf_on is_present pde \<and> (is_read \<or> bf_on is_read_write pde) then 1 else 0)
     else
       kbind (read_pte (PTE_INDEX addr) (PBASE_TO_PADDR (get_pde_frame_number pde))) (\<lambda>(e, pte).
       if IS_ERROR e then kret E_FAIL
       else kret (if bf_on is_present pte \<and> (is_read \<or> bf_on is_read_write pte) then 1 else 0)))"

definition is_readable :: "addr \<Rightarrow> paddr \<Rightarrow> int kernel" where
  "is_readable addr pdir = is_accessible addr pdir True"

definition is_writable :: "addr \<Rightarrow> paddr \<Rightarrow> int kernel" where
  "is_writable addr pdir = is_accessible addr pdir False"

section \<open>Copying to and from physical memory\<close>

definition chunk :: "32 word \<Rightarrow> 32 word \<Rightarrow> 32 word" where
  "chunk a len = (if len > PAGE_SIZE - PAGE_OFFSET a then PAGE_SIZE - PAGE_OFFSET a else len)"

lemma PAGE_OFFSET_mask: "PAGE_OFFSET a = a AND mask 12"
  by (simp add: PAGE_OFFSET_def PAGE_SIZE_def mask_eq_exp_minus_1)

lemma PAGE_OFFSET_less: "PAGE_OFFSET a < PAGE_SIZE"
proof -
  have "a AND mask 12 \<le> mask 12" by (rule word_and_le1)
  then have "unat (PAGE_OFFSET a) \<le> 4095"
    unfolding PAGE_OFFSET_mask word_le_nat_alt by (simp add: mask_eq_exp_minus_1)
  then show ?thesis by (simp add: PAGE_SIZE_def word_less_nat_alt)
qed

lemma chunk_bounds: "len \<noteq> 0 \<Longrightarrow> 0 < chunk a len" "chunk a len \<le> len"
proof -
  have "0 < PAGE_SIZE - PAGE_OFFSET a"
    using PAGE_OFFSET_less [of a] by (simp add: word_less_nat_alt unat_sub_if')
  then show "len \<noteq> 0 \<Longrightarrow> 0 < chunk a len" "chunk a len \<le> len"
    by (auto simp: chunk_def word_neq_0_conv)
qed

lemma chunk_decreases: "len \<noteq> 0 \<Longrightarrow> unat (len - chunk a len) < unat len"
  using chunk_bounds(1) [of len a] chunk_bounds(2) [of a len] by (simp add: unat_sub word_less_nat_alt word_le_nat_alt)

function access_phys_loop ::
    "paddr \<Rightarrow> addr \<Rightarrow> 32 word \<Rightarrow> 32 word \<Rightarrow> bool \<Rightarrow> int kernel" where
  "access_phys_loop paddr buffer buffer_offset len read_phys =
     (if len = 0 then kret E_OK
      else kbind (map_temp KERNEL_TEMP_START paddr 1) (\<lambda>m.
        if m < 1 then kret E_FAIL
        else
          let bytes = chunk paddr len; window = KERNEL_TEMP_START + PAGE_OFFSET paddr in
          kthen (if read_phys then memcpy (buffer + buffer_offset) window bytes
                 else memcpy window (buffer + buffer_offset) bytes)
         (kbind (unmap_temp KERNEL_TEMP_START 1) (\<lambda>u.
            if u < 1 then kret E_FAIL
            else access_phys_loop (paddr + bytes) buffer (buffer_offset + bytes) (len - bytes)
                   read_phys))))"
  by pat_completeness auto
termination
  by (relation "measure (\<lambda>(_, _, _, len, _). unat len)") (simp_all add: chunk_decreases)

declare access_phys_loop.simps [simp del]

definition access_phys :: "paddr \<Rightarrow> addr \<Rightarrow> 32 word \<Rightarrow> bool \<Rightarrow> int kernel" where
  "access_phys paddr buffer len read_phys =
     (if len = 0 then kret E_FAIL else access_phys_loop paddr buffer 0 len read_phys)"

definition poke :: "paddr \<Rightarrow> addr \<Rightarrow> 32 word \<Rightarrow> int kernel" where
  "poke paddr buffer bytes = access_phys paddr buffer bytes False"

definition peek :: "paddr \<Rightarrow> addr \<Rightarrow> 32 word \<Rightarrow> int kernel" where
  "peek paddr buffer bytes = access_phys paddr buffer bytes True"

section \<open>Other address spaces\<close>

text \<open>The physical page behind an address, as \<^verbatim>\<open>access_mem\<close> looks it up.\<close>

definition lookup_page :: "addr \<Rightarrow> paddr \<Rightarrow> (int \<times> paddr) kernel" where
  "lookup_page address pdir =
     kbind (read_pde (PDE_INDEX address) pdir) (\<lambda>(e, pde).
     if IS_ERROR e then kret (E_FAIL, 0)
     else if bf_on is_present pde then
       (if bf_on is_page_sized pde then kret (E_OK, PBASE_TO_PADDR (get_pde_frame_number pde))
        else kbind (read_pte (PTE_INDEX address) (PBASE_TO_PADDR (bf_get entry_base pde))) (\<lambda>(e, pte).
          if IS_ERROR e then kret (E_FAIL, 0)
          else if bf_on is_present pte then kret (E_OK, PTE_BASE pte)
          else kret (E_NOT_MAPPED, 0)))
     else kret (E_NOT_MAPPED, 0))"

function access_mem_loop :: "addr \<Rightarrow> 32 word \<Rightarrow> addr \<Rightarrow> 32 word \<Rightarrow> paddr \<Rightarrow> bool \<Rightarrow> int kernel" where
  "access_mem_loop address len buffer buffer_offset pdir read =
     (if len = 0 then kret E_OK
      else
        let bytes = chunk address len in
        kbind (lookup_page address pdir) (\<lambda>(e, base_address).
        if IS_ERROR e then kret e
        else kbind (if read then peek (base_address + PAGE_OFFSET address) (buffer + buffer_offset) bytes
                    else poke (base_address + PAGE_OFFSET address) (buffer + buffer_offset) bytes) (\<lambda>e.
          if IS_ERROR e then kret E_FAIL
          else access_mem_loop (address + bytes) (len - bytes) buffer (buffer_offset + bytes) pdir
                 read)))"
  by pat_completeness auto
termination
  by (relation "measure (\<lambda>(_, len, _, _, _, _). unat len)") (simp_all add: chunk_decreases)

declare access_mem_loop.simps [simp del]

definition access_mem :: "addr \<Rightarrow> 32 word \<Rightarrow> addr \<Rightarrow> paddr \<Rightarrow> bool \<Rightarrow> int kernel" where
  "access_mem address len buffer pdir read =
     kthen (kguard (address \<noteq> 0) AssertFail) (access_mem_loop address len buffer 0 pdir read)"

definition poke_virt :: "addr \<Rightarrow> 32 word \<Rightarrow> addr \<Rightarrow> paddr \<Rightarrow> int kernel" where
  "poke_virt address len buffer pdir =
     kbind (kget get_root_page_map) (\<lambda>cur.
     if pdir = cur \<or> pdir = CURRENT_ROOT_PMAP
     then kthen (memcpy address buffer len) (kret E_OK)
     else access_mem address len buffer pdir False)"

definition peek_virt :: "addr \<Rightarrow> 32 word \<Rightarrow> addr \<Rightarrow> paddr \<Rightarrow> int kernel" where
  "peek_virt address len buffer pdir =
     kbind (kget get_root_page_map) (\<lambda>cur.
     if pdir = cur \<or> pdir = CURRENT_ROOT_PMAP
     then kthen (memcpy buffer address len) (kret E_OK)
     else access_mem address len buffer pdir True)"

section \<open>New address spaces\<close>

definition root_pde :: "paddr \<Rightarrow> 32 word" where
  "root_pde pmap =
     bf_set is_present 1 (bf_set is_read_write 1 (bf_set entry_base (PADDR_TO_PBASE pmap) 0))"

text \<open>The second \<^verbatim>\<open>poke\<close> copies the local variable \<^verbatim>\<open>pde\<close>, which lies at \<open>local_var\<close>.\<close>

definition initialize_root_pmap :: "paddr \<Rightarrow> int kernel" where
  "initialize_root_pmap pmap =
     (let vaddr = NDX_TO_VADDR KERNEL_RECURSIVE_PDE KERNEL_RECURSIVE_PDE (PDE_INDEX KERNEL_VSTART);
          vaddr_end = NDX_TO_VADDR KERNEL_RECURSIVE_PDE KERNEL_RECURSIVE_PDE
                        (PDE_INDEX KERNEL_TEMP_END) in
      kbind (kget local_var) (\<lambda>pde.
      kthen (st32 pde (root_pde pmap))
     (kbind (poke (pmap + 4 * PDE_INDEX KERNEL_VSTART) vaddr (vaddr_end - vaddr)) (\<lambda>e.
      if IS_ERROR e then kret E_FAIL
      else kbind (poke (pmap + 4 * KERNEL_RECURSIVE_PDE) pde 4) (\<lambda>e.
        if IS_ERROR e then kret E_FAIL else kret E_OK)))))"

end
