(* ===== verification/Thread.thy ===== *)
theory Thread
  imports Wait_Queue Paging
begin

text \<open>
  Thread management (\<^verbatim>\<open>kernel/thread.c\<close>): moving threads between the run queues, the paused
  list, the wait queues and the processors, releasing them, and the context switch.
\<close>

section \<open>Operations\<close>

text \<open>
  The loop of the \<^verbatim>\<open>RUNNING\<close> case: the first processor from \<open>processor_id\<close> on whose current
  thread is \<open>thread\<close> loses it; the last argument counts the iterations left.
\<close>

primrec clear_running :: "tid \<Rightarrow> nat \<Rightarrow> nat \<Rightarrow> unit kernel" where
  "clear_running thread processor_id 0 = kskip"
| "clear_running thread processor_id (Suc n) =
     kthen (kguard (processor_id < MAX_PROCESSORS) OutOfBounds)
       (kbind (kget (\<lambda>s. running_thread (processors s processor_id))) (\<lambda>t.
          if t = Some thread then kmod (set_running processor_id None)
          else clear_running thread (Suc processor_id) n))"

definition thread_remove_from_list :: "tid \<Rightarrow> int kernel" where
  "thread_remove_from_list thread =
     kbind (rd thread thread_state) (\<lambda>st. case st of
       WAIT_FOR_RECV \<Rightarrow>
         kthen (kseq [detach_sender_wait_queue thread,
                      wr thread (\<lambda>c. c\<lparr>wait_tid := NULL_TID\<rparr>)]) (kret E_OK)
     | WAIT_FOR_SEND \<Rightarrow>
         kthen (kseq [detach_receiver_wait_queue thread,
                      wr thread (\<lambda>c. c\<lparr>wait_tid := NULL_TID\<rparr>)]) (kret E_OK)
     | READY \<Rightarrow>
         kbind (rd thread priority) (\<lambda>p.
           kthen (list_remove (RunQueue (unat p)) thread) (kret E_OK))
     | PAUSED \<Rightarrow> kthen (list_remove PausedList thread) (kret E_OK)
     | ZOMBIE \<Rightarrow> kthen (list_remove ZombieList thread) (kret E_OK)
     | RUNNING \<Rightarrow>
         kbind (kget num_processors) (\<lambda>n. kthen (clear_running thread 0 n) (kret E_OK))
     | _ \<Rightarrow> kret E_FAIL)"

text \<open>The common tail of \<^verbatim>\<open>thread_wakeup\<close> and \<^verbatim>\<open>thread_start\<close>.\<close>

definition make_ready :: "tid \<Rightarrow> unit kernel" where
  "make_ready thread =
     kseq [wr thread (\<lambda>c. c\<lparr>thread_state := READY\<rparr>),
           kbind (rd thread priority) (\<lambda>p. list_enqueue (RunQueue (unat p)) thread)]"

definition thread_wakeup :: "tid \<Rightarrow> int kernel" where
  "thread_wakeup thread =
     kbind (rd thread thread_state) (\<lambda>st.
       if st = RUNNING \<or> st = READY then kret E_DONE
       else if st = ZOMBIE \<or> st = INACTIVE then kret E_FAIL
       else kbind (thread_remove_from_list thread) (\<lambda>e.
              if IS_ERROR e then kret E_FAIL
              else kthen (make_ready thread) (kret E_OK)))"

definition thread_start :: "tid \<Rightarrow> int kernel" where
  "thread_start thread =
     kbind (rd thread thread_state) (\<lambda>st.
       if st = WAIT_FOR_RECV \<or> st = WAIT_FOR_SEND \<or> st = PAUSED then
         kbind (thread_remove_from_list thread) (\<lambda>e.
           if IS_ERROR e then kret E_FAIL
           else kthen (make_ready thread) (kret E_OK))
       else if st = READY \<or> st = RUNNING then kret E_DONE
       else kret E_FAIL)"

definition thread_pause :: "tid \<Rightarrow> int kernel" where
  "thread_pause thread =
     kbind (rd thread thread_state) (\<lambda>st.
       if st = WAIT_FOR_RECV \<or> st = WAIT_FOR_SEND \<or> st = READY \<or> st = RUNNING then
         kbind (thread_remove_from_list thread) (\<lambda>e.
           if IS_ERROR e then kret E_FAIL
           else kthen (kseq [wr thread (\<lambda>c. c\<lparr>thread_state := PAUSED\<rparr>),
                             list_enqueue PausedList thread]) (kret E_OK))
       else if st = PAUSED then kret E_DONE
       else kret E_FAIL)"

text \<open>
  The \<^verbatim>\<open>while\<close> loop of \<^verbatim>\<open>thread_release\<close> over one queue, with fuel: every round takes one
  thread off the list, so \<open>TCB_TABLE_SIZE\<close> rounds empty a list of distinct threads
  (\<open>release_waiters_kinv\<close>). Running out of fuel is the fault \<open>Hang\<close>.
\<close>

primrec release_waiters :: "nat \<Rightarrow> list_ref \<Rightarrow> unit kernel" where
  "release_waiters 0 queue =
     kbind (ld_list queue) (\<lambda>l. kguard (head_tid l = NULL_TID) Hang)"
| "release_waiters (Suc fuel) queue =
     kbind (ld_list queue) (\<lambda>l.
       if head_tid l = NULL_TID then kskip
       else kbind (list_dequeue queue) (\<lambda>t.
              kthen (case t of None \<Rightarrow> kskip
                     | Some t \<Rightarrow> kseq [wr t (\<lambda>c. c\<lparr>wait_tid := NULL_TID\<rparr>),
                                      wr t (upd_regs (\<lambda>r. r\<lparr>eax := code32 E_UNREACH\<rparr>)),
                                      wr t (\<lambda>c. c\<lparr>thread_state := READY\<rparr>)])
                    (release_waiters fuel queue)))"

definition unregister_handlers :: "tid \<Rightarrow> kstate \<Rightarrow> kstate" where
  "unregister_handlers thread s =
     s\<lparr>irq_handlers := (\<lambda>i. if i < NUM_IRQS \<and> irq_handlers s i = Some thread then None
                            else irq_handlers s i)\<rparr>"

text \<open>
  The outer loop of \<^verbatim>\<open>thread_release\<close> steps \<^verbatim>\<open>queue\<close> itself, not the index into \<^verbatim>\<open>queues\<close>:
  the second iteration works on the four bytes after \<^verbatim>\<open>sender_wait_queue\<close>, the fields
  \<^verbatim>\<open>prev_tid\<close> and \<^verbatim>\<open>next_tid\<close>, and never on \<^verbatim>\<open>receiver_wait_queue\<close>.
\<close>

definition thread_release :: "tid \<Rightarrow> int kernel" where
  "thread_release thread =
     kbind (rd thread thread_state) (\<lambda>st.
       if st = INACTIVE then kret E_DONE
       else kbind (thread_remove_from_list thread) (\<lambda>e.
         if IS_ERROR e then kret E_FAIL
         else kthen (kseq [release_waiters TCB_TABLE_SIZE (SenderQueue thread),
                           release_waiters TCB_TABLE_SIZE (LinkFields thread),
                           kmod (unregister_handlers thread),
                           wr thread (\<lambda>c. c\<lparr>thread_state := INACTIVE\<rparr>)])
                    (kret E_OK)))"

definition thread_sleep :: "tid option \<Rightarrow> 32 word \<Rightarrow> int \<Rightarrow> int kernel" where
  "thread_sleep thread duration granularity = kret E_FAIL"

section \<open>The context switch\<close>

definition set_cr3 :: "32 word \<Rightarrow> kstate \<Rightarrow> kstate" where
  "set_cr3 v s = s\<lparr>cr3 := v\<rparr>"

definition fxsave :: "addr \<Rightarrow> kstate \<Rightarrow> kstate" where
  "fxsave a s = s\<lparr>fx_mem := (fx_mem s)(a := fpu s)\<rparr>"

definition fxrstor :: "addr \<Rightarrow> kstate \<Rightarrow> kstate" where
  "fxrstor a s = s\<lparr>fpu := fx_mem s a\<rparr>"

definition SIZEOF_ExecutionState :: "32 word" where
  "SIZEOF_ExecutionState = 56"

text \<open>\<^verbatim>\<open>RESTORE_STATE\<close> leaves for user mode with the frame just built.\<close>

definition RESTORE_STATE :: "'a kernel" where
  [kexec]: "RESTORE_STATE s = Switch s"

definition thread_switch_context :: "tid \<Rightarrow> bool \<Rightarrow> 'a kernel" where
  "thread_switch_context thread do_fxsave =
     kbind (rd thread id) (\<lambda>c.
     kthen (kguard (thread_state c = RUNNING) AssertFail)
    (kthen (kmod (\<lambda>s. if root_pmap c AND CR3_BASE_MASK \<noteq> cr3 s AND CR3_BASE_MASK
                      then set_cr3 (root_pmap c) s else s))
    (kthen (kbind (kget thread_get_current) (\<lambda>current_thread. case current_thread of
              None \<Rightarrow> kskip
            | Some t \<Rightarrow> kwhen do_fxsave (kbind (rd t fxsave_state) (\<lambda>a.
                kwhen (a \<noteq> 0) (kmod (fxsave a))))))
    (kthen (kmod (\<lambda>s. s\<lparr>tss_esp0 := kernel_stack_top s - SIZEOF_ExecutionState - 4,
                        user_regs := user_exec_state c\<rparr>))
    (kthen (kbind (kget init_server_thread) (\<lambda>i. kbind (deref i) (\<lambda>i.
              kbind (rd i root_pmap) (\<lambda>r. kmod (set_cr3 r)))))
    (kthen (kwhen (do_fxsave \<and> fxsave_state c \<noteq> 0) (kmod (fxrstor (fxsave_state c))))
     RESTORE_STATE))))))"

section \<open>Taking a thread off its list\<close>

text \<open>What removal does to the state apart from the lists.\<close>

definition cpu_drop :: "tid \<Rightarrow> kstate \<Rightarrow> kstate" where
  "cpu_drop t s = s\<lparr>processors := (\<lambda>p.
     if p < num_processors s \<and> running_thread (processors s p) = Some t
     then (processors s p)\<lparr>running_thread := None\<rparr> else processors s p)\<rparr>"

definition detached :: "tid \<Rightarrow> kstate \<Rightarrow> kstate" where
  "detached t s = (case thread_state (tcb_table s t) of
       RUNNING \<Rightarrow> cpu_drop t s
     | WAIT_FOR_RECV \<Rightarrow> upd_tcb t (\<lambda>c. c\<lparr>wait_tid := NULL_TID\<rparr>) s
     | WAIT_FOR_SEND \<Rightarrow> upd_tcb t (\<lambda>c. c\<lparr>wait_tid := NULL_TID\<rparr>) s
     | _ \<Rightarrow> s)"

lemma cpu_drop_simps [simp]:
  "tcb_table (cpu_drop t s) = tcb_table s" "num_processors (cpu_drop t s) = num_processors s"
  "processors (cpu_drop t s) = (\<lambda>p.
     if p < num_processors s \<and> running_thread (processors s p) = Some t
     then (processors s p)\<lparr>running_thread := None\<rparr> else processors s p)"
  by (simp_all add: cpu_drop_def)

lemma list_at_cpu_drop [simp]: "list_at r (cpu_drop t s) = list_at r s"
  by (cases r) (simp_all add: cpu_drop_def)

lemma strip_cpu_drop [simp]: "strip (cpu_drop t s) = cpu_drop t (strip s)"
  by (rule kstate.equality) (simp_all add: strip_def cpu_drop_def cong: if_cong)

lemma on_cpu_cpu_drop [simp]: "on_cpu (cpu_drop t s) u \<longleftrightarrow> on_cpu s u \<and> u \<noteq> t"
  unfolding on_cpu_def cpu_drop_simps by (fastforce split: if_splits)

lemma repr_cpu_drop [simp]: "repr (cpu_drop t s) Q = repr s Q"
  by (simp add: repr_def)

lemma wf_cpus_cpu_drop: "wf_cpus s \<Longrightarrow> wf_cpus (cpu_drop t s)"
  unfolding wf_cpus_def on_cpu_cpu_drop cpu_drop_simps by (simp split: if_split)

lemma cpu_drop_absent: "\<not> on_cpu s t \<Longrightarrow> cpu_drop t s = s"
  by (auto simp: cpu_drop_def on_cpu_def intro!: kstate.equality)

lemma clear_running_cpu_drop:
  assumes "wf_cpus s"
  shows "clear_running t 0 (num_processors s) s = Ret () (cpu_drop t s)"
proof -
  have "clear_running t p n s = Ret () (cpu_drop t s)"
    if "p + n = num_processors s" "\<forall>q<p. running_thread (processors s q) \<noteq> Some t" for p n
    using that
  proof (induction n arbitrary: p)
    case 0
    then have "\<not> on_cpu s t" by (auto simp: on_cpu_def)
    then show ?case by (simp add: kexec cpu_drop_absent)
  next
    case (Suc n)
    have p: "p < MAX_PROCESSORS" "p < num_processors s"
      using Suc.prems(1) assms by (auto simp: wf_cpus_def)
    show ?case
    proof (cases "running_thread (processors s p) = Some t")
      case True
      then have "cpu_drop t s = set_running p None s"
        using assms p(2) by (auto simp: cpu_drop_def set_running_def wf_cpus_def fun_eq_iff)
      with True p show ?thesis by (simp add: kexec)
    next
      case False
      then show ?thesis
        using Suc.IH [of "Suc p"] Suc.prems p by (auto simp: kexec less_Suc_eq)
    qed
  qed
  from this [of 0 "num_processors s"] show ?thesis by simp
qed

lemma kinv_cpu_drop:
  assumes "kinv s Q" and "is_thread t" and "thread_state (tcb_table s t) = RUNNING"
  shows "kinv_ex {t} (cpu_drop t s) (Qdel t Q)"
proof -
  have "t \<notin> members Q"
    using kinv_fields(3) [OF assms(1,2)] assms(3) by (auto simp: members_def loc_def)
  moreover have "wf_thread (cpu_drop t s) Q u = wf_thread s Q u" if "u \<noteq> t" for u
    using that by (simp add: wf_thread_def)
  ultimately show ?thesis
    using kinv_exD(1-3) [OF assms(1)] by (simp add: kinv_ex_def wf_cpus_cpu_drop)
qed

lemma kinv_on_list:
  assumes "kinv s Q" and "is_thread t" and "loc (tcb_table s t) = Some r"
  shows "t \<in> set (Q r)" and "queue_ref r"
proof -
  show "t \<in> set (Q r)" using kinv_fields(3) [OF assms(1,2)] assms(3) by simp
  then show "queue_ref r" using reprD(2) [OF kinv_exD(1) [OF assms(1)], of r] by fastforce
qed

lemma kinv_queue_member:
  assumes "kinv s Q" and "r \<in> set (Q l)"
  shows "is_thread r" and "loc (tcb_table s r) = Some l"
proof -
  show r: "is_thread r" using repr_thread [OF kinv_exD(1) [OF assms(1)] assms(2)] .
  show "loc (tcb_table s r) = Some l" using kinv_fields(3) [OF assms(1) r] assms(2) by simp
qed

lemma loc_ReceiverQueue:
  "loc c = Some (ReceiverQueue t) \<Longrightarrow> thread_state c = WAIT_FOR_SEND \<and> wait_tid c = t"
  by (auto simp: loc_def split: thread_state_t.splits if_splits)

lemma list_remove_kinv:
  assumes "kinv s Q" and "is_thread t" and "loc (tcb_table s t) = Some r"
    and "thread_state (tcb_table s t) \<noteq> RUNNING"
  shows "\<exists>s'. list_remove r t s = Ret () s' \<and> kinv_ex {t} s' (Qdel t Q) \<and> strip s' = strip s"
proof -
  obtain s' where s': "list_remove r t s = Ret () s'" "repr s' (Qdel t Q)" "strip s' = strip s"
    using kq.del [OF kinv_exD(1) [OF assms(1)]] kinv_on_list [OF assms(1-3)] by blast
  moreover have "\<not> on_cpu s t" using kinv_fields(4) [OF assms(1,2)] assms(4) by simp
  ultimately show ?thesis using kinv_detach [OF assms(1)] by blast
qed

lemma detach_from_kinv:
  assumes "kinv s Q" and "is_thread t"
    and "thread_state (tcb_table s t) = st" and "st \<noteq> RUNNING"
    and "loc (tcb_table s t) = (if wait_tid (tcb_table s t) = NULL_TID then None
           else Some (wq (wait_tid (tcb_table s t))))"
  shows "\<exists>s'. detach_from wq t s = Ret () s' \<and> kinv_ex {t} s' (Qdel t Q) \<and>
           strip s' = upd_tcb t (\<lambda>c. c\<lparr>wait_tid := NULL_TID\<rparr>) (strip s)"
proof -
  let ?w = "wait_tid (tcb_table s t)" and ?u = "\<lambda>c. c\<lparr>wait_tid := NULL_TID\<rparr>"
  have m: "t \<in> members Q \<Longrightarrow> ?w \<noteq> NULL_TID \<and> t \<in> set (Q (wq ?w))"
    using kinv_fields(3) [OF assms(1,2)] assms(5) by (auto simp: members_def split: if_splits)
  have q: "?w \<noteq> NULL_TID \<Longrightarrow> queue_ref (wq ?w)"
    using kinv_on_list [OF assms(1,2)] assms(5) by simp
  obtain s' where s': "detach_from wq t s = Ret () s'" "repr s' (Qdel t Q)"
      "strip s' = upd_tcb t ?u (strip s)"
    using detach_from_repr [where wq = wq, OF kinv_exD(1) [OF assms(1)] assms(2)
        kinv_fields(2) [OF assms(1,2)]] m q by blast
  have "\<not> on_cpu s t" using kinv_fields(4) [OF assms(1,2)] assms(3,4) by simp
  have t: "wf_thread s' (Qdel t Q) v" if "is_thread v" "v \<noteq> t" for v
  proof -
    have "wf_thread s' (Qdel t Q) v = wf_thread (upd_tcb t ?u s) Q v"
      using that s'(3) by (intro wf_thread_strip) (auto simp: Qdel_def)
    then show ?thesis
      using that kinv_exD(3) [OF assms(1)] by (simp add: wf_thread_upd_other)
  qed
  have "wf_cpus s'" "\<not> on_cpu s' t"
    using wf_cpus_strip [of s' "upd_tcb t ?u s"] on_cpu_strip [of s' "upd_tcb t ?u s" t]
      s'(3) kinv_exD(2) [OF assms(1)] \<open>\<not> on_cpu s t\<close> by simp_all
  then show ?thesis using s' t by (auto simp: kinv_ex_def)
qed

lemma detached_fields [simp]:
  "thread_state (tcb_table (detached t s) u) = thread_state (tcb_table s u)"
  "priority (tcb_table (detached t s) u) = priority (tcb_table s u)"
  "root_pmap (tcb_table (detached t s) u) = root_pmap (tcb_table s u)"
  "user_exec_state (tcb_table (detached t s) u) = user_exec_state (tcb_table s u)"
  "wait_for_kernel_msg (tcb_table (detached t s) u) = wait_for_kernel_msg (tcb_table s u)"
  "wait_tid (tcb_table (detached t s) u) =
     (if u = t \<and> thread_state (tcb_table s t) \<in> {WAIT_FOR_RECV, WAIT_FOR_SEND} then NULL_TID
      else wait_tid (tcb_table s u))"
  by (auto simp: detached_def split: thread_state_t.split)

lemma strip_fields:
  assumes "strip s' = x"
  shows "priority (tcb_table s' t) = priority (tcb_table x t)"
    "wait_tid (tcb_table s' t) = wait_tid (tcb_table x t)"
    "thread_state (tcb_table s' t) = thread_state (tcb_table x t)"
    "user_exec_state (tcb_table s' t) = user_exec_state (tcb_table x t)"
    "root_pmap (tcb_table s' t) = root_pmap (tcb_table x t)"
    "wait_for_kernel_msg (tcb_table s' t) = wait_for_kernel_msg (tcb_table x t)"
    "num_processors s' = num_processors x" "processors s' = processors x"
  unfolding assms [symmetric] by simp_all

lemma upd_tcb_wait_idem [simp]:
  "upd_tcb t (\<lambda>c. c\<lparr>wait_tid := a\<rparr>) (upd_tcb t (\<lambda>c. c\<lparr>wait_tid := b\<rparr>) s) =
     upd_tcb t (\<lambda>c. c\<lparr>wait_tid := a\<rparr>) s"
  by (simp add: upd_tcb_def)

lemma detach_clear_kinv:
  assumes "kinv s Q" and "is_thread t"
    and "thread_state (tcb_table s t) = st" and "st \<noteq> RUNNING"
    and "loc (tcb_table s t) = (if wait_tid (tcb_table s t) = NULL_TID then None
           else Some (wq (wait_tid (tcb_table s t))))"
  shows "\<exists>s'. kseq [detach_from wq t, wr t (\<lambda>c. c\<lparr>wait_tid := NULL_TID\<rparr>)] s = Ret () s' \<and>
           kinv_ex {t} s' (Qdel t Q) \<and>
           strip s' = upd_tcb t (\<lambda>c. c\<lparr>wait_tid := NULL_TID\<rparr>) (strip s)"
proof -
  obtain s1 where s1: "detach_from wq t s = Ret () s1" "kinv_ex {t} s1 (Qdel t Q)"
      "strip s1 = upd_tcb t (\<lambda>c. c\<lparr>wait_tid := NULL_TID\<rparr>) (strip s)"
    using detach_from_kinv [where wq = wq, OF assms] by blast
  have "kinv_ex {t} (upd_tcb t (\<lambda>c. c\<lparr>wait_tid := NULL_TID\<rparr>) s1) (Qdel t Q)"
    by (rule kinv_upd_detached [OF s1(2)]) simp_all
  with s1 assms(2) show ?thesis by (auto simp: kexec)
qed

lemma thread_remove_from_list_kinv:
  assumes "kinv s Q" and "is_thread t" and "thread_state (tcb_table s t) \<notin> {INACTIVE, SLEEPING}"
  shows "\<exists>s'. thread_remove_from_list t s = Ret E_OK s' \<and> kinv_ex {t} s' (Qdel t Q) \<and>
           strip s' = detached t (strip s)"
proof -
  have it: "in_table t" using assms(2) by auto
  note rem = list_remove_kinv [OF assms(1,2)] and det = detach_clear_kinv [OF assms(1,2)]
  show ?thesis
  proof (cases "thread_state (tcb_table s t)")
    case PAUSED
    with rem [of PausedList] it show ?thesis
      by (auto simp: thread_remove_from_list_def kexec detached_def loc_def)
  next
    case ZOMBIE
    with rem [of ZombieList] it show ?thesis
      by (auto simp: thread_remove_from_list_def kexec detached_def loc_def)
  next
    case READY
    with rem [of "RunQueue (unat (priority (tcb_table s t)))"] it show ?thesis
      by (auto simp: thread_remove_from_list_def kexec detached_def loc_def)
  next
    case RUNNING
    with kinv_cpu_drop [OF assms(1,2)] it clear_running_cpu_drop [OF kinv_exD(2) [OF assms(1)]]
    show ?thesis
      by (auto simp: thread_remove_from_list_def kexec detached_def)
  next
    case WAIT_FOR_SEND
    with det [of WAIT_FOR_SEND ReceiverQueue] it show ?thesis
      by (auto simp: thread_remove_from_list_def detach_from_eqs kthen_def kbind_Ret kret_def
          rd_def detached_def loc_def simp del: kseq.simps)
  next
    case WAIT_FOR_RECV
    with det [of WAIT_FOR_RECV SenderQueue] it show ?thesis
      by (auto simp: thread_remove_from_list_def detach_from_eqs kthen_def kbind_Ret kret_def
          rd_def detached_def loc_def simp del: kseq.simps)
  qed (use assms(3) in auto)
qed

lemma thread_remove_from_list_fail:
  assumes "is_thread t" and "thread_state (tcb_table s t) \<in> {INACTIVE, SLEEPING}"
  shows "thread_remove_from_list t s = Ret E_FAIL s"
  using assms by (auto simp: thread_remove_from_list_def kexec)

section \<open>Putting a thread on a list\<close>

lemma set_state_enqueue_kinv:
  assumes "kinv_ex X s Q" and "t \<in> X" and "is_thread t"
    and "unat (priority (tcb_table s t)) < NUM_PRIORITIES" "in_table (wait_tid (tcb_table s t))"
    and "loc ((tcb_table s t)\<lparr>thread_state := st\<rparr>) = Some r" and "queue_ref r"
  shows "\<exists>s'. list_enqueue r t (upd_tcb t (\<lambda>c. c\<lparr>thread_state := st\<rparr>) s) = Ret () s' \<and>
           kinv_ex (X - {t}) s' (Q(r := t # Q r)) \<and>
           strip s' = upd_tcb t (\<lambda>c. c\<lparr>thread_state := st\<rparr>) (strip s)"
proof -
  let ?s1 = "upd_tcb t (\<lambda>c. c\<lparr>thread_state := st\<rparr>) s"
  have k1: "kinv_ex X ?s1 Q"
    by (rule kinv_upd_detached [OF assms(1,2)]) simp
  obtain s' where s': "list_enqueue r t ?s1 = Ret () s'" "repr s' (Q(r := t # Q r))"
      "strip s' = strip ?s1"
    using kq.enq [OF kinv_exD(1) [OF k1] assms(7,3) kinv_exD(4) [OF k1 assms(2)]] by blast
  then have "kinv_ex (X - {t}) s' (Q(r := t # Q r))"
    using assms by (intro kinv_attach [OF k1 assms(2,3)]) simp_all
  with s' show ?thesis by simp
qed

lemma make_ready_kinv:
  assumes "kinv_ex X s Q" and "t \<in> X" and "is_thread t"
    and "unat (priority (tcb_table s t)) < NUM_PRIORITIES" "in_table (wait_tid (tcb_table s t))"
  shows "\<exists>s'. make_ready t s = Ret () s' \<and>
           kinv_ex (X - {t}) s' (let r = RunQueue (unat (priority (tcb_table s t)))
             in Q(r := t # Q r)) \<and>
           strip s' = upd_tcb t (\<lambda>c. c\<lparr>thread_state := READY\<rparr>) (strip s)"
proof -
  have "in_table t" using assms(3) by auto
  then show ?thesis
    using set_state_enqueue_kinv [OF assms, of READY] assms(4)
    by (auto simp: make_ready_def kexec loc_def Let_def)
qed

section \<open>Starting, waking and pausing\<close>

definition moved :: "tid \<Rightarrow> list_ref \<Rightarrow> queues \<Rightarrow> queues" where
  "moved t r Q = (Qdel t Q)(r := t # Qdel t Q r)"

definition run_queue :: "kstate \<Rightarrow> tid \<Rightarrow> list_ref" where
  "run_queue s t = RunQueue (unat (priority (tcb_table s t)))"

lemma detached_wf:
  assumes "kinv s Q" and "is_thread t" and "strip s1 = detached t (strip s)"
  shows "unat (priority (tcb_table s1 t)) < NUM_PRIORITIES" "in_table (wait_tid (tcb_table s1 t))"
    and "priority (tcb_table s1 u) = priority (tcb_table s u)"
    and "thread_state (tcb_table s1 u) = thread_state (tcb_table s u)"
  using strip_fields(1-3) [OF assms(3)] kinv_fields(1,2) [OF assms(1,2)]
  by (simp_all cong: if_cong)

lemma remove_then_ready_kinv:
  assumes "kinv s Q" and "is_thread t" and "thread_state (tcb_table s t) \<notin> {INACTIVE, SLEEPING}"
  shows "\<exists>s'. kbind (thread_remove_from_list t) (\<lambda>e. if IS_ERROR e then kret E_FAIL
                 else kthen (make_ready t) (kret E_OK)) s = Ret E_OK s' \<and>
           kinv s' (moved t (run_queue s t) Q) \<and>
           strip s' = upd_tcb t (\<lambda>c. c\<lparr>thread_state := READY\<rparr>) (detached t (strip s))"
proof -
  obtain s1 where s1: "thread_remove_from_list t s = Ret E_OK s1" "kinv_ex {t} s1 (Qdel t Q)"
      "strip s1 = detached t (strip s)"
    using thread_remove_from_list_kinv [OF assms] by blast
  note f = detached_wf [OF assms(1,2) s1(3)]
  obtain s2 where s2: "make_ready t s1 = Ret () s2"
      "kinv s2 (moved t (run_queue s t) Q)"
      "strip s2 = upd_tcb t (\<lambda>c. c\<lparr>thread_state := READY\<rparr>) (strip s1)"
    using make_ready_kinv [OF s1(2) _ assms(2) f(1,2)] f(3)
    by (auto simp: Let_def moved_def run_queue_def)
  from s1 s2 show ?thesis by (simp add: kexec error_codes)
qed

lemma thread_start_kinv:
  assumes "kinv s Q" and "is_thread t"
    and "thread_state (tcb_table s t) \<in> {WAIT_FOR_RECV, WAIT_FOR_SEND, PAUSED}"
  shows "\<exists>s'. thread_start t s = Ret E_OK s' \<and> kinv s' (moved t (run_queue s t) Q) \<and>
           strip s' = upd_tcb t (\<lambda>c. c\<lparr>thread_state := READY\<rparr>) (detached t (strip s))"
proof -
  have "in_table t" using assms(2) by auto
  then show ?thesis
    using remove_then_ready_kinv [OF assms(1,2)] assms(3)
    by (auto simp: thread_start_def kbind_Ret rd_def)
qed

lemma thread_start_noop:
  assumes "is_thread t"
  shows "thread_state (tcb_table s t) \<in> {READY, RUNNING} \<Longrightarrow> thread_start t s = Ret E_DONE s"
    and "thread_state (tcb_table s t) \<in> {INACTIVE, ZOMBIE, SLEEPING} \<Longrightarrow>
         thread_start t s = Ret E_FAIL s"
  using assms by (auto simp: thread_start_def kexec)

lemma thread_wakeup_kinv:
  assumes "kinv s Q" and "is_thread t"
    and "thread_state (tcb_table s t) \<in> {WAIT_FOR_RECV, WAIT_FOR_SEND, PAUSED}"
  shows "\<exists>s'. thread_wakeup t s = Ret E_OK s' \<and> kinv s' (moved t (run_queue s t) Q) \<and>
           strip s' = upd_tcb t (\<lambda>c. c\<lparr>thread_state := READY\<rparr>) (detached t (strip s))"
proof -
  have "in_table t" using assms(2) by auto
  then show ?thesis
    using remove_then_ready_kinv [OF assms(1,2)] assms(3)
    by (auto simp: thread_wakeup_def kbind_Ret rd_def)
qed

lemma thread_wakeup_noop:
  assumes "is_thread t"
  shows "thread_state (tcb_table s t) \<in> {READY, RUNNING} \<Longrightarrow> thread_wakeup t s = Ret E_DONE s"
    and "thread_state (tcb_table s t) \<in> {INACTIVE, ZOMBIE, SLEEPING} \<Longrightarrow>
         thread_wakeup t s = Ret E_FAIL s"
  using assms by (auto simp: thread_wakeup_def thread_remove_from_list_def kexec error_codes)

lemma thread_pause_kinv:
  assumes "kinv s Q" and "is_thread t"
    and "thread_state (tcb_table s t) \<in> {WAIT_FOR_RECV, WAIT_FOR_SEND, READY, RUNNING}"
  shows "\<exists>s'. thread_pause t s = Ret E_OK s' \<and> kinv s' (moved t PausedList Q) \<and>
           strip s' = upd_tcb t (\<lambda>c. c\<lparr>thread_state := PAUSED\<rparr>) (detached t (strip s))"
proof -
  obtain s1 where s1: "thread_remove_from_list t s = Ret E_OK s1" "kinv_ex {t} s1 (Qdel t Q)"
      "strip s1 = detached t (strip s)"
    using thread_remove_from_list_kinv [OF assms(1,2)] assms(3) by auto
  note f = detached_wf [OF assms(1,2) s1(3)]
  obtain s2 where s2: "list_enqueue PausedList t (upd_tcb t (\<lambda>c. c\<lparr>thread_state := PAUSED\<rparr>) s1) =
        Ret () s2" "kinv s2 (moved t PausedList Q)"
      "strip s2 = upd_tcb t (\<lambda>c. c\<lparr>thread_state := PAUSED\<rparr>) (strip s1)"
    using set_state_enqueue_kinv [OF s1(2) _ assms(2) f(1,2), of PAUSED PausedList]
    by (auto simp: moved_def loc_def)
  have "in_table t" using assms(2) by auto
  with s1 s2 assms(3) show ?thesis
    by (auto simp: thread_pause_def kexec error_codes)
qed

lemma thread_pause_noop:
  assumes "is_thread t"
  shows "thread_state (tcb_table s t) = PAUSED \<Longrightarrow> thread_pause t s = Ret E_DONE s"
    and "thread_state (tcb_table s t) \<in> {INACTIVE, ZOMBIE, SLEEPING} \<Longrightarrow>
         thread_pause t s = Ret E_FAIL s"
  using assms by (auto simp: thread_pause_def kexec)

section \<open>Releasing\<close>

lemma thread_list_bound:
  assumes "distinct xs" and "\<forall>x\<in>set xs. is_thread x"
  shows "length xs \<le> TCB_TABLE_SIZE"
proof -
  have "unat ` set xs \<subseteq> {..<TCB_TABLE_SIZE}"
    using assms(2) by (auto simp: is_thread_def in_table_def)
  then have "card (unat ` set xs) \<le> TCB_TABLE_SIZE"
    using card_mono [of "{..<TCB_TABLE_SIZE}"] by simp
  moreover have "card (unat ` set xs) = length xs"
    using card_image [of unat "set xs"] distinct_card [OF assms(1)]
    by (simp add: inj_on_def unsigned_word_eqI)
  ultimately show ?thesis by simp
qed

lemma repr_bound: "repr s Q \<Longrightarrow> length (Q r) \<le> TCB_TABLE_SIZE"
  by (cases "queue_ref r") (auto simp: repr_def dll_def intro: thread_list_bound)

definition unreach_tcb :: "tcb \<Rightarrow> tcb" where
  "unreach_tcb c = (upd_regs (\<lambda>r. r\<lparr>eax := code32 E_UNREACH\<rparr>) (c\<lparr>wait_tid := NULL_TID\<rparr>))
     \<lparr>thread_state := READY\<rparr>"

definition unreach_all :: "tid set \<Rightarrow> kstate \<Rightarrow> kstate" where
  "unreach_all W s =
     s\<lparr>tcb_table := (\<lambda>t. if t \<in> W then unreach_tcb (tcb_table s t) else tcb_table s t)\<rparr>"

lemma unreach_all_step:
  "x \<notin> W \<Longrightarrow> unreach_all W (upd_tcb x unreach_tcb s) = unreach_all (insert x W) s"
  by (auto simp: unreach_all_def upd_tcb_def fun_eq_iff)

lemma unreach_tcb_keeps [simp]:
  "keeps_links unreach_tcb" "strip_tcb (unreach_tcb c) = unreach_tcb (strip_tcb c)"
  "unreach_tcb (unreach_tcb c) = unreach_tcb c"
  by (simp_all add: keeps_links_def unreach_tcb_def upd_regs_def strip_tcb_def)

lemma head_null_iff:
  "repr s Q \<Longrightarrow> queue_ref r \<Longrightarrow> head_tid (list_at r s) = NULL_TID \<longleftrightarrow> Q r = []"
  using reprD(1) [of s Q r] by (cases "Q r") (auto simp: dll_def)

lemma kinv_dequeue:
  assumes "kinv_ex X s Q" and "queue_ref r" and "Q r = xs @ [x]"
    and "thread_state (tcb_table s x) \<noteq> RUNNING"
  shows "\<exists>s'. list_dequeue r s = Ret (Some x) s' \<and> kinv_ex (insert x X) s' (Q(r := xs)) \<and>
           strip s' = strip s"
proof -
  obtain s' where s': "list_dequeue r s = Ret (Some x) s'" "repr s' (Q(r := xs))"
      "strip s' = strip s"
    using kq.deq [OF kinv_exD(1) [OF assms(1)] assms(2,3)] by blast
  have q: "Q(r := xs) = Qdel x Q"
    using Qdel_repr [OF kinv_exD(1) [OF assms(1)], of r xs x "[]"] assms(3) by simp
  have x: "x \<in> members Q" using assms(3) by (auto simp: members_def intro!: exI [of _ r])
  then have "x \<notin> X" using kinv_exD(4) [OF assms(1)] by auto
  then have "\<not> on_cpu s x"
    using kinv_fields(4) [OF assms(1) repr_thread [OF kinv_exD(1) [OF assms(1)], of x r]]
      assms(3,4) by simp
  then show ?thesis
    using s' kinv_detach [OF assms(1), of s' x] unfolding q by blast
qed

lemma release_waiters_kinv:
  assumes "kinv_ex X s Q" and "queue_ref r" and "length (Q r) \<le> fuel"
    and "\<forall>x\<in>set (Q r). thread_state (tcb_table s x) \<noteq> RUNNING"
  shows "\<exists>s'. release_waiters fuel r s = Ret () s' \<and>
           kinv_ex (X \<union> set (Q r)) s' (Q(r := [])) \<and>
           strip s' = unreach_all (set (Q r)) (strip s)"
  using assms
proof (induction fuel arbitrary: X s Q)
  case 0
  then show ?case
    using head_null_iff [OF kinv_exD(1), of X s Q r]
    by (auto simp: kexec unreach_all_def fun_upd_idem)
next
  case (Suc n)
  note h = head_null_iff [OF kinv_exD(1) [OF Suc.prems(1)] Suc.prems(2)]
  show ?case
  proof (cases "Q r" rule: rev_cases)
    case Nil
    then show ?thesis
      using h Suc.prems(1,2) by (auto simp: kexec unreach_all_def fun_upd_idem)
  next
    case (snoc xs x)
    obtain s1 where s1: "list_dequeue r s = Ret (Some x) s1" "kinv_ex (insert x X) s1 (Q(r := xs))"
        "strip s1 = strip s"
      using kinv_dequeue [OF Suc.prems(1,2) snoc] Suc.prems(4) snoc by auto
    have th: "is_thread x" and nx: "x \<notin> set xs"
      using repr_thread [OF kinv_exD(1) [OF Suc.prems(1)], of x r] snoc
        kinv_exD(4) [OF s1(2), of x] not_membersD [of x "Q(r := xs)" r] by simp_all
    let ?s2 = "upd_tcb x unreach_tcb s1"
    have k2: "kinv_ex (insert x X) ?s2 (Q(r := xs))"
      by (rule kinv_upd_detached [OF s1(2)]) simp_all
    have st: "\<forall>y\<in>set ((Q(r := xs)) r). thread_state (tcb_table ?s2 y) \<noteq> RUNNING"
      using Suc.prems(4) snoc nx strip_fields(3) [OF s1(3)] by auto
    obtain s3 where s3: "release_waiters n r ?s2 = Ret () s3"
        "kinv_ex (insert x X \<union> set xs) s3 (Q(r := []))"
        "strip s3 = unreach_all (set xs) (strip ?s2)"
      using Suc.IH [OF k2 Suc.prems(2) _ st] Suc.prems(3) snoc
      by (auto simp: fun_upd_same simp del: fun_upd_apply)
    have "strip s3 = unreach_all (set (Q r)) (strip s)"
      using s3(3) s1(3) unreach_all_step [OF nx, of "strip s"] snoc
      by (simp add: strip_upd_keeps)
    moreover have "release_waiters (Suc n) r s = release_waiters n r ?s2"
      using h snoc s1(1) th Suc.prems(2)
      by (auto simp: kexec unreach_tcb_def upd_tcb_def)
    ultimately show ?thesis using s3 snoc by (simp add: Un_commute del: fun_upd_apply)
  qed
qed

text \<open>The second iteration of the outer loop finds the null links of a detached thread.\<close>

lemma release_waiters_links:
  assumes "repr s Q" and "is_thread t" and "t \<notin> members Q"
  shows "release_waiters fuel (LinkFields t) s = Ret () s"
  using reprD(4,5) [OF assms(1) _ assms(3)] assms(2)
  by (cases fuel) (auto simp: kexec)

lemma unregister_handlers_simps [simp]:
  "tcb_table (unregister_handlers t s) = tcb_table s"
  "list_at r (unregister_handlers t s) = list_at r s"
  "repr (unregister_handlers t s) Q = repr s Q"
  "on_cpu (unregister_handlers t s) u = on_cpu s u"
  "wf_cpus (unregister_handlers t s) = wf_cpus s"
proof -
  show [simp]: "list_at r (unregister_handlers t s) = list_at r s" for r
    by (cases r) (simp_all add: unregister_handlers_def)
  show [simp]: "tcb_table (unregister_handlers t s) = tcb_table s"
    by (simp add: unregister_handlers_def)
  show "repr (unregister_handlers t s) Q = repr s Q" by (simp add: repr_def)
  show "on_cpu (unregister_handlers t s) u = on_cpu s u"
    "wf_cpus (unregister_handlers t s) = wf_cpus s"
    by (simp_all add: on_cpu_def wf_cpus_def unregister_handlers_def)
qed

lemma kinv_unregister_handlers [simp]:
  "kinv_ex X (unregister_handlers t s) Q = kinv_ex X s Q"
  by (simp add: kinv_ex_def wf_thread_def)

lemma strip_unregister_handlers [simp]:
  "strip (unregister_handlers t s) = unregister_handlers t (strip s)"
  by (rule kstate.equality) (simp_all add: strip_def unregister_handlers_def cong: if_cong)

lemma thread_release_kinv:
  assumes "kinv s Q" and "is_thread t" and "thread_state (tcb_table s t) \<notin> {INACTIVE, SLEEPING}"
  defines "W \<equiv> set (Q (SenderQueue t)) - {t}"
  shows "\<exists>s'. thread_release t s = Ret E_OK s' \<and>
           kinv_ex W s' ((Qdel t Q)(SenderQueue t := [])) \<and>
           strip s' = upd_tcb t (\<lambda>c. c\<lparr>thread_state := INACTIVE\<rparr>)
             (unregister_handlers t (unreach_all W (detached t (strip s))))"
proof -
  have it: "in_table t" using assms(2) by auto
  let ?r = "SenderQueue t"
  obtain s1 where s1: "thread_remove_from_list t s = Ret E_OK s1" "kinv_ex {t} s1 (Qdel t Q)"
      "strip s1 = detached t (strip s)"
    using thread_remove_from_list_kinv [OF assms(1-3)] by blast
  note f = detached_wf [OF assms(1,2) s1(3)]
  have W: "set (Qdel t Q ?r) = W" by (auto simp: Qdel_def W_def)
  have nr: "thread_state (tcb_table s1 x) \<noteq> RUNNING" if "x \<in> W" for x
  proof -
    have "x \<in> set (Q ?r)" using that by (simp add: W_def)
    then have "loc (tcb_table s x) = Some ?r"
      using kinv_fields(3) [OF assms(1)] repr_thread [OF kinv_exD(1) [OF assms(1)]] by auto
    then show ?thesis using f(4) [of x] by (auto simp: loc_def)
  qed
  obtain s2 where s2: "release_waiters TCB_TABLE_SIZE ?r s1 = Ret () s2"
      "kinv_ex ({t} \<union> W) s2 ((Qdel t Q)(?r := []))" "strip s2 = unreach_all W (strip s1)"
    using release_waiters_kinv [OF s1(2), of ?r TCB_TABLE_SIZE] W nr it
      repr_bound [OF kinv_exD(1) [OF s1(2)]] by auto
  let ?s3 = "upd_tcb t (\<lambda>c. c\<lparr>thread_state := INACTIVE\<rparr>) (unregister_handlers t s2)"
  have l: "release_waiters TCB_TABLE_SIZE (LinkFields t) s2 = Ret () s2"
    using kinv_exD(4) [OF s2(2)] by (intro release_waiters_links [OF kinv_exD(1) [OF s2(2)] assms(2)]) simp
  have "t \<notin> W" by (simp add: W_def)
  then have u: "priority (tcb_table s2 t) = priority (tcb_table s1 t)"
    "wait_tid (tcb_table s2 t) = wait_tid (tcb_table s1 t)"
    using strip_fields(1,2) [OF s2(3), of t] by (simp_all add: unreach_all_def)
  have "kinv_ex ({t} \<union> W) ?s3 ((Qdel t Q)(?r := []))"
    by (rule kinv_upd_detached) (use s2(2) in \<open>simp_all del: fun_upd_apply\<close>)
  then have "kinv_ex (({t} \<union> W) - {t}) ?s3 ((Qdel t Q)(?r := []))"
    by (rule kinv_attach_none) (use f(1,2) u in \<open>simp_all add: loc_def\<close>)
  moreover have "thread_release t s = Ret E_OK ?s3"
    using s1(1) s2(1) l it assms(3) by (auto simp: thread_release_def kexec error_codes)
  moreover have "({t} \<union> W) - {t} = W" using \<open>t \<notin> W\<close> by auto
  ultimately show ?thesis using s1(3) s2(3) by (auto simp del: fun_upd_apply)
qed

end
