(* ===== verification/Schedule.thy ===== *)
theory Schedule
  imports Thread
begin

text \<open>
  The scheduler (\<^verbatim>\<open>kernel/schedule.c\<close>): strict priorities, first come first served within a
  priority. \<open>schedule\<close> is proved to implement the specification \<open>pick\<close> on the abstract
  queues and to keep the kernel invariant.
\<close>

section \<open>Operations\<close>

text \<open>
  The loop of \<^verbatim>\<open>schedule\<close>; the argument \<open>Suc prio\<close> stands for the loop variable
  \<^verbatim>\<open>priority\<close>, \<open>0\<close> for its final value \<open>-1\<close>.
\<close>

primrec schedule_loop :: "nat \<Rightarrow> tid option \<Rightarrow> nat \<Rightarrow> nat \<Rightarrow> tid option kernel" where
  "schedule_loop processor_id current_thread min_priority 0 = kret None"
| "schedule_loop processor_id current_thread min_priority (Suc prio) =
     (if prio < min_priority then kret None
      else kbind (ld_list (RunQueue prio)) (\<lambda>l.
        if \<not> LIST_IS_EMPTY l then
          kbind (list_dequeue (RunQueue prio)) (\<lambda>new_thread.
          kthen (case current_thread of
                   None \<Rightarrow> kskip
                 | Some c \<Rightarrow> kseq [wr c (\<lambda>c. c\<lparr>thread_state := READY\<rparr>),
                     kbind (rd c priority) (\<lambda>p. list_enqueue (RunQueue (unat p)) c)])
         (kbind (deref new_thread) (\<lambda>new_thread.
          kthen (kseq [wr new_thread (\<lambda>c. c\<lparr>thread_state := RUNNING\<rparr>),
                       kmod (set_running processor_id (Some new_thread))])
         (kret (Some new_thread)))))
        else schedule_loop processor_id current_thread min_priority prio))"

definition schedule :: "nat \<Rightarrow> tid kernel" where
  "schedule processor_id =
     kthen (kguard (processor_id < MAX_PROCESSORS) OutOfBounds)
    (kbind (kget (\<lambda>s. running_thread (processors s processor_id))) (\<lambda>current_thread.
     kbind (case current_thread of
              None \<Rightarrow> kret MIN_PRIORITY
            | Some c \<Rightarrow> kbind (rd c priority) (\<lambda>p. kret (unat p))) (\<lambda>min_priority.
     kbind (schedule_loop processor_id current_thread min_priority (Suc MAX_PRIORITY)) (\<lambda>r.
     case r of
       Some new_thread \<Rightarrow> kret new_thread
     | None \<Rightarrow> (case current_thread of Some c \<Rightarrow> kret c | None \<Rightarrow> kfail Panic)))))"

text \<open>
  The saved state is an in-out parameter: the argument is \<^verbatim>\<open>*state\<close> on entry, the result
  \<^verbatim>\<open>*state\<close> on return. The image restored for the new thread is read through the old
  thread's \<^verbatim>\<open>fxsave_state\<close>, as in the source.
\<close>

definition switch_stacks :: "ExecutionState \<Rightarrow> ExecutionState kernel" where
  "switch_stacks state =
     kbind (kget thread_get_current) (\<lambda>old_tcb.
     kbind (case old_tcb of
              None \<Rightarrow> kret True
            | Some t \<Rightarrow> kbind (rd t thread_state) (\<lambda>st. kret (st \<noteq> RUNNING))) (\<lambda>leave.
     if \<not> leave then kret state
     else kbind (schedule processor_get_current) (\<lambda>new_tcb.
       if Some new_tcb = old_tcb then kret state
       else
         kbind (rd new_tcb root_pmap) (\<lambda>pmap.
         kthen (kmod (\<lambda>s. if cr3 s AND CR3_BASE_MASK \<noteq> pmap AND CR3_BASE_MASK
                          then set_cr3 pmap s else s))
        (kthen (case old_tcb of
                  None \<Rightarrow> kskip
                | Some t \<Rightarrow> kseq [wr t (\<lambda>c. c\<lparr>user_exec_state := state\<rparr>),
                    kbind (rd t fxsave_state) (\<lambda>a. kwhen (a \<noteq> 0) (kmod (fxsave a)))])
        (kthen (kbind (rd new_tcb fxsave_state) (\<lambda>a. kwhen (a \<noteq> 0)
                  (kbind (deref old_tcb) (\<lambda>t. kbind (rd t fxsave_state) (\<lambda>b. kmod (fxrstor b))))))
        (rd new_tcb user_exec_state)))))))"

section \<open>Specification\<close>

text \<open>
  The priority served: the greatest one, not below \<open>lo\<close>, whose queue is not empty. The queue
  is served at its far end, where the thread waiting longest is.
\<close>

fun pick :: "queues \<Rightarrow> nat \<Rightarrow> nat \<Rightarrow> nat option" where
  "pick Q lo 0 = None"
| "pick Q lo (Suc p) =
     (if p < lo then None else if Q (RunQueue p) \<noteq> [] then Some p else pick Q lo p)"

lemma pick_Some:
  "pick Q lo n = Some p \<longleftrightarrow>
     lo \<le> p \<and> p < n \<and> Q (RunQueue p) \<noteq> [] \<and> (\<forall>q. p < q \<longrightarrow> q < n \<longrightarrow> Q (RunQueue q) = [])"
  by (induction n) (auto simp: less_Suc_eq)

lemma pick_None:
  "pick Q lo n = None \<longleftrightarrow> (\<forall>p. lo \<le> p \<longrightarrow> p < n \<longrightarrow> Q (RunQueue p) = [])"
  by (induction n) (auto simp: less_Suc_eq, metis leI)

definition dispatched :: "nat \<Rightarrow> tid option \<Rightarrow> tid \<Rightarrow> kstate \<Rightarrow> kstate" where
  "dispatched pid cur t s =
     set_running pid (Some t) (upd_tcb t (\<lambda>c. c\<lparr>thread_state := RUNNING\<rparr>)
       (case cur of None \<Rightarrow> s | Some c \<Rightarrow> upd_tcb c (\<lambda>c. c\<lparr>thread_state := READY\<rparr>) s))"

definition requeued :: "kstate \<Rightarrow> tid option \<Rightarrow> queues \<Rightarrow> queues" where
  "requeued s cur Q = (case cur of None \<Rightarrow> Q
     | Some c \<Rightarrow> Q(run_queue s c := c # Q (run_queue s c)))"

section \<open>The new state\<close>

lemma list_at_set_running [simp]: "list_at r (set_running p t s) = list_at r s"
  by (cases r) simp_all

lemma repr_set_running [simp]: "repr (set_running p t s) Q = repr s Q"
  by (simp add: repr_def)

lemma strip_set_running [simp]: "strip (set_running p t s) = set_running p t (strip s)"
  by (simp add: strip_def set_running_def)

lemma dispatched_tcb:
  "tcb_table (dispatched pid cur t s) u =
     (if u = t then (tcb_table (case cur of None \<Rightarrow> s | Some c \<Rightarrow>
         upd_tcb c (\<lambda>c. c\<lparr>thread_state := READY\<rparr>) s) t)\<lparr>thread_state := RUNNING\<rparr>
      else if cur = Some u then (tcb_table s u)\<lparr>thread_state := READY\<rparr> else tcb_table s u)"
  by (auto simp: dispatched_def split: option.split)

lemma dispatched_cpus:
  "processors (dispatched pid cur t s) =
     (processors s)(pid := (processors s pid)\<lparr>running_thread := Some t\<rparr>)"
  "num_processors (dispatched pid cur t s) = num_processors s"
  by (auto simp: dispatched_def split: option.split)

lemma kinv_dispatched:
  assumes k: "kinv s Q" and pid: "pid < num_processors s"
    and cur: "running_thread (processors s pid) = cur"
    and x: "Q (RunQueue p) = xs @ [x]"
    and r: "repr s' (requeued s cur (Q(RunQueue p := xs)))"
    and st: "strip s' = dispatched pid cur x (strip s)"
  shows "kinv s' (requeued s cur (Q(RunQueue p := xs)))"
proof -
  let ?Q = "requeued s cur (Q(RunQueue p := xs))"
  have tx: "is_thread x" using repr_thread [OF kinv_exD(1) [OF k], of x "RunQueue p"] x by simp
  have lx: "loc (tcb_table s x) = Some (RunQueue p)" using kinv_fields(3) [OF k tx, of "RunQueue p"] x by simp
  then have sx: "thread_state (tcb_table s x) = READY"
    by (auto simp: loc_def split: thread_state_t.splits if_splits)
  then have nx: "\<not> on_cpu s x" using kinv_fields(4) [OF k tx] by simp
  have oc: "on_cpu s c" if "cur = Some c" for c using that pid cur by (auto simp: on_cpu_def)
  then have ne: "cur \<noteq> Some x" using nx by auto
  note W = kinv_exD(2) [OF k, unfolded wf_cpus_def]
  have tc: "is_thread c \<and> thread_state (tcb_table s c) = RUNNING" if "cur = Some c" for c
    using oc [OF that] W kinv_fields(4) [OF k] by auto
  note P = strip_fields(8) [OF st] strip_fields(7) [OF st]
  have cpus: "on_cpu s' u \<longleftrightarrow> u = x \<or> on_cpu s u \<and> cur \<noteq> Some u" for u
    using pid cur W unfolding on_cpu_def P dispatched_cpus thread_state_strip
    by (auto split: if_splits)
  have wc: "wf_cpus s'"
    using W tx nx cpus unfolding wf_cpus_def P dispatched_cpus thread_state_strip
    by (auto simp: on_cpu_def split: if_splits)
  have dx: "x \<notin> set xs"
  proof -
    have "queue_ref (RunQueue p)" using kinv_on_list [OF k tx lx] by simp
    then have "distinct (Q (RunQueue p))" using reprD(1) [OF kinv_exD(1) [OF k]] by (simp add: dll_def)
    then show ?thesis using x by simp
  qed
  have tb: "priority (tcb_table s' u) = priority (tcb_table s u)"
    "wait_tid (tcb_table s' u) = wait_tid (tcb_table s u)"
    "thread_state (tcb_table s' u) = (if u = x then RUNNING else if cur = Some u then READY
       else thread_state (tcb_table s u))" for u
    using strip_fields(1-3) [OF st, of u] by (auto simp: dispatched_tcb split: option.split)
  have lo: "loc (tcb_table s' u) = (if u = x then None else if cur = Some u then Some (run_queue s u)
       else loc (tcb_table s u))" for u
    using tb [of u] loc_cong [of "tcb_table s' u" "tcb_table s u"]
    by (auto simp: loc_def run_queue_def)
  have mem: "u \<in> set (?Q r) \<longleftrightarrow> loc (tcb_table s' u) = Some r" if "is_thread u" for u r
  proof -
    have m: "u \<in> set (Q r) \<longleftrightarrow> loc (tcb_table s u) = Some r" by (rule kinv_fields(3) [OF k that]) simp
    have b: "u \<in> set ((Q(RunQueue p := xs)) r) \<longleftrightarrow> u \<noteq> x \<and> loc (tcb_table s u) = Some r"
    proof (cases "r = RunQueue p")
      case True
      then show ?thesis using m x dx by (cases "u = x") auto
    next
      case False
      then show ?thesis using m lx by auto
    qed
    have c: "cur = Some u \<Longrightarrow> loc (tcb_table s u) = None" using tc by (simp add: loc_def)
    show ?thesis
    proof (cases cur)
      case None
      then show ?thesis using b unfolding lo requeued_def by simp
    next
      case (Some v)
      then have "u \<in> set (?Q r) \<longleftrightarrow> u = v \<and> r = run_queue s v \<or> u \<in> set ((Q(RunQueue p := xs)) r)"
        by (cases "r = run_queue s v") (simp_all add: requeued_def)
      then show ?thesis using b c ne Some unfolding lo by (cases "u = v") auto
    qed
  qed
  have "wf_thread s' ?Q u" if "is_thread u" for u
    using kinv_fields(1,2,4) [OF k that] mem [OF that] tb [of u] cpus [of u] ne tc [of u]
    by (auto simp: wf_thread_def Let_def)
  then show ?thesis using r wc by (simp add: kinv_ex_def)
qed

section \<open>Correctness\<close>

lemma schedule_step:
  assumes k: "kinv s Q" and pid: "pid < num_processors s"
    and cur: "running_thread (processors s pid) = cur"
    and x: "Q (RunQueue p) = xs @ [x]" and p: "lo \<le> p"
  shows "\<exists>s'. schedule_loop pid cur lo (Suc p) s = Ret (Some x) s' \<and>
           kinv s' (requeued s cur (Q(RunQueue p := xs))) \<and>
           strip s' = dispatched pid cur x (strip s)"
proof -
  have tx: "is_thread x" using repr_thread [OF kinv_exD(1) [OF k], of x "RunQueue p"] x by simp
  have lx: "loc (tcb_table s x) = Some (RunQueue p)"
    using kinv_fields(3) [OF k tx, of "RunQueue p"] x by simp
  have q: "queue_ref (RunQueue p)" by (rule kinv_on_list [OF k tx lx])
  have ne: "\<not> LIST_IS_EMPTY (list_at (RunQueue p) s)"
    using dll_empty_iff [OF reprD(1) [OF kinv_exD(1) [OF k] q]] x by simp
  obtain s1 where s1: "list_dequeue (RunQueue p) s = Ret (Some x) s1"
      "repr s1 (Q(RunQueue p := xs))" "strip s1 = strip s"
    using kq.deq [OF kinv_exD(1) [OF k] q x] by blast
  have "\<exists>s2. (case cur of None \<Rightarrow> kskip
       | Some c \<Rightarrow> kseq [wr c (\<lambda>c. c\<lparr>thread_state := READY\<rparr>),
           kbind (rd c priority) (\<lambda>p. list_enqueue (RunQueue (unat p)) c)]) s1 = Ret () s2 \<and>
     repr s2 (requeued s cur (Q(RunQueue p := xs))) \<and>
     strip s2 = (case cur of None \<Rightarrow> strip s
       | Some c \<Rightarrow> upd_tcb c (\<lambda>c. c\<lparr>thread_state := READY\<rparr>) (strip s))"
  proof (cases cur)
    case None
    then show ?thesis using s1 by (simp add: kexec requeued_def del: fun_upd_apply)
  next
    case (Some c)
    then have oc: "on_cpu s c" using pid cur by (auto simp: on_cpu_def)
    then have tc: "is_thread c" using kinv_exD(2) [OF k] by (auto simp: wf_cpus_def)
    have "loc (tcb_table s c) = None"
      using kinv_fields(4) [OF k tc] oc by (simp add: loc_def)
    then have a1: "c \<notin> members (Q(RunQueue p := xs))"
      using kinv_fields(3) [OF k tc] kinv_fields(3) [OF k tc, of "RunQueue p"] x
      by (auto simp: members_def split: if_splits)
    have a2: "repr (upd_tcb c (\<lambda>c. c\<lparr>thread_state := READY\<rparr>) s1) (Q(RunQueue p := xs))"
      by (rule repr_upd_keeps [OF s1(2)]) simp
    have a3: "queue_ref (run_queue s c)"
      using kinv_fields(1) [OF k tc] by (simp add: run_queue_def)
    have rq: "requeued s cur (Q(RunQueue p := xs)) = (Q(RunQueue p := xs))
        (run_queue s c := c # (Q(RunQueue p := xs)) (run_queue s c))"
      using Some by (simp add: requeued_def)
    obtain s2 where "list_enqueue (run_queue s c) c
          (upd_tcb c (\<lambda>c. c\<lparr>thread_state := READY\<rparr>) s1) = Ret () s2"
        "repr s2 (requeued s cur (Q(RunQueue p := xs)))"
        "strip s2 = strip (upd_tcb c (\<lambda>c. c\<lparr>thread_state := READY\<rparr>) s1)"
      using kq.enq [OF a2 a3 tc a1] unfolding rq by blast
    moreover have "priority (tcb_table s1 c) = priority (tcb_table s c)"
      using strip_fields(1) [OF s1(3)] by simp
    ultimately show ?thesis
      using Some tc s1(3) by (auto simp: kexec run_queue_def)
  qed
  then obtain s2 where s2: "(case cur of None \<Rightarrow> kskip
       | Some c \<Rightarrow> kseq [wr c (\<lambda>c. c\<lparr>thread_state := READY\<rparr>),
           kbind (rd c priority) (\<lambda>p. list_enqueue (RunQueue (unat p)) c)]) s1 = Ret () s2"
     "repr s2 (requeued s cur (Q(RunQueue p := xs)))"
     "strip s2 = (case cur of None \<Rightarrow> strip s
       | Some c \<Rightarrow> upd_tcb c (\<lambda>c. c\<lparr>thread_state := READY\<rparr>) (strip s))"
    by blast
  let ?s3 = "set_running pid (Some x) (upd_tcb x (\<lambda>c. c\<lparr>thread_state := RUNNING\<rparr>) s2)"
  have st: "strip ?s3 = dispatched pid cur x (strip s)"
    using s2(3) by (simp add: dispatched_def)
  have "schedule_loop pid cur lo (Suc p) s = Ret (Some x) ?s3"
    using ne q tx p s1(1) s2(1)
    by (auto simp: kthen_def kbind_Ret ld_list_def deref_def kret_def kmod_def wr_def kskip_def)
  moreover have "kinv ?s3 (requeued s cur (Q(RunQueue p := xs)))"
    by (rule kinv_dispatched [OF k pid cur x _ st]) (use s2(2) in \<open>simp add: repr_upd_keeps\<close>)
  ultimately show ?thesis using st by blast
qed

lemma schedule_loop_skip:
  assumes "repr s Q" and "queue_ref (RunQueue p)" and "Q (RunQueue p) = []"
  shows "schedule_loop pid cur lo (Suc p) s =
     (if p < lo then Ret None s else schedule_loop pid cur lo p s)"
  using dll_empty_iff [OF reprD(1) [OF assms(1,2)]] assms(2,3)
  by (simp add: kexec)

lemma schedule_loop_pick:
  assumes k: "kinv s Q" and pid: "pid < num_processors s"
    and cur: "running_thread (processors s pid) = cur" and n: "n \<le> NUM_PRIORITIES"
  shows "case pick Q lo n of
       None \<Rightarrow> schedule_loop pid cur lo n s = Ret None s
     | Some p \<Rightarrow> \<exists>s'. schedule_loop pid cur lo n s = Ret (Some (last (Q (RunQueue p)))) s' \<and>
           kinv s' (requeued s cur (Q(RunQueue p := butlast (Q (RunQueue p))))) \<and>
           strip s' = dispatched pid cur (last (Q (RunQueue p))) (strip s)"
  using n
proof (induction n)
  case (Suc n)
  then have q: "queue_ref (RunQueue n)" by simp
  show ?case
  proof (cases "Q (RunQueue n) = []")
    case True
    then show ?thesis
      using Suc unfolding schedule_loop_skip [OF kinv_exD(1) [OF k] q True]
      by (simp del: schedule_loop.simps split: option.splits)
  next
    case False
    then have "Q (RunQueue n) = butlast (Q (RunQueue n)) @ [last (Q (RunQueue n))]" by simp
    then show ?thesis
      using False schedule_step [OF k pid cur, of n "butlast (Q (RunQueue n))" _ lo]
      by (cases "n < lo") (auto simp: kret_def simp del: fun_upd_apply)
  qed
qed (simp add: kret_def)

definition min_priority_of :: "kstate \<Rightarrow> nat \<Rightarrow> nat" where
  "min_priority_of s pid = (case running_thread (processors s pid) of
     None \<Rightarrow> MIN_PRIORITY | Some c \<Rightarrow> unat (priority (tcb_table s c)))"

lemma schedule_refines:
  assumes k: "kinv s Q" and pid: "pid < num_processors s"
  defines "cur \<equiv> running_thread (processors s pid)"
  shows "case pick Q (min_priority_of s pid) NUM_PRIORITIES of
       Some p \<Rightarrow> \<exists>s'. schedule pid s = Ret (last (Q (RunQueue p))) s' \<and>
           kinv s' (requeued s cur (Q(RunQueue p := butlast (Q (RunQueue p))))) \<and>
           strip s' = dispatched pid cur (last (Q (RunQueue p))) (strip s)
     | None \<Rightarrow> schedule pid s = (case cur of Some c \<Rightarrow> Ret c s | None \<Rightarrow> Fault Panic)"
proof -
  let ?lo = "min_priority_of s pid"
  have b: "pid < MAX_PROCESSORS" using kinv_exD(2) [OF k] pid by (auto simp: wf_cpus_def)
  have tc: "in_table c" if "cur = Some c" for c
    using kinv_exD(2) [OF k] pid that by (auto simp: wf_cpus_def on_cpu_def cur_def)
  have "schedule pid s = kbind (schedule_loop pid cur ?lo NUM_PRIORITIES) (\<lambda>r. case r of
      Some new_thread \<Rightarrow> kret new_thread
    | None \<Rightarrow> (case cur of Some c \<Rightarrow> kret c | None \<Rightarrow> kfail Panic)) s"
    using b tc
    by (auto simp: schedule_def kthen_def kguard_def kget_def kret_def rd_def kbind_Ret cur_def
        min_priority_of_def table_sizes split: option.split simp del: schedule_loop.simps)
  then show ?thesis
    using schedule_loop_pick [OF k pid refl le_refl, of ?lo, folded cur_def]
    by (auto simp: kbind_def kret_def kfail_def split: option.split_asm option.split
        simp del: fun_upd_apply)
qed

end
