(* ===== verification/Paging_Correct.thy ===== *)
theory Paging_Correct
  imports Paging
begin

text \<open>
  Correctness of the paging layer: what the temporary window shows after \<open>map_temp\<close>, that the
  page map accessors read and write the entry in physical memory, that \<open>poke\<close> and \<open>peek\<close>
  copy across page boundaries, and that \<open>poke_virt\<close> reaches another address space through
  its page tables.
\<close>

section \<open>Pages\<close>

lemma ALIGN_DOWN_page: "ALIGN_DOWN a PAGE_SIZE = a AND NOT (mask 12)"
  by (simp add: ALIGN_DOWN_def PAGE_SIZE_def mask_eq_exp_minus_1)

lemma page_split: "ALIGN_DOWN a PAGE_SIZE + PAGE_OFFSET a = a"
  unfolding ALIGN_DOWN_page PAGE_OFFSET_mask by (rule and_mask_split)

lemma PAGE_OFFSET_take: "PAGE_OFFSET a = take_bit 12 a"
  by (simp add: PAGE_OFFSET_mask take_bit_eq_mask)

lemma unat_PAGE_SIZE [simp]: "unat PAGE_SIZE = 4096"
  by (simp add: PAGE_SIZE_def)

lemma unat_PAGE_OFFSET: "unat (PAGE_OFFSET a) = unat a mod 4096"
  unfolding PAGE_OFFSET_take unsigned_take_bit_eq by (simp add: take_bit_eq_mod)

lemma bit_lt_page:
  assumes "(o' :: 32 word) < PAGE_SIZE"
  shows "bit o' n \<Longrightarrow> n < 12"
proof -
  have "unat (take_bit 12 o') = unat o'"
    using assms unfolding unsigned_take_bit_eq by (simp add: take_bit_eq_mod word_less_nat_alt)
  then have "take_bit 12 o' = o'" by (rule unsigned_word_eqI)
  then show "bit o' n \<Longrightarrow> n < 12" by (metis bit_take_bit_iff)
qed

lemma page_plus_or:
  assumes "(o' :: 32 word) < PAGE_SIZE"
  shows "ALIGN_DOWN a PAGE_SIZE + o' = ALIGN_DOWN a PAGE_SIZE OR o'"
proof -
  have "ALIGN_DOWN a PAGE_SIZE AND o' = 0"
    unfolding ALIGN_DOWN_page using bit_lt_page [OF assms]
    by (intro bit_word_eqI) (auto simp: bit_simps)
  then show ?thesis by (simp add: disjunctive_add_eq_or)
qed

lemma page_plus:
  assumes "(o' :: 32 word) < PAGE_SIZE"
  shows "PAGE_OFFSET (ALIGN_DOWN a PAGE_SIZE + o') = o'"
    and "ALIGN_DOWN (ALIGN_DOWN a PAGE_SIZE + o') PAGE_SIZE = ALIGN_DOWN a PAGE_SIZE"
    and "drop_bit 12 (ALIGN_DOWN a PAGE_SIZE + o') = drop_bit 12 a"
proof -
  note b = bit_lt_page [OF assms]
  show "PAGE_OFFSET (ALIGN_DOWN a PAGE_SIZE + o') = o'"
    unfolding page_plus_or [OF assms] PAGE_OFFSET_mask
    by (rule bit_word_eqI) (auto simp: ALIGN_DOWN_page bit_simps dest: b)
  show "ALIGN_DOWN (ALIGN_DOWN a PAGE_SIZE + o') PAGE_SIZE = ALIGN_DOWN a PAGE_SIZE"
    unfolding page_plus_or [OF assms] unfolding ALIGN_DOWN_page
    by (rule bit_word_eqI) (auto simp: bit_simps dest: b)
  show "drop_bit 12 (ALIGN_DOWN a PAGE_SIZE + o') = drop_bit 12 a"
    unfolding page_plus_or [OF assms] unfolding ALIGN_DOWN_page
    by (rule bit_word_eqI) (auto simp: bit_simps dest: b bit_imp_le_length)
qed

lemma page_offset_step:
  assumes "unat (PAGE_OFFSET a) + i < unat PAGE_SIZE"
  shows "PAGE_OFFSET (a + of_nat i) = PAGE_OFFSET a + of_nat i"
    and "ALIGN_DOWN (a + of_nat i) PAGE_SIZE = ALIGN_DOWN a PAGE_SIZE"
    and "drop_bit 12 (a + of_nat i) = drop_bit 12 a"
proof -
  have "unat (PAGE_OFFSET a + of_nat i) = unat (PAGE_OFFSET a) + i"
    using assms by (subst unat_add_lem [THEN iffD1]) (simp_all add: unat_of_nat_small)
  then have l: "PAGE_OFFSET a + of_nat i < PAGE_SIZE"
    using assms by (simp add: word_less_nat_alt)
  have e: "a + of_nat i = ALIGN_DOWN a PAGE_SIZE + (PAGE_OFFSET a + of_nat i)"
    using page_split [of a] by (simp add: add.assoc [symmetric])
  show "PAGE_OFFSET (a + of_nat i) = PAGE_OFFSET a + of_nat i"
    "ALIGN_DOWN (a + of_nat i) PAGE_SIZE = ALIGN_DOWN a PAGE_SIZE"
    "drop_bit 12 (a + of_nat i) = drop_bit 12 a"
    unfolding e using page_plus [OF l] by simp_all
qed

lemma temp_pte_fields:
  "bf_on is_present (temp_pte p)" "bf_on is_read_write (temp_pte p)" "\<not> bf_on is_user (temp_pte p)"
  "PBASE_TO_PADDR (bf_get entry_base (temp_pte p)) = ALIGN_DOWN p PAGE_SIZE"
proof -
  show "bf_on is_present (temp_pte p)" "bf_on is_read_write (temp_pte p)" "\<not> bf_on is_user (temp_pte p)"
    by (simp_all add: temp_pte_def fields bf_simps, simp add: bf_on_def)
  have "bf_get entry_base (temp_pte p) = take_bit 20 (drop_bit 12 p)"
    by (simp add: temp_pte_def fields bf_simps PADDR_TO_PBASE_def)
  then show "PBASE_TO_PADDR (bf_get entry_base (temp_pte p)) = ALIGN_DOWN p PAGE_SIZE"
    by (intro bit_word_eqI) (auto simp: PBASE_TO_PADDR_def ALIGN_DOWN_page bit_simps)
qed

section \<open>The window\<close>

definition map_count :: "addr \<Rightarrow> nat \<Rightarrow> nat" where
  "map_count addr n = min n ((unat KERNEL_TEMP_END - unat addr) div unat PAGE_SIZE)"

lemma map_count_0 [simp]: "map_count addr 0 = 0"
  by (simp add: map_count_def)

lemma map_count_Suc:
  assumes "PAGE_OFFSET addr = 0"
  shows "map_count addr (Suc n) =
     (if addr < KERNEL_TEMP_END then Suc (map_count (addr + PAGE_SIZE) n) else 0)"
proof -
  have a: "unat addr mod 4096 = 0"
    using unat_PAGE_OFFSET [of addr] assms by simp
  obtain k where k: "unat addr = 4096 * k" using a by auto
  define N :: nat where "N = 1047552"
  have e: "unat KERNEL_TEMP_END = 4096 * N" by (simp add: KERNEL_TEMP_END_def N_def)
  have d: "(4096 * N - 4096 * i) div 4096 = N - i" for i
    by (simp flip: diff_mult_distrib2)
  show ?thesis
  proof (cases "addr < KERNEL_TEMP_END")
    case True
    then have l: "k < N" by (simp add: word_less_nat_alt e k)
    then have "unat (addr + PAGE_SIZE) = 4096 * Suc k"
      by (subst unat_add_lem [THEN iffD1]) (simp_all add: k N_def)
    then show ?thesis
      using True l by (simp only: map_count_def e k d unat_PAGE_SIZE) simp
  next
    case False
    then show ?thesis by (simp add: map_count_def e word_less_nat_alt)
  qed
qed

lemma page_aligned_step: "PAGE_OFFSET a = 0 \<Longrightarrow> PAGE_OFFSET (a + PAGE_SIZE) = 0"
  using unat_PAGE_OFFSET [of a] unat_PAGE_OFFSET [of "a + PAGE_SIZE"]
  by (simp add: unat_word_ariths mod_mod_cancel unat_eq_zero)

lemma map_temp_loop_eq:
  assumes "PAGE_OFFSET addr = 0"
  shows "map_temp_loop addr paddr pte i n s =
     Ret (i + of_nat (map_count addr n))
       (s\<lparr>klower_mem_ptab := (\<lambda>j. if pte \<le> j \<and> j < pte + map_count addr n
            then temp_pte (paddr + of_nat (j - pte) * PAGE_SIZE) else klower_mem_ptab s j)\<rparr>)"
  using assms
proof (induction n arbitrary: addr paddr pte i s)
  case 0
  have "(\<lambda>j. if pte \<le> j \<and> j < pte then v j else klower_mem_ptab s j) = klower_mem_ptab s" for v
    by (auto simp: fun_eq_iff)
  then show ?case by (simp add: kexec)
next
  case (Suc n)
  have z: "(\<lambda>j. if pte \<le> j \<and> j < pte then v j else klower_mem_ptab s j) = klower_mem_ptab s" for v
    by (auto simp: fun_eq_iff)
  show ?case
  proof (cases "addr < KERNEL_TEMP_END")
    case True
    let ?m = "map_count (addr + PAGE_SIZE) n"
    have "map_temp_loop addr paddr pte i (Suc n) s =
      map_temp_loop (addr + PAGE_SIZE) (paddr + PAGE_SIZE) (Suc pte) (i + 1) n
        (set_temp_pte pte (temp_pte paddr) s)"
      using True by (simp add: kexec)
    also have "\<dots> = Ret (i + of_nat (Suc ?m))
       (s\<lparr>klower_mem_ptab := (\<lambda>j. if pte \<le> j \<and> j < pte + Suc ?m
            then temp_pte (paddr + of_nat (j - pte) * PAGE_SIZE) else klower_mem_ptab s j)\<rparr>)"
    proof -
      have "(if Suc pte \<le> j \<and> j < Suc pte + ?m
             then temp_pte (paddr + PAGE_SIZE + of_nat (j - Suc pte) * PAGE_SIZE)
             else ((klower_mem_ptab s)(pte := temp_pte paddr)) j) =
            (if pte \<le> j \<and> j < pte + Suc ?m
             then temp_pte (paddr + of_nat (j - pte) * PAGE_SIZE) else klower_mem_ptab s j)" for j
      proof (cases "pte < j")
        case True
        then have "j - pte = Suc (j - Suc pte)" by simp
        with True show ?thesis by (simp add: algebra_simps)
      qed auto
      then show ?thesis
        unfolding Suc.IH [OF page_aligned_step [OF Suc.prems]]
        by (simp add: set_temp_pte_def cong: if_cong)
    qed
    finally show ?thesis using True by (simp add: map_count_Suc [OF Suc.prems])
  next
    case False
    then show ?thesis by (simp add: kexec map_count_Suc [OF Suc.prems] z)
  qed
qed

lemma map_temp_eq:
  "map_temp virt base count s =
     (let addr = ALIGN_DOWN virt PAGE_SIZE; pte = unat (PTE_INDEX addr);
          m = map_count addr (unat count) in
      if addr < KERNEL_TEMP_START then Ret 0 s
      else Ret (of_nat m)
        (s\<lparr>klower_mem_ptab := (\<lambda>j. if pte \<le> j \<and> j < pte + m
             then temp_pte (ALIGN_DOWN base PAGE_SIZE + of_nat (j - pte) * PAGE_SIZE)
             else klower_mem_ptab s j)\<rparr>))"
proof -
  have "PAGE_OFFSET (ALIGN_DOWN virt PAGE_SIZE) = 0"
    using page_plus(1) [of 0 virt] by (simp add: PAGE_SIZE_def)
  then show ?thesis by (simp add: map_temp_def map_temp_loop_eq Let_def kret_def)
qed

abbreviation temp_slot :: nat where "temp_slot \<equiv> 401"

lemma set_temp_pte_simps [simp]:
  "klower_mem_ptab (set_temp_pte i v s) = (klower_mem_ptab s)(i := v)"
  "phys (set_temp_pte i v s) = phys s" "cr3 (set_temp_pte i v s) = cr3 s"
  "mmu (set_temp_pte i v s) = mmu s" "tcb_table (set_temp_pte i v s) = tcb_table s"
  "get_root_page_map (set_temp_pte i v s) = get_root_page_map s"
  "set_temp_pte i v (set_temp_pte i w s) = set_temp_pte i v s"
  by (simp_all add: set_temp_pte_def get_root_page_map_def)

lemma window_consts:
  "ALIGN_DOWN KERNEL_TEMP_START PAGE_SIZE = KERNEL_TEMP_START"
  "PTE_INDEX KERNEL_TEMP_START = 401"
  "KERNEL_TEMP_START < KERNEL_TEMP_END"
  by (simp_all add: ALIGN_DOWN_def KERNEL_TEMP_START_def PAGE_SIZE_def PTE_INDEX_def
      KERNEL_TEMP_END_def drop_bit_eq_div)

lemma map_temp_one:
  "map_temp KERNEL_TEMP_START p 1 s = Ret 1 (set_temp_pte temp_slot (temp_pte (ALIGN_DOWN p PAGE_SIZE)) s)"
  by (simp add: map_temp_def Let_def window_consts kexec)

lemma unmap_temp_one: "unmap_temp KERNEL_TEMP_START 1 s = Ret 1 (set_temp_pte temp_slot 0 s)"
  by (simp add: unmap_temp_def Let_def window_consts kexec)

lemma window_offset:
  assumes "(o' :: 32 word) < PAGE_SIZE"
  shows "in_window (KERNEL_TEMP_START + o')" "PTE_INDEX (KERNEL_TEMP_START + o') = 401"
    "PAGE_OFFSET (KERNEL_TEMP_START + o') = o'"
proof -
  have u: "unat (KERNEL_TEMP_START + o') = unat KERNEL_TEMP_START + unat o'"
    using assms by (subst unat_add_lem [THEN iffD1]) (simp_all add: KERNEL_TEMP_START_def word_less_nat_alt)
  then show "in_window (KERNEL_TEMP_START + o')"
    using assms by (simp add: in_window_def word_le_nat_alt word_less_nat_alt)
      (simp add: KERNEL_TEMP_START_def KERNEL_TEMP_END_def)
  note p = page_plus(1,3) [OF assms, of KERNEL_TEMP_START, unfolded window_consts]
  show "PAGE_OFFSET (KERNEL_TEMP_START + o') = o'" by (rule p(1))
  show "PTE_INDEX (KERNEL_TEMP_START + o') = 401"
    using window_consts(2) unfolding PTE_INDEX_def p(2) .
qed

lemma translate_window:
  assumes "(o' :: 32 word) < PAGE_SIZE"
    and "klower_mem_ptab s temp_slot = temp_pte p"
  shows "translate s (KERNEL_TEMP_START + o') = Some (ALIGN_DOWN p PAGE_SIZE + o')"
  using window_offset [OF assms(1)] assms(2) temp_pte_fields [of p] by (simp add: translate_def)

section \<open>Page map entries\<close>

definition phys32 :: "(paddr \<Rightarrow> 8 word) \<Rightarrow> paddr \<Rightarrow> 32 word" where
  "phys32 m p = word_of_bytes (m p) (m (p + 1)) (m (p + 2)) (m (p + 3))"

definition put32 :: "paddr \<Rightarrow> 32 word \<Rightarrow> (paddr \<Rightarrow> 8 word) \<Rightarrow> paddr \<Rightarrow> 8 word" where
  "put32 p v m = m(p := byte_of 0 v, p + 1 := byte_of 1 v, p + 2 := byte_of 2 v, p + 3 := byte_of 3 v)"

lemma word_add_neq:
  "(p :: 32 word) + 1 \<noteq> p" "p + 2 \<noteq> p" "p + 3 \<noteq> p" "p + 2 \<noteq> p + 1" "p + 3 \<noteq> p + 1"
  "p + 3 \<noteq> p + 2" "p \<noteq> p + 1" "p \<noteq> p + 2" "p \<noteq> p + 3" "p + 1 \<noteq> p + 2" "p + 1 \<noteq> p + 3"
  "p + 2 \<noteq> p + 3"
  by (simp_all)

lemma phys32_put32: "phys32 (put32 p v m) p = v"
  by (simp add: phys32_def put32_def word_of_byte_of [unfolded One_nat_def] word_add_neq)

definition root_of :: "kstate \<Rightarrow> paddr \<Rightarrow> paddr" where
  "root_of s pbase = (if pbase = CURRENT_ROOT_PMAP then get_root_page_map s else pbase)"

definition entry_paddr :: "kstate \<Rightarrow> paddr \<Rightarrow> 32 word \<Rightarrow> paddr" where
  "entry_paddr s pbase entry = ALIGN_DOWN (root_of s pbase) PAGE_SIZE + 4 * entry"

lemma entry_offset:
  assumes "(entry :: 32 word) < 1024" and "k < (4 :: 32 word)"
  shows "4 * entry + k < PAGE_SIZE"
proof -
  have "unat (4 * entry) = 4 * unat entry"
    using assms(1) by (subst unat_mult_lem [THEN iffD1]) (simp_all add: word_less_nat_alt)
  then have "unat (4 * entry + k) = 4 * unat entry + unat k"
    using assms by (subst unat_add_lem [THEN iffD1]) (simp_all add: word_less_nat_alt)
  then show ?thesis using assms by (simp add: word_less_nat_alt)
qed

lemma translate_entry:
  assumes "(entry :: 32 word) < 1024" and "klower_mem_ptab s temp_slot = temp_pte p"
  shows "translate s (KERNEL_TEMP_START + 4 * entry) = Some (ALIGN_DOWN p PAGE_SIZE + 4 * entry)"
    "translate s (KERNEL_TEMP_START + 4 * entry + 1) = Some (ALIGN_DOWN p PAGE_SIZE + 4 * entry + 1)"
    "translate s (KERNEL_TEMP_START + 4 * entry + 2) = Some (ALIGN_DOWN p PAGE_SIZE + 4 * entry + 2)"
    "translate s (KERNEL_TEMP_START + 4 * entry + 3) = Some (ALIGN_DOWN p PAGE_SIZE + 4 * entry + 3)"
  using translate_window [OF entry_offset [OF assms(1)] assms(2), of 0]
    translate_window [OF entry_offset [OF assms(1)] assms(2), of 1]
    translate_window [OF entry_offset [OF assms(1)] assms(2), of 2]
    translate_window [OF entry_offset [OF assms(1)] assms(2), of 3]
  by (simp_all add: add.assoc)

lemma ALIGN_DOWN_idem [simp]: "ALIGN_DOWN (ALIGN_DOWN p PAGE_SIZE) PAGE_SIZE = ALIGN_DOWN p PAGE_SIZE"
  by (simp add: ALIGN_DOWN_def and.assoc)

lemma read_pmap_entry_eq:
  assumes "entry < 1024"
  shows "read_pmap_entry pbase entry s =
     Ret (E_OK, phys32 (phys s) (entry_paddr s pbase entry)) (set_temp_pte temp_slot 0 s)"
proof -
  let ?p = "ALIGN_DOWN (root_of s pbase) PAGE_SIZE"
  let ?s1 = "set_temp_pte temp_slot (temp_pte ?p) s"
  have t: "klower_mem_ptab ?s1 temp_slot = temp_pte ?p" by simp
  have "ld32 (KERNEL_TEMP_START + 4 * entry) ?s1 = Ret (phys32 (phys s) (?p + 4 * entry)) ?s1"
    using translate_entry [OF assms t] by (simp add: kexec phys32_def)
  then show ?thesis
    using assms
    by (simp add: read_pmap_entry_def kthen_def kbind_def kguard_def kget_def kret_def
        map_temp_one unmap_temp_one entry_paddr_def flip: root_of_def)
qed

lemma set_phys_simps [simp]:
  "phys (set_phys p v s) = (phys s)(p := v)" "klower_mem_ptab (set_phys p v s) = klower_mem_ptab s"
  "cr3 (set_phys p v s) = cr3 s" "mmu (set_phys p v s) = mmu s"
  "tcb_table (set_phys p v s) = tcb_table s"
  by (simp_all add: set_phys_def)

lemma write_pmap_entry_eq:
  assumes "entry < 1024"
  shows "write_pmap_entry pbase entry v s =
     Ret E_OK (set_temp_pte temp_slot 0
       (s\<lparr>phys := put32 (entry_paddr s pbase entry) v (phys s)\<rparr>))"
proof -
  let ?p = "ALIGN_DOWN (root_of s pbase) PAGE_SIZE"
  let ?s1 = "set_temp_pte temp_slot (temp_pte ?p) s"
  have "st32 (KERNEL_TEMP_START + 4 * entry) v ?s1 =
      Ret () (?s1\<lparr>phys := put32 (?p + 4 * entry) v (phys s)\<rparr>)"
    using translate_entry [OF assms, of _ ?p]
    by (simp add: st32_def kbind_def st8_def kskip_def) (simp add: set_phys_def put32_def)
  then show ?thesis
    using assms
    by (simp add: write_pmap_entry_def kthen_def kbind_def kguard_def kget_def kret_def
        map_temp_one unmap_temp_one entry_paddr_def flip: root_of_def)
      (simp add: set_temp_pte_def)
qed

lemma pmap_entry_out_of_range:
  assumes "\<not> entry < 1024"
  shows "read_pmap_entry pbase entry s = Fault AssertFail"
    "write_pmap_entry pbase entry v s = Fault AssertFail"
  using assms by (simp_all add: read_pmap_entry_def write_pmap_entry_def kexec)

lemma index_less: "PDE_INDEX a < 1024" "PTE_INDEX a < 1024"
proof -
  have "w AND 0x3FF < (1024 :: 32 word)" for w
    using word_and_le1 [of w "0x3FF :: 32 word"] by (simp add: word_le_nat_alt word_less_nat_alt)
  then show "PDE_INDEX a < 1024" "PTE_INDEX a < 1024"
    by (simp_all add: PDE_INDEX_def PTE_INDEX_def)
qed

section \<open>Copying into physical memory\<close>

definition put_bytes :: "paddr \<Rightarrow> 8 word list \<Rightarrow> (paddr \<Rightarrow> 8 word) \<Rightarrow> paddr \<Rightarrow> 8 word" where
  "put_bytes p xs m = (\<lambda>q. if unat (q - p) < length xs then xs ! unat (q - p) else m q)"

definition range_of :: "paddr \<Rightarrow> nat \<Rightarrow> paddr set" where
  "range_of p n = {q. unat (q - p) < n}"

lemma put_bytes_Nil [simp]: "put_bytes p [] m = m"
  by (simp add: put_bytes_def)

lemma unat_diff_Suc:
  fixes p q :: "32 word"
  assumes "q \<noteq> p"
  shows "unat (q - p) = Suc (unat (q - (p + 1)))"
proof -
  have "q - p \<noteq> 0" using assms by simp
  then have "unat (q - p) = Suc (unat (q - p - 1))"
    by (metis Suc_pred' unat_gt_0 unat_minus_one)
  then show ?thesis by (simp add: algebra_simps)
qed

lemma put_bytes_Cons:
  assumes "length xs < 2 ^ 32"
  shows "put_bytes p (x # xs) m = put_bytes (p + 1) xs (m(p := x))"
proof
  fix q
  show "put_bytes p (x # xs) m q = put_bytes (p + 1) xs (m(p := x)) q"
  proof (cases "q = p")
    case True
    have "unat (- 1 :: 32 word) = 2 ^ 32 - 1"
      by (simp add: unsigned_minus_1_eq_mask mask_eq_exp_minus_1)
    then show ?thesis using True assms by (auto simp: put_bytes_def)
  next
    case False
    then show ?thesis using unat_diff_Suc [OF False] by (simp add: put_bytes_def)
  qed
qed

lemma put_bytes_append:
  assumes "length (xs @ ys) \<le> 2 ^ 32"
  shows "put_bytes p (xs @ ys) m = put_bytes (p + of_nat (length xs)) ys (put_bytes p xs m)"
  using assms
proof (induction xs arbitrary: p m)
  case (Cons x xs)
  then show ?case by (simp add: put_bytes_Cons ac_simps)
qed simp

text \<open>
  \<open>vreads s R a b\<close>: a kernel read at the virtual address \<open>a\<close> outside the window gives \<open>b\<close>,
  and goes on doing so when memory is changed inside \<open>R\<close> only.
\<close>

definition vreads :: "kstate \<Rightarrow> paddr set \<Rightarrow> addr \<Rightarrow> 8 word \<Rightarrow> bool" where
  "vreads s R a b \<longleftrightarrow> \<not> in_window a \<and>
     (\<exists>pa. pa \<notin> R \<and> phys s pa = b \<and>
        (\<forall>m. (\<forall>p. p \<notin> R \<longrightarrow> m p = phys s p) \<longrightarrow> mmu s m (cr3 s) a = Some pa))"

text \<open>Two states agree outside \<open>R\<close>, and on the machine registers.\<close>

definition same_machine :: "paddr set \<Rightarrow> kstate \<Rightarrow> kstate \<Rightarrow> bool" where
  "same_machine R s s' \<longleftrightarrow> mmu s' = mmu s \<and> cr3 s' = cr3 s \<and> (\<forall>p. p \<notin> R \<longrightarrow> phys s' p = phys s p)"

lemma vreads_same: "vreads s R a b \<Longrightarrow> same_machine R s s' \<Longrightarrow> vreads s' R a b"
  by (fastforce simp: vreads_def same_machine_def)

lemma vreads_mono:
  assumes "vreads s R a b" and "R' \<subseteq> R"
  shows "vreads s R' a b"
proof -
  obtain pa where "\<not> in_window a" "pa \<notin> R" "phys s pa = b"
      "\<And>m. (\<forall>p. p \<notin> R \<longrightarrow> m p = phys s p) \<Longrightarrow> mmu s m (cr3 s) a = Some pa"
    using assms(1) by (auto simp: vreads_def)
  then show ?thesis
    using assms(2) unfolding vreads_def by (intro conjI exI [of _ pa] allI impI) blast+
qed

lemma ld8_vreads: "vreads s R a b \<Longrightarrow> ld8 a s = Ret b s"
  by (auto simp: vreads_def ld8_def translate_def)

lemma copy_to_window:
  assumes "klower_mem_ptab s temp_slot = temp_pte p"
    and "unat o' + length xs \<le> 4096"
    and "\<And>i. i < length xs \<Longrightarrow> vreads s R (src + of_nat i) (xs ! i)"
    and "range_of (ALIGN_DOWN p PAGE_SIZE + o') (length xs) \<subseteq> R"
  shows "copy_bytes (KERNEL_TEMP_START + o') src (length xs) s =
     Ret () (s\<lparr>phys := put_bytes (ALIGN_DOWN p PAGE_SIZE + o') xs (phys s)\<rparr>)"
  using assms
proof (induction xs arbitrary: s o' src)
  case Nil
  then show ?case by (simp add: kexec)
next
  case (Cons x xs)
  let ?q = "ALIGN_DOWN p PAGE_SIZE + o'"
  let ?s1 = "set_phys ?q x s"
  have o: "o' < PAGE_SIZE" using Cons.prems(2) by (simp add: word_less_nat_alt)
  have r: "ld8 src s = Ret x s" using Cons.prems(3) [of 0] ld8_vreads by fastforce
  have w: "st8 (KERNEL_TEMP_START + o') x s = Ret () ?s1"
    using translate_window [OF o Cons.prems(1)] by (simp add: st8_def)
  have qR: "?q \<in> R" using Cons.prems(4) by (auto simp: range_of_def)
  then have sm: "same_machine R s ?s1" by (auto simp: same_machine_def)
  have o1: "unat (o' + 1) + length xs \<le> 4096" if "xs \<noteq> []"
  proof -
    have "unat (o' + 1) = Suc (unat o')"
      using Cons.prems(2) by (subst unat_add_lem [THEN iffD1]) simp_all
    then show ?thesis using Cons.prems(2) by simp
  qed
  have rest: "copy_bytes (KERNEL_TEMP_START + (o' + 1)) (src + 1) (length xs) ?s1 =
      Ret () (?s1\<lparr>phys := put_bytes (ALIGN_DOWN p PAGE_SIZE + (o' + 1)) xs (phys ?s1)\<rparr>)"
  proof (cases "xs = []")
    case True
    then show ?thesis by (simp add: kexec)
  next
    case False
    show ?thesis
    proof (rule Cons.IH)
      show "klower_mem_ptab ?s1 temp_slot = temp_pte p" using Cons.prems(1) by simp
      show "unat (o' + 1) + length xs \<le> 4096" by (rule o1 [OF False])
      show "vreads ?s1 R (src + 1 + of_nat i) (xs ! i)" if "i < length xs" for i
        using Cons.prems(3) [of "Suc i"] that vreads_same [OF _ sm] by (simp add: add.assoc)
      show "range_of (ALIGN_DOWN p PAGE_SIZE + (o' + 1)) (length xs) \<subseteq> R"
      proof
        fix q assume q: "q \<in> range_of (ALIGN_DOWN p PAGE_SIZE + (o' + 1)) (length xs)"
        show "q \<in> R"
        proof (cases "q = ?q")
          case False
          then have "q \<in> range_of ?q (length (x # xs))"
            using q unat_diff_Suc [OF False] by (simp add: range_of_def add.assoc)
          then show ?thesis using Cons.prems(4) by blast
        qed (use qR in simp)
      qed
    qed
  qed
  have "put_bytes ?q (x # xs) (phys s) = put_bytes (ALIGN_DOWN p PAGE_SIZE + (o' + 1)) xs (phys ?s1)"
    using Cons.prems(2) by (subst put_bytes_Cons) (simp_all add: add.assoc)
  then show ?case
    using r w rest by (simp add: kexec add.assoc) (simp add: set_phys_def)
qed

lemma chunk_page: "unat (PAGE_OFFSET a) + unat (chunk a len) \<le> 4096"
proof -
  have "unat (PAGE_SIZE - PAGE_OFFSET a) = 4096 - unat (PAGE_OFFSET a)"
    using PAGE_OFFSET_less [of a] by (subst unat_sub) (simp_all add: word_less_nat_alt word_le_nat_alt)
  moreover have "chunk a len \<le> PAGE_SIZE - PAGE_OFFSET a" by (auto simp: chunk_def)
  ultimately show ?thesis
    using PAGE_OFFSET_less [of a] by (simp add: word_less_nat_alt word_le_nat_alt)
qed

lemma put_bytes_outside: "q \<notin> range_of p (length xs) \<Longrightarrow> put_bytes p xs m q = m q"
  by (simp add: put_bytes_def range_of_def)

lemma range_of_mono: "n \<le> m \<Longrightarrow> range_of p n \<subseteq> range_of p m"
  by (auto simp: range_of_def)

lemma range_of_shift:
  assumes "k + n \<le> 2 ^ 32"
  shows "range_of (p + of_nat k) n \<subseteq> range_of p (k + n)"
proof
  fix q assume q: "q \<in> range_of (p + of_nat k) n"
  let ?d = "q - (p + of_nat k)"
  have e: "q - p = of_nat k + ?d" by simp
  have "unat (of_nat k + ?d) \<le> unat (of_nat k :: 32 word) + unat ?d"
    unfolding unat_word_ariths by (rule mod_less_eq_dividend)
  also have "\<dots> \<le> k + unat ?d"
    by (simp add: unsigned_of_nat take_bit_eq_mod)
  finally have "unat (of_nat k + ?d) \<le> k + unat ?d" .
  then show "q \<in> range_of p (k + n)"
    using q unfolding range_of_def e by simp
qed

lemma poke_loop_eq:
  assumes "length xs = unat len"
    and "\<And>i. i < length xs \<Longrightarrow> vreads s R (buffer + off + of_nat i) (xs ! i)"
    and "range_of paddr (length xs) \<subseteq> R"
  shows "access_phys_loop paddr buffer off len False s = Ret E_OK
     (if len = 0 then s
      else set_temp_pte temp_slot 0 (s\<lparr>phys := put_bytes paddr xs (phys s)\<rparr>))"
  using assms
proof (induction "unat len" arbitrary: len paddr off xs s rule: less_induct)
  case less
  show ?case
  proof (cases "len = 0")
    case True
    then show ?thesis by (simp add: access_phys_loop.simps kret_def)
  next
    case False
    let ?c = "chunk paddr len" and ?n = "unat (chunk paddr len)"
    let ?s1 = "set_temp_pte temp_slot (temp_pte (ALIGN_DOWN paddr PAGE_SIZE)) s"
    let ?x1 = "take ?n xs" and ?x2 = "drop ?n xs"
    have cl: "?n \<le> unat len" using chunk_bounds(2) [of paddr len] by (simp add: word_le_nat_alt)
    have l1: "length ?x1 = ?n" using less.prems(1) cl by simp
    have sm: "same_machine R s ?s1" by (simp add: same_machine_def)
    let ?s2 = "?s1\<lparr>phys := put_bytes paddr ?x1 (phys s)\<rparr>"
    have "copy_bytes (KERNEL_TEMP_START + PAGE_OFFSET paddr) (buffer + off) (length ?x1) ?s1 =
        Ret () (?s1\<lparr>phys := put_bytes (ALIGN_DOWN (ALIGN_DOWN paddr PAGE_SIZE) PAGE_SIZE +
          PAGE_OFFSET paddr) ?x1 (phys ?s1)\<rparr>)"
    proof (rule copy_to_window)
      show "unat (PAGE_OFFSET paddr) + length ?x1 \<le> 4096" using chunk_page l1 by simp
      show "vreads ?s1 R (buffer + off + of_nat i) (?x1 ! i)" if "i < length ?x1" for i
        using that less.prems(2) [of i] vreads_same [OF _ sm] by simp
      show "range_of (ALIGN_DOWN (ALIGN_DOWN paddr PAGE_SIZE) PAGE_SIZE + PAGE_OFFSET paddr)
          (length ?x1) \<subseteq> R"
        using less.prems(3) range_of_mono [of "length ?x1" "length xs" paddr]
        by (simp add: page_split)
    qed simp
    then have cp: "memcpy (KERNEL_TEMP_START + PAGE_OFFSET paddr) (buffer + off) ?c ?s1 =
        Ret (KERNEL_TEMP_START + PAGE_OFFSET paddr) ?s2"
      unfolding l1 by (simp add: memcpy_def kthen_def kbind_def kret_def page_split)
    let ?s3 = "set_temp_pte temp_slot 0 ?s2"
    have sm3: "same_machine R s ?s3"
      using less.prems(3) range_of_mono [of "length ?x1" "length xs" paddr]
      by (auto simp: same_machine_def set_temp_pte_def intro!: put_bytes_outside)
    have ih: "access_phys_loop (paddr + ?c) buffer (off + ?c) (len - ?c) False ?s3 = Ret E_OK
        (if len - ?c = 0 then ?s3
         else set_temp_pte temp_slot 0 (?s3\<lparr>phys := put_bytes (paddr + ?c) ?x2 (phys ?s3)\<rparr>))"
    proof (rule less.hyps)
      show "unat (len - ?c) < unat len" by (rule chunk_decreases [OF False])
      show l2: "length ?x2 = unat (len - ?c)"
        using less.prems(1) chunk_bounds(2) [of paddr len] by (simp add: unat_sub)
      show "vreads ?s3 R (buffer + (off + ?c) + of_nat i) (?x2 ! i)" if "i < length ?x2" for i
        using that less.prems(2) [of "?n + i"] vreads_same [OF _ sm3] by (simp add: add.assoc)
      show "range_of (paddr + ?c) (length ?x2) \<subseteq> R"
        using range_of_shift [of ?n "length ?x2" paddr] less.prems(1,3) cl unat_less32 [of len]
        by auto
    qed
    have st: "access_phys_loop paddr buffer off len False s =
        access_phys_loop (paddr + ?c) buffer (off + ?c) (len - ?c) False ?s3"
      using False cp
      by (subst access_phys_loop.simps)
        (simp add: kthen_def kbind_def map_temp_one unmap_temp_one Let_def)
    have ap: "put_bytes paddr xs (phys s) = put_bytes (paddr + ?c) ?x2 (put_bytes paddr ?x1 (phys s))"
      using put_bytes_append [of ?x1 ?x2 paddr "phys s"] l1 less.prems(1) unat_less32 [of len] by simp
    show ?thesis
    proof (cases "len - ?c = 0")
      case True
      then have "?x1 = xs" using less.prems(1) by simp
      with True False show ?thesis unfolding st ih by (simp add: set_temp_pte_def)
    next
      case n: False
      show ?thesis unfolding st ih ap using n False by (simp add: set_temp_pte_def)
    qed
  qed
qed

lemma poke_eq:
  assumes "xs \<noteq> []" and "length xs = unat len"
    and "\<And>i. i < length xs \<Longrightarrow> vreads s R (buffer + of_nat i) (xs ! i)"
    and "range_of paddr (length xs) \<subseteq> R"
  shows "poke paddr buffer len s =
     Ret E_OK (set_temp_pte temp_slot 0 (s\<lparr>phys := put_bytes paddr xs (phys s)\<rparr>))"
proof -
  have "len \<noteq> 0" using assms(1,2) by auto
  then show ?thesis
    using poke_loop_eq [of xs len s R buffer 0 paddr] assms(2-4)
    by (simp add: poke_def access_phys_def)
qed

section \<open>Other address spaces\<close>

text \<open>The page walk the kernel performs for another address space, on physical memory alone.\<close>

definition walk_page :: "(paddr \<Rightarrow> 8 word) \<Rightarrow> paddr \<Rightarrow> addr \<Rightarrow> paddr option" where
  "walk_page m dir a =
     (let pde = phys32 m (ALIGN_DOWN dir PAGE_SIZE + 4 * PDE_INDEX a) in
      if \<not> bf_on is_present pde then None
      else if bf_on is_page_sized pde then Some (PBASE_TO_PADDR (get_pde_frame_number pde))
      else let pte = phys32 m (PBASE_TO_PADDR (bf_get entry_base pde) + 4 * PTE_INDEX a) in
           if bf_on is_present pte then Some (PTE_BASE pte) else None)"

lemma PBASE_aligned: "ALIGN_DOWN (PBASE_TO_PADDR f) PAGE_SIZE = PBASE_TO_PADDR f"
  unfolding ALIGN_DOWN_page PBASE_TO_PADDR_def by (rule bit_word_eqI) (auto simp: bit_simps)

lemma PBASE_not_current: "PBASE_TO_PADDR f \<noteq> CURRENT_ROOT_PMAP"
proof
  assume "PBASE_TO_PADDR f = CURRENT_ROOT_PMAP"
  then have "bit (PBASE_TO_PADDR f) 0 = bit (CURRENT_ROOT_PMAP) 0" by simp
  then show False by (simp add: PBASE_TO_PADDR_def CURRENT_ROOT_PMAP_def bit_simps)
qed

lemma walk_page_cong:
  assumes "drop_bit 12 a = drop_bit 12 b"
  shows "walk_page m d a = walk_page m d b"
proof -
  have "drop_bit 22 a = drop_bit 22 b" using arg_cong [OF assms, of "drop_bit 10"] by simp
  then have "PDE_INDEX a = PDE_INDEX b" "PTE_INDEX a = PTE_INDEX b"
    using assms by (simp_all add: PDE_INDEX_def PTE_INDEX_def)
  then show ?thesis by (simp add: walk_page_def Let_def)
qed

lemma lookup_page_eq:
  "lookup_page address pdir s =
     Ret (case walk_page (phys s) (root_of s pdir) address of
            Some b \<Rightarrow> (E_OK, b) | None \<Rightarrow> (E_NOT_MAPPED, 0)) (set_temp_pte temp_slot 0 s)"
proof -
  let ?pde = "phys32 (phys s) (ALIGN_DOWN (root_of s pdir) PAGE_SIZE + 4 * PDE_INDEX address)"
  have 1: "read_pde (PDE_INDEX address) pdir s = Ret (E_OK, ?pde) (set_temp_pte temp_slot 0 s)"
    by (simp add: read_pde_def read_pmap_entry_eq [OF index_less(1)] entry_paddr_def)
  have 2: "read_pte (PTE_INDEX address) (PBASE_TO_PADDR f) (set_temp_pte temp_slot 0 s) =
      Ret (E_OK, phys32 (phys s) (PBASE_TO_PADDR f + 4 * PTE_INDEX address))
        (set_temp_pte temp_slot 0 s)" for f
    by (simp add: read_pte_def read_pmap_entry_eq [OF index_less(2)] entry_paddr_def root_of_def
        PBASE_not_current PBASE_aligned)
  show ?thesis
    by (simp add: lookup_page_def kbind_def 1 2 error_codes kret_def walk_page_def Let_def)
qed

lemma range_of_index:
  assumes "q \<in> range_of p n"
  shows "\<exists>i<n. q = p + of_nat i"
  using assms by (intro exI [of _ "unat (q - p)"]) (simp add: range_of_def)

lemma put_bytes_at:
  assumes "i < length xs" and "length xs \<le> 2 ^ 32"
  shows "put_bytes p xs m (p + of_nat i) = xs ! i"
  using assms by (simp add: put_bytes_def unat_of_nat_small)

text \<open>
  \<open>W i\<close> is the physical address behind byte \<open>i\<close> of the region, now and after any change
  of memory inside \<open>R\<close>: the region does not overlap the page tables that map it.
\<close>

definition maps_to :: "kstate \<Rightarrow> paddr set \<Rightarrow> paddr \<Rightarrow> addr \<Rightarrow> paddr \<Rightarrow> bool" where
  "maps_to s R pdir a w \<longleftrightarrow> w \<in> R \<and>
     (\<forall>m. (\<forall>p. p \<notin> R \<longrightarrow> m p = phys s p) \<longrightarrow>
        (\<exists>b. walk_page m (root_of s pdir) a = Some b \<and> w = b + PAGE_OFFSET a))"

lemma maps_to_same:
  assumes "maps_to s R pdir a w" and "same_machine R s s'"
  shows "maps_to s' R pdir a w"
proof -
  have "root_of s' pdir = root_of s pdir"
    using assms(2) by (simp add: root_of_def get_root_page_map_def same_machine_def)
  then show ?thesis using assms by (simp add: maps_to_def same_machine_def)
qed

lemma maps_to_page:
  assumes "\<And>i. i < n \<Longrightarrow> maps_to s R pdir (a + of_nat i) (W i)" and "0 < n"
    and "unat (PAGE_OFFSET a) + n \<le> 4096"
  shows "\<exists>b. walk_page (phys s) (root_of s pdir) a = Some b \<and>
    (\<forall>i<n. W i = b + PAGE_OFFSET a + of_nat i)"
proof -
  have w: "\<exists>b. walk_page (phys s) (root_of s pdir) (a + of_nat i) = Some b \<and>
      W i = b + PAGE_OFFSET (a + of_nat i)" if "i < n" for i
    using assms(1) [OF that] by (auto simp: maps_to_def)
  obtain b where b: "walk_page (phys s) (root_of s pdir) a = Some b"
    using w [OF assms(2)] by auto
  have "W i = b + PAGE_OFFSET a + of_nat i" if "i < n" for i
    using w [OF that] b page_offset_step [of a i] that assms(3)
      walk_page_cong [of "a + of_nat i" a "phys s" "root_of s pdir"] by (auto simp: add.assoc)
  with b show ?thesis by blast
qed

text \<open>
  What a successful write of \<open>xs\<close> to the addresses \<open>W\<close> leaves behind: the bytes are there,
  nothing else of memory changed, and of the rest of the state only the window's entry.
\<close>

definition written :: "kstate \<Rightarrow> (nat \<Rightarrow> paddr) \<Rightarrow> 8 word list \<Rightarrow> kstate \<Rightarrow> bool" where
  "written s W xs s' \<longleftrightarrow>
     (\<forall>i<length xs. phys s' (W i) = xs ! i) \<and>
     (\<forall>p. (\<forall>i<length xs. p \<noteq> W i) \<longrightarrow> phys s' p = phys s p) \<and>
     (\<exists>m v. s' = s\<lparr>phys := m, klower_mem_ptab := (klower_mem_ptab s)(temp_slot := v)\<rparr>)"

lemma written_Nil: "s' = s\<lparr>klower_mem_ptab := (klower_mem_ptab s)(temp_slot := v)\<rparr> \<Longrightarrow> written s W [] s'"
  by (auto simp: written_def intro!: exI [of _ "phys s"] exI [of _ v])

lemma written_trans:
  assumes "written s W xs s1" and "written s1 (\<lambda>i. W (length xs + i)) ys s2"
    and "inj_on W {..<length (xs @ ys)}"
  shows "written s W (xs @ ys) s2"
proof -
  have "phys s2 (W i) = (xs @ ys) ! i" if i: "i < length (xs @ ys)" for i
  proof (cases "i < length xs")
    case True
    have "W i \<noteq> W (length xs + j)" if "j < length ys" for j
      using assms(3) True that by (auto dest: inj_onD)
    then have "phys s2 (W i) = phys s1 (W i)" using assms(2) by (auto simp: written_def)
    then show ?thesis using assms(1) True by (simp add: written_def nth_append)
  next
    case False
    then show ?thesis
      using assms(2) i by (auto simp: written_def nth_append dest: spec [of _ "i - length xs"])
  qed
  moreover have "phys s2 p = phys s p" if "\<forall>i<length (xs @ ys). p \<noteq> W i" for p
    using that assms(1,2) by (simp add: written_def)
  moreover have "\<exists>m v. s2 = s\<lparr>phys := m, klower_mem_ptab := (klower_mem_ptab s)(temp_slot := v)\<rparr>"
  proof -
    obtain m1 v1 m2 v2 where "s1 = s\<lparr>phys := m1, klower_mem_ptab := (klower_mem_ptab s)(temp_slot := v1)\<rparr>"
        "s2 = s1\<lparr>phys := m2, klower_mem_ptab := (klower_mem_ptab s1)(temp_slot := v2)\<rparr>"
      using assms(1,2) unfolding written_def by blast
    then show ?thesis by (intro exI [of _ m2] exI [of _ v2]) simp
  qed
  ultimately show ?thesis by (simp add: written_def)
qed

lemma same_machine_written:
  assumes "written s W xs s'" and "\<And>i. i < length xs \<Longrightarrow> W i \<in> R"
  shows "same_machine R s s'"
proof -
  have "\<forall>i<length xs. p \<noteq> W i" if "p \<notin> R" for p using that assms(2) by auto
  then show ?thesis using assms(1) by (auto simp: written_def same_machine_def)
qed

lemma poke_page_written:
  assumes "xs \<noteq> []" and "length xs = unat len"
    and "\<And>i. i < length xs \<Longrightarrow> vreads s R (buffer + of_nat i) (xs ! i)"
    and "\<And>i. i < length xs \<Longrightarrow> W i = p + of_nat i" and "\<And>i. i < length xs \<Longrightarrow> W i \<in> R"
  shows "\<exists>s'. poke p buffer len s = Ret E_OK s' \<and> written s W xs s'"
proof -
  have r: "range_of p (length xs) \<subseteq> R"
    using assms(4,5) range_of_index by fastforce
  let ?s = "set_temp_pte temp_slot 0 (s\<lparr>phys := put_bytes p xs (phys s)\<rparr>)"
  have "written s W xs ?s"
    unfolding written_def
  proof (intro conjI allI impI)
    show "phys ?s (W i) = xs ! i" if "i < length xs" for i
      using that assms(2,4) unat_less32 [of len] by (simp add: put_bytes_at)
    show "phys ?s q = phys s q" if "\<forall>i<length xs. q \<noteq> W i" for q
      using that assms(4) range_of_index [of q p "length xs"]
      by (auto intro!: put_bytes_outside)
    show "\<exists>m v. ?s = s\<lparr>phys := m, klower_mem_ptab := (klower_mem_ptab s)(temp_slot := v)\<rparr>"
      by (auto simp: set_temp_pte_def)
  qed
  then show ?thesis using poke_eq [OF assms(1-3) r] by simp
qed

lemma access_mem_write:
  assumes "length xs = unat len"
    and "\<And>i. i < length xs \<Longrightarrow> vreads s R (buffer + off + of_nat i) (xs ! i)"
    and "\<And>i. i < length xs \<Longrightarrow> maps_to s R pdir (address + of_nat i) (W i)"
    and "inj_on W {..<length xs}"
  shows "\<exists>s'. access_mem_loop address len buffer off pdir False s = Ret E_OK s' \<and> written s W xs s'"
  using assms
proof (induction "unat len" arbitrary: len address off xs s W rule: less_induct)
  case less
  show ?case
  proof (cases "len = 0")
    case True
    then have "xs = []" using less.prems(1) by simp
    moreover have "written s W [] s"
      by (rule written_Nil [where v = "klower_mem_ptab s temp_slot"]) simp
    ultimately show ?thesis using True by (simp add: access_mem_loop.simps kret_def)
  next
    case False
    let ?c = "chunk address len" and ?n = "unat (chunk address len)"
    let ?x1 = "take ?n xs" and ?x2 = "drop ?n xs" and ?s1 = "set_temp_pte temp_slot 0 s"
    have cl: "?n \<le> unat len" and c0: "0 < ?n"
      using chunk_bounds(2) [of address len] chunk_bounds(1) [OF False, of address]
      by (simp_all add: word_le_nat_alt word_less_nat_alt)
    have l1: "length ?x1 = ?n" using less.prems(1) cl by simp
    have sm1: "same_machine R s ?s1" by (simp add: same_machine_def)
    obtain b where b: "walk_page (phys s) (root_of s pdir) address = Some b"
        and W: "\<forall>i<?n. W i = b + PAGE_OFFSET address + of_nat i"
      using maps_to_page [of ?n s R pdir address W] less.prems(1,3) cl c0 chunk_page by auto
    obtain s2 where s2: "poke (b + PAGE_OFFSET address) (buffer + off) ?c ?s1 = Ret E_OK s2"
        "written ?s1 W ?x1 s2"
    proof -
      have "\<exists>s2. poke (b + PAGE_OFFSET address) (buffer + off) ?c ?s1 = Ret E_OK s2 \<and>
          written ?s1 W ?x1 s2"
      proof (rule poke_page_written)
        show "?x1 \<noteq> []" using l1 c0 by auto
        show "vreads ?s1 R (buffer + off + of_nat i) (?x1 ! i)" if "i < length ?x1" for i
          using that less.prems(2) [of i] vreads_same [OF _ sm1] by simp
        show "W i \<in> R" if "i < length ?x1" for i
          using that less.prems(3) [of i] by (simp add: maps_to_def)
      qed (use l1 W in simp_all)
      then show thesis using that by blast
    qed
    have w1: "written s W ?x1 s2"
    proof -
      have "inj_on W {..<length ?x1}"
        using less.prems(4) by (rule inj_on_subset) auto
      then show ?thesis
        using written_trans [OF written_Nil [of ?s1 s 0 W], of ?x1 s2] s2(2)
        by (simp add: set_temp_pte_def)
    qed
    have sm2: "same_machine R s s2"
      by (rule same_machine_written [OF w1]) (use less.prems(3) in \<open>auto simp: maps_to_def\<close>)
    obtain s3 where s3: "access_mem_loop (address + ?c) (len - ?c) buffer (off + ?c) pdir False s2 =
          Ret E_OK s3" "written s2 (\<lambda>i. W (?n + i)) ?x2 s3"
    proof -
      have "\<exists>s3. access_mem_loop (address + ?c) (len - ?c) buffer (off + ?c) pdir False s2 =
          Ret E_OK s3 \<and> written s2 (\<lambda>i. W (?n + i)) ?x2 s3"
      proof (rule less.hyps)
        show "unat (len - ?c) < unat len" by (rule chunk_decreases [OF False])
        show "length ?x2 = unat (len - ?c)"
          using less.prems(1) chunk_bounds(2) [of address len] by (simp add: unat_sub)
        show "vreads s2 R (buffer + (off + ?c) + of_nat i) (?x2 ! i)" if "i < length ?x2" for i
          using that less.prems(2) [of "?n + i"] vreads_same [OF _ sm2] by (simp add: add.assoc)
        show "maps_to s2 R pdir (address + ?c + of_nat i) (W (?n + i))" if "i < length ?x2" for i
          using that less.prems(3) [of "?n + i"] maps_to_same [OF _ sm2] by (simp add: add.assoc)
        show "inj_on (\<lambda>i. W (?n + i)) {..<length ?x2}"
          using inj_onD [OF less.prems(4), of "?n + _" "?n + _"] by (intro inj_onI) fastforce
      qed
      then show thesis using that by blast
    qed
    have "written s W (?x1 @ ?x2) s3"
      using written_trans [OF w1, of ?x2 s3] s3(2) less.prems(4) l1 by simp
    moreover have "access_mem_loop address len buffer off pdir False s = Ret E_OK s3"
      using False b s2(1) s3(1)
      by (subst access_mem_loop.simps) (simp add: kbind_def lookup_page_eq error_codes Let_def)
    ultimately show ?thesis by simp
  qed
qed

lemma poke_virt_other:
  assumes "pdir \<noteq> get_root_page_map s" and "pdir \<noteq> CURRENT_ROOT_PMAP" and "address \<noteq> 0"
    and "length xs = unat len"
    and "\<And>i. i < length xs \<Longrightarrow> vreads s R (buffer + of_nat i) (xs ! i)"
    and "\<And>i. i < length xs \<Longrightarrow> maps_to s R pdir (address + of_nat i) (W i)"
    and "inj_on W {..<length xs}"
  shows "\<exists>s'. poke_virt address len buffer pdir s = Ret E_OK s' \<and> written s W xs s'"
  using access_mem_write [where off = 0, OF assms(4) _ assms(6,7), of buffer] assms(1-3,5)
  by (simp add: poke_virt_def access_mem_def kexec)

text \<open>
  The asserted precondition of \<open>access_mem\<close>: a null address halts the kernel even when
  there is nothing to copy.
\<close>

lemma poke_virt_null:
  assumes "pdir \<noteq> get_root_page_map s" and "pdir \<noteq> CURRENT_ROOT_PMAP"
  shows "poke_virt 0 len buffer pdir s = Fault AssertFail"
  using assms by (simp add: poke_virt_def access_mem_def kexec)

lemma poke_virt_unmapped:
  assumes "pdir \<noteq> get_root_page_map s" and "pdir \<noteq> CURRENT_ROOT_PMAP" and "address \<noteq> 0"
    and "len \<noteq> 0" and "walk_page (phys s) pdir address = None"
  shows "poke_virt address len buffer pdir s = Ret E_NOT_MAPPED (set_temp_pte temp_slot 0 s)"
  using assms
  by (simp add: poke_virt_def access_mem_def kthen_def kbind_def kget_def kguard_def kret_def
      access_mem_loop.simps lookup_page_eq root_of_def Let_def error_codes)

section \<open>The page walk of the processor\<close>

text \<open>
  32-bit paging as the processor does it, from the bits of the address and of the entries: bit 0 of
  an entry is the present bit, bit 7 of a directory entry marks a large page of 4 MiB, whose bytes
  are selected by the low 22 bits of the address. \<open>dir\<close> is the physical address of the directory.
\<close>

definition x86_pde :: "(paddr \<Rightarrow> 8 word) \<Rightarrow> paddr \<Rightarrow> addr \<Rightarrow> 32 word" where
  "x86_pde m dir a = phys32 m (push_bit 12 (drop_bit 12 dir) + 4 * drop_bit 22 a)"

definition x86_pte :: "(paddr \<Rightarrow> 8 word) \<Rightarrow> paddr \<Rightarrow> addr \<Rightarrow> 32 word" where
  "x86_pte m dir a = phys32 m (push_bit 12 (drop_bit 12 (x86_pde m dir a)) + 4 * take_bit 10 (drop_bit 12 a))"

definition x86_walk :: "(paddr \<Rightarrow> 8 word) \<Rightarrow> paddr \<Rightarrow> addr \<Rightarrow> paddr option" where
  "x86_walk m dir a =
     (if \<not> bit (x86_pde m dir a) 0 then None
      else if bit (x86_pde m dir a) 7 then Some (push_bit 22 (drop_bit 22 (x86_pde m dir a)) + take_bit 22 a)
      else if \<not> bit (x86_pte m dir a) 0 then None
      else Some (push_bit 12 (drop_bit 12 (x86_pte m dir a)) + take_bit 12 a))"

lemma bf_on_bit: "bf_on is_present w = bit w 0" "bf_on is_page_sized w = bit w 7"
  by (auto simp: bf_on_def bf_get_def fields bit_iff_odd_drop_bit take_bit_Suc odd_iff_mod_2_eq_one)

lemma frame_base:
  "PBASE_TO_PADDR (bf_get entry_base w) = push_bit 12 (drop_bit 12 w)"
  "PTE_BASE w = push_bit 12 (drop_bit 12 w)"
  unfolding PBASE_TO_PADDR_def PTE_BASE_def
  by (rule bit_word_eqI, auto simp: bf_get_def fields bit_simps)+

lemma large_frame_base:
  "bit w 7 \<Longrightarrow> PBASE_TO_PADDR (get_pde_frame_number w) = push_bit 22 (drop_bit 22 w)"
  unfolding PBASE_TO_PADDR_def get_pde_frame_number_def bf_on_bit
  by (rule bit_word_eqI) (auto simp: bf_get_def fields bit_simps)

lemma page_base: "ALIGN_DOWN dir PAGE_SIZE = push_bit 12 (drop_bit 12 dir)"
  unfolding ALIGN_DOWN_page by (rule bit_word_eqI) (auto simp: bit_simps)

lemma page_indices: "PDE_INDEX a = drop_bit 22 a" "PTE_INDEX a = take_bit 10 (drop_bit 12 a)"
proof -
  have m: "0x3FF = (mask 10 :: 32 word)" by (simp add: mask_eq_exp_minus_1)
  show "PDE_INDEX a = drop_bit 22 a"
    unfolding PDE_INDEX_def m by (rule bit_word_eqI) (auto simp: bit_simps dest: bit_imp_le_length)
  show "PTE_INDEX a = take_bit 10 (drop_bit 12 a)"
    unfolding PTE_INDEX_def m by (simp add: take_bit_eq_mask)
qed

lemma walk_page_x86:
  "walk_page m dir a =
     (if \<not> bit (x86_pde m dir a) 0 then None
      else if bit (x86_pde m dir a) 7 then Some (push_bit 22 (drop_bit 22 (x86_pde m dir a)))
      else if \<not> bit (x86_pte m dir a) 0 then None
      else Some (push_bit 12 (drop_bit 12 (x86_pte m dir a))))"
  unfolding walk_page_def Let_def page_base page_indices frame_base bf_on_bit
  using large_frame_base by (simp add: x86_pde_def x86_pte_def)

text \<open>
  The kernel finds the byte that the processor does, except inside a large page, where it leaves
  out the bits 12 to 21 of the address.
\<close>

lemma walk_page_offset:
  assumes "x86_walk m dir a = Some w"
  shows "\<exists>b. walk_page m dir a = Some b \<and>
    w = b + PAGE_OFFSET a + (if bit (x86_pde m dir a) 7 then push_bit 12 (take_bit 10 (drop_bit 12 a)) else 0)"
proof -
  have "take_bit 22 a = PAGE_OFFSET a + push_bit 12 (take_bit 10 (drop_bit 12 a))"
    unfolding PAGE_OFFSET_take
    by (subst disjunctive_add) (auto simp: bit_simps intro!: bit_word_eqI)
  then show ?thesis using assms unfolding x86_walk_def walk_page_x86
    by (auto split: if_splits simp: PAGE_OFFSET_take add.assoc)
qed


text \<open>
  The processor translates \<open>a\<close> to \<open>w\<close>, now and after any change of memory inside \<open>R\<close>.
\<close>

definition x86_maps :: "kstate \<Rightarrow> paddr set \<Rightarrow> paddr \<Rightarrow> addr \<Rightarrow> paddr \<Rightarrow> bool" where
  "x86_maps s R pdir a w \<longleftrightarrow> w \<in> R \<and>
     (\<forall>m. (\<forall>p. p \<notin> R \<longrightarrow> m p = phys s p) \<longrightarrow> x86_walk m pdir a = Some w)"

definition in_large_page :: "kstate \<Rightarrow> paddr \<Rightarrow> addr \<Rightarrow> bool" where
  "in_large_page s pdir a \<longleftrightarrow> bit (x86_pde (phys s) pdir a) 7"

lemma bit_phys32: "n < 8 \<Longrightarrow> bit (phys32 m p) n = bit (m p) n"
  by (simp add: phys32_def word_of_bytes_def bit_simps)

lemma x86_maps_pde:
  assumes "x86_maps s R pdir a w" and "\<forall>p. p \<notin> R \<longrightarrow> m p = phys s p"
  shows "bit (x86_pde m pdir a) 7 \<longleftrightarrow> in_large_page s pdir a"
proof -
  let ?p = "push_bit 12 (drop_bit 12 pdir) + 4 * drop_bit 22 a"
  have "?p \<notin> R"
  proof
    assume "?p \<in> R"
    then have "x86_walk ((phys s)(?p := 0)) pdir a = Some w" using assms(1) by (auto simp: x86_maps_def)
    then show False by (simp add: x86_walk_def x86_pde_def bit_phys32)
  qed
  then show ?thesis using assms(2) by (simp add: in_large_page_def x86_pde_def bit_phys32)
qed

text \<open>The bits 12 to 21 of an address: its page among those of a large page.\<close>

definition page_in_large :: "addr \<Rightarrow> 32 word" where
  "page_in_large a = push_bit 12 (take_bit 10 (drop_bit 12 a))"

lemma x86_maps_to:
  assumes "x86_maps s R pdir a w" and "pdir \<noteq> CURRENT_ROOT_PMAP"
    and "w' = (if in_large_page s pdir a then w - page_in_large a else w)" and "w' \<in> R"
  shows "maps_to s R pdir a w'"
  unfolding maps_to_def
proof (intro conjI allI impI)
  fix m assume m: "\<forall>p. p \<notin> R \<longrightarrow> m p = phys s p"
  then have "x86_walk m pdir a = Some w" using assms(1) by (simp add: x86_maps_def)
  from walk_page_offset [OF this]
  show "\<exists>b. walk_page m (root_of s pdir) a = Some b \<and> w' = b + PAGE_OFFSET a"
    using assms(2,3) x86_maps_pde [OF assms(1) m] by (auto simp: root_of_def page_in_large_def)
qed (rule assms(4))

section \<open>A new page directory\<close>

lemma root_pde_bits: "root_pde pmap = push_bit 12 (drop_bit 12 pmap) OR 3"
proof (rule bit_word_eqI)
  fix n assume n: "n < LENGTH(32)"
  have e: "(3 :: 32 word) = push_bit 1 1 OR push_bit 0 1" by simp
  have b: "bit (3 :: 32 word) n \<longleftrightarrow> n = 0 \<or> n = 1"
    unfolding e bit_or_iff bit_push_bit_iff bit_1_iff by auto
  show "bit (root_pde pmap) n = bit (push_bit 12 (drop_bit 12 pmap) OR 3) n"
    unfolding bit_or_iff b using n
    by (auto simp: root_pde_def PADDR_TO_PBASE_def bf_set_def fields bit_simps)
qed

text \<open>
  The local variable lies outside the window, at the physical address \<open>l\<close>, and the translation
  does not depend on memory inside \<open>R\<close>.
\<close>

definition local_maps :: "kstate \<Rightarrow> paddr set \<Rightarrow> paddr \<Rightarrow> bool" where
  "local_maps s R l \<longleftrightarrow> (\<forall>i<4. \<not> in_window (local_var s + of_nat i) \<and>
     (\<forall>m. (\<forall>p. p \<notin> R \<longrightarrow> m p = phys s p) \<longrightarrow>
        mmu s m (cr3 s) (local_var s + of_nat i) = Some (l + of_nat i)))"

lemma st32_local:
  assumes "local_maps s R l" and "range_of l 4 \<subseteq> R"
  shows "st32 (local_var s) v s = Ret () (s\<lparr>phys := put32 l v (phys s)\<rparr>)"
proof -
  have r: "l + of_nat i \<in> R" if "i < 4" for i
    using assms(2) that by (auto simp: range_of_def unat_of_nat_small)
  have R: "l \<in> R" "l + 1 \<in> R" "l + 2 \<in> R" "l + 3 \<in> R"
    using r [of 0] r [of 1] r [of 2] r [of 3] by simp_all
  have t: "translate (s\<lparr>phys := m\<rparr>) (local_var s + of_nat i) = Some (l + of_nat i)"
    if "i < 4" "\<forall>p. p \<notin> R \<longrightarrow> m p = phys s p" for i m
    using assms(1) that by (simp add: local_maps_def translate_def)
  have t0: "translate (s\<lparr>phys := m\<rparr>) (local_var s) = Some l"
     "translate (s\<lparr>phys := m\<rparr>) (local_var s + 1) = Some (l + 1)"
     "translate (s\<lparr>phys := m\<rparr>) (local_var s + 2) = Some (l + 2)"
     "translate (s\<lparr>phys := m\<rparr>) (local_var s + 3) = Some (l + 3)"
    if "\<forall>p. p \<notin> R \<longrightarrow> m p = phys s p" for m
    using t [OF _ that, of 0] t [OF _ that, of 1] t [OF _ that, of 2] t [OF _ that, of 3] by simp_all
  have "translate s (local_var s) = Some l" using t0(1) [of "phys s"] by simp
  then show ?thesis using R by (simp add: st32_def kbind_def st8_def kskip_def set_phys_def t0 put32_def)
qed


definition word_list :: "32 word \<Rightarrow> 8 word list" where
  "word_list v = map (\<lambda>i. byte_of i v) [0, 1, 2, 3]"

lemma word_list_simps [simp]: "length (word_list v) = 4" "i < 4 \<Longrightarrow> word_list v ! i = byte_of i v"
  by (auto simp: word_list_def less_Suc_eq numeral_eq_Suc)

lemma put32_put_bytes: "put32 p v m = put_bytes p (word_list v) m"
proof
  fix q
  show "put32 p v m q = put_bytes p (word_list v) m q"
  proof (cases "unat (q - p) < 4")
    case True
    then obtain i where i: "i < 4" "q = p + of_nat i" using range_of_index [of q p 4] by (auto simp: range_of_def)
    then have "i \<in> {0, 1, 2, 3}" by auto
    then show ?thesis using i by (auto simp: put32_def put_bytes_def word_list_def)
  next
    case False
    then have "q \<noteq> p" "q \<noteq> p + 1" "q \<noteq> p + 2" "q \<noteq> p + 3" by auto
    then show ?thesis using False by (simp add: put32_def put_bytes_def)
  qed
qed

lemma root_pmap_addrs:
  "NDX_TO_VADDR KERNEL_RECURSIVE_PDE KERNEL_RECURSIVE_PDE (PDE_INDEX KERNEL_VSTART) = 0xFFFFFFEC"
  "NDX_TO_VADDR KERNEL_RECURSIVE_PDE KERNEL_RECURSIVE_PDE (PDE_INDEX KERNEL_TEMP_END) = 0xFFFFFFFC"
  "pmap + 4 * PDE_INDEX KERNEL_VSTART = pmap + 0xFEC" "pmap + 4 * KERNEL_RECURSIVE_PDE = pmap + 0xFFC"
  by (simp_all add: NDX_TO_VADDR_def KERNEL_RECURSIVE_PDE_def PDE_INDEX_def KERNEL_VSTART_def
      KERNEL_TEMP_END_def)

lemma range_of_sub: "o' + n \<le> k \<Longrightarrow> k < 2 ^ 32 \<Longrightarrow> range_of (p + of_nat o') n \<subseteq> range_of p k"
proof
  fix q assume le: "o' + n \<le> k" "k < 2 ^ 32" and "q \<in> range_of (p + of_nat o') n"
  then obtain i where i: "i < n" "q = p + of_nat o' + of_nat i" using range_of_index by blast
  then have "q - p = of_nat (o' + i)" by simp
  moreover have "unat (of_nat (o' + i) :: 32 word) = o' + i" using i le by (intro unat_of_nat_small) simp
  ultimately show "q \<in> range_of p k" using i le by (simp add: range_of_def)
qed

text \<open>
  The physical memory \<^verbatim>\<open>initialize_root_pmap\<close> may change: its local variable, at \<open>l\<close>, and the last
  five entries of the directory.
\<close>

definition root_pmap_area :: "paddr \<Rightarrow> paddr \<Rightarrow> paddr set" where
  "root_pmap_area l pmap = range_of l 4 \<union> range_of (pmap + 0xFEC) 20"

lemma initialize_root_pmap_eq:
  assumes "R = root_pmap_area l pmap" and "range_of l 4 \<inter> range_of (pmap + 0xFEC) 20 = {}"
    and "local_maps s R l" and "length xs = 16"
    and "\<And>i. i < 16 \<Longrightarrow> vreads s R (0xFFFFFFEC + of_nat i) (xs ! i)"
  shows "initialize_root_pmap pmap s = Ret E_OK (set_temp_pte temp_slot 0 (s\<lparr>phys :=
     put_bytes (pmap + 0xFFC) (word_list (root_pde pmap)) (put_bytes (pmap + 0xFEC) xs
       (put_bytes l (word_list (root_pde pmap)) (phys s)))\<rparr>))"
proof -
  let ?v = "word_list (root_pde pmap)" and ?p = "pmap + 0xFEC" and ?q = "pmap + 0xFFC"
  let ?m1 = "put_bytes l ?v (phys s)"
  let ?m2 = "put_bytes ?p xs ?m1"
  let ?s1 = "s\<lparr>phys := ?m1\<rparr>" and ?s2 = "set_temp_pte temp_slot 0 (s\<lparr>phys := ?m2\<rparr>)"
  have sub: "range_of ?p 16 \<subseteq> range_of ?p 20" "range_of ?q 4 \<subseteq> range_of ?p 20"
    using range_of_sub [of 0 16 20 ?p] range_of_sub [of 16 4 20 ?p] by (simp_all add: add.assoc)
  then have R: "range_of l 4 \<subseteq> R" "range_of ?p 16 \<subseteq> R" "range_of ?q 4 \<subseteq> R"
    by (auto simp: assms(1) root_pmap_area_def)
  have nn: "?v \<noteq> []" by (simp add: word_list_def)
  have m1: "?m1 p = phys s p" if "p \<notin> R" for p
    using that R(1) by (subst put_bytes_outside) auto
  have m2: "?m2 p = phys s p" if "p \<notin> R" for p
    using m1 [OF that] that R(2) assms(4) by (subst put_bytes_outside) auto
  have 1: "st32 (local_var s) (root_pde pmap) s = Ret () ?s1"
    using st32_local [OF assms(3) R(1)] by (simp add: put32_put_bytes)
  have "same_machine R s ?s1" using m1 by (simp add: same_machine_def)
  then have v: "vreads ?s1 R (0xFFFFFFEC + of_nat i) (xs ! i)" if "i < 16" for i
    using vreads_same assms(5) [OF that] by blast
  have 2: "poke ?p 0xFFFFFFEC 16 ?s1 = Ret E_OK ?s2"
    using poke_eq [of xs 16 ?s1 R "0xFFFFFFEC" ?p] assms(4) v R(2) by (simp add: length_0_conv [symmetric])
  have "vreads ?s2 (range_of ?q 4) (local_var s + of_nat i) (?v ! i)" if "i < 4" for i
    unfolding vreads_def
  proof (intro conjI exI [of _ "l + of_nat i"] allI impI)
    show "\<not> in_window (local_var s + of_nat i)" using assms(3) that by (simp add: local_maps_def)
    have l: "l + of_nat i \<in> range_of l 4" using that by (simp add: range_of_def unat_of_nat_small)
    then show "l + of_nat i \<notin> range_of ?q 4" using assms(2) sub by blast
    have "l + of_nat i \<notin> range_of ?p 16" using l assms(2) sub by blast
    then have "?m2 (l + of_nat i) = ?m1 (l + of_nat i)" using assms(4) by (simp add: put_bytes_outside)
    then show "phys ?s2 (l + of_nat i) = ?v ! i" using that by (simp add: put_bytes_at)
    fix m assume "\<forall>p. p \<notin> range_of ?q 4 \<longrightarrow> m p = phys ?s2 p"
    then have "\<forall>p. p \<notin> R \<longrightarrow> m p = phys s p" using m2 R(3) by auto
    then show "mmu ?s2 m (cr3 ?s2) (local_var s + of_nat i) = Some (l + of_nat i)"
      using assms(3) that by (simp add: local_maps_def)
  qed
  then have 3: "poke ?q (local_var s) 4 ?s2 = Ret E_OK (set_temp_pte temp_slot 0 (?s2\<lparr>phys := put_bytes ?q ?v (phys ?s2)\<rparr>))"
    using poke_eq [of ?v 4 ?s2 "range_of ?q 4" "local_var s" ?q] nn by simp
  show ?thesis
    using 1 2 3
    by (simp add: initialize_root_pmap_def Let_def root_pmap_addrs kbind_def kthen_def kget_def kret_def error_codes
        set_temp_pte_def)
qed


lemma phys32_put_bytes: "phys32 (put_bytes p (word_list v) m) p = v"
  using phys32_put32 by (simp add: put32_put_bytes)

lemma range_of_behind:
  assumes "i < n" and "n + k < 2 ^ 32"
  shows "p + of_nat i \<notin> range_of (p + of_nat n) k"
proof
  assume "p + of_nat i \<in> range_of (p + of_nat n) k"
  then obtain j where j: "j < k" "p + of_nat i = p + of_nat n + of_nat j" using range_of_index by blast
  then have "of_nat i = (of_nat (n + j) :: 32 word)" by (simp add: add.assoc)
  then have "unat (of_nat i :: 32 word) = unat (of_nat (n + j) :: 32 word)" by simp
  then show False using assms j(1) by (simp add: unat_of_nat_small del: of_nat_add)
qed

lemma initialize_root_pmap_effect:
  assumes "R = root_pmap_area l pmap" and "range_of l 4 \<inter> range_of (pmap + 0xFEC) 20 = {}"
    and "local_maps s R l" and "length xs = 16"
    and "\<And>i. i < 16 \<Longrightarrow> vreads s R (0xFFFFFFEC + of_nat i) (xs ! i)"
  shows "\<exists>m. initialize_root_pmap pmap s = Ret E_OK (set_temp_pte temp_slot 0 (s\<lparr>phys := m\<rparr>)) \<and>
     (\<forall>i<16. m (pmap + 0xFEC + of_nat i) = xs ! i) \<and>
     phys32 m (pmap + 0xFFC) = push_bit 12 (drop_bit 12 pmap) OR 3 \<and>
     (\<forall>p. p \<notin> R \<longrightarrow> m p = phys s p)"
proof -
  let ?v = "word_list (root_pde pmap)" and ?p = "pmap + 0xFEC" and ?q = "pmap + 0xFFC"
  let ?m = "put_bytes ?q ?v (put_bytes ?p xs (put_bytes l ?v (phys s)))"
  have "range_of ?p 16 \<subseteq> range_of ?p 20" "range_of ?q 4 \<subseteq> range_of ?p 20"
    using range_of_sub [of 0 16 20 ?p] range_of_sub [of 16 4 20 ?p] by (simp_all add: add.assoc)
  then have R: "range_of l 4 \<subseteq> R" "range_of ?p 16 \<subseteq> R" "range_of ?q 4 \<subseteq> R"
    by (auto simp: assms(1) root_pmap_area_def)
  have "?m (?p + of_nat i) = xs ! i" if "i < 16" for i
  proof -
    have "?p + of_nat i \<notin> range_of ?q 4" using range_of_behind [OF that, of 4 ?p] by (simp add: add.assoc)
    then have "?m (?p + of_nat i) = put_bytes ?p xs (put_bytes l ?v (phys s)) (?p + of_nat i)"
      by (simp add: put_bytes_outside)
    then show ?thesis using that assms(4) by (simp add: put_bytes_at)
  qed
  moreover have "?m p = phys s p" if "p \<notin> R" for p
  proof -
    have "p \<notin> range_of ?q 4" "p \<notin> range_of ?p 16" "p \<notin> range_of l 4" using that R by blast+
    then show ?thesis using assms(4) by (simp add: put_bytes_outside)
  qed
  ultimately show ?thesis
    using initialize_root_pmap_eq [OF assms]
    by (intro exI [of _ ?m]) (simp add: phys32_put_bytes root_pde_bits)
qed

end
