(* ===== verification/Mem_Frame.thy ===== *)
theory Mem_Frame
  imports Paging_Correct
begin

text \<open>
  The memory operations touch nothing but memory: whatever \<^verbatim>\<open>poke\<close>, \<^verbatim>\<open>poke_virt\<close> and their
  relatives do, the thread table, the lists and the processor table stay as they are.
\<close>

definition with_mem :: "(paddr \<Rightarrow> 8 word) \<Rightarrow> (nat \<Rightarrow> 32 word) \<Rightarrow> kstate \<Rightarrow> kstate" where
  "with_mem m k s = s\<lparr>phys := m, klower_mem_ptab := k\<rparr>"

text \<open>Every normal result differs from the start in memory only, and there is no switch.\<close>

definition mem_only :: "'a kernel \<Rightarrow> bool" where
  "mem_only f \<longleftrightarrow> (\<forall>s. (\<forall>a s'. f s = Ret a s' \<longrightarrow> (\<exists>m k. s' = with_mem m k s)) \<and>
     (\<forall>s'. f s \<noteq> Switch s'))"

named_theorems mem_only_intros

lemma with_mem_self: "\<exists>m k. s = with_mem m k s"
  by (intro exI [of _ "phys s"] exI [of _ "klower_mem_ptab s"]) (simp add: with_mem_def)

lemma with_mem_trans [simp]: "with_mem m k (with_mem m' k' s) = with_mem m k s"
  by (simp add: with_mem_def)

lemma mem_only_kret [mem_only_intros]: "mem_only (kret a)"
  by (auto simp: mem_only_def kret_def with_mem_self)

lemma mem_only_kskip [mem_only_intros]: "mem_only kskip"
  by (auto simp: mem_only_def kskip_def with_mem_self)

lemma mem_only_kfail [mem_only_intros]: "mem_only (kfail e)"
  by (auto simp: mem_only_def kfail_def)

lemma mem_only_kguard [mem_only_intros]: "mem_only (kguard b e)"
  by (auto simp: mem_only_def kguard_def with_mem_self)

lemma mem_only_kget [mem_only_intros]: "mem_only (kget f)"
  by (auto simp: mem_only_def kget_def with_mem_self)

lemma mem_only_kbind [mem_only_intros]:
  assumes "mem_only f" and "\<And>a. mem_only (g a)"
  shows "mem_only (kbind f g)"
proof -
  have "\<exists>m k. s' = with_mem m k s" if r: "kbind f g s = Ret b s'" for s b s'
  proof -
    obtain a s1 where 1: "f s = Ret a s1" "g a s1 = Ret b s'" using r by (auto simp: kbind_eq_Ret_iff)
    then obtain m k where s1: "s1 = with_mem m k s" using assms(1) unfolding mem_only_def by blast
    obtain m' k' where "s' = with_mem m' k' s1"
      using 1 assms(2) [of a] unfolding mem_only_def by blast
    then show ?thesis unfolding s1 by auto
  qed
  moreover have "kbind f g s \<noteq> Switch s'" for s s'
    using assms by (auto simp: kbind_def mem_only_def split: kres.split)
  ultimately show ?thesis by (auto simp: mem_only_def)
qed

lemma mem_only_kthen [mem_only_intros]: "mem_only f \<Longrightarrow> mem_only g \<Longrightarrow> mem_only (kthen f g)"
  by (simp add: kthen_def mem_only_kbind)

lemma mem_only_kwhen [mem_only_intros]: "mem_only f \<Longrightarrow> mem_only (kwhen b f)"
  by (cases b) (simp_all add: mem_only_kskip)

lemma mem_only_if [mem_only_intros]: "mem_only f \<Longrightarrow> mem_only g \<Longrightarrow> mem_only (if b then f else g)"
  by simp

lemma mem_only_case_prod [mem_only_intros]:
  "(\<And>a b. mem_only (f a b)) \<Longrightarrow> mem_only (case p of (a, b) \<Rightarrow> f a b)"
  by (cases p) simp

lemma mem_only_set_temp_pte [mem_only_intros]: "mem_only (kmod (set_temp_pte i v))"
proof -
  have "set_temp_pte i v s = with_mem (phys s) ((klower_mem_ptab s)(i := v)) s" for s
    by (simp add: set_temp_pte_def with_mem_def)
  then show ?thesis by (auto simp: mem_only_def kmod_def)
qed

lemma mem_only_ld8 [mem_only_intros]: "mem_only (ld8 a)"
  by (auto simp: mem_only_def ld8_def with_mem_self split: option.split)

lemma mem_only_st8 [mem_only_intros]: "mem_only (st8 a v)"
proof -
  have "set_phys p v s = with_mem ((phys s)(p := v)) (klower_mem_ptab s) s" for p s
    by (simp add: set_phys_def with_mem_def)
  then show ?thesis unfolding mem_only_def st8_def by (auto split: option.split_asm) blast
qed

lemma mem_only_ld32 [mem_only_intros]: "mem_only (ld32 a)"
  unfolding ld32_def by (intro mem_only_intros)

lemma mem_only_st32 [mem_only_intros]: "mem_only (st32 a v)"
  unfolding st32_def kseq.simps by (intro mem_only_intros)

lemma mem_only_copy_bytes [mem_only_intros]: "mem_only (copy_bytes d s n)"
  by (induction n arbitrary: d s) (auto intro!: mem_only_intros)

lemma mem_only_memcpy [mem_only_intros]: "mem_only (memcpy d s n)"
  unfolding memcpy_def by (intro mem_only_intros)

lemma mem_only_map_temp_loop [mem_only_intros]: "mem_only (map_temp_loop a p t i n)"
  by (induction n arbitrary: a p t i) (auto intro!: mem_only_intros)

lemma mem_only_map_temp [mem_only_intros]: "mem_only (map_temp v b c)"
  unfolding map_temp_def Let_def by (intro mem_only_intros)

lemma mem_only_unmap_temp_loop [mem_only_intros]: "mem_only (unmap_temp_loop a t i n)"
  by (induction n arbitrary: a t i) (auto intro!: mem_only_intros)

lemma mem_only_unmap_temp [mem_only_intros]: "mem_only (unmap_temp v c)"
  unfolding unmap_temp_def Let_def by (intro mem_only_intros)

lemma mem_only_read_pmap_entry [mem_only_intros]: "mem_only (read_pmap_entry p e)"
  unfolding read_pmap_entry_def by (intro mem_only_intros)

lemma mem_only_write_pmap_entry [mem_only_intros]: "mem_only (write_pmap_entry p e v)"
  unfolding write_pmap_entry_def by (intro mem_only_intros)

lemma mem_only_page_entries [mem_only_intros]:
  "mem_only (read_pde e d)" "mem_only (write_pde e v d)" "mem_only (read_pte e d)"
  "mem_only (write_pte e v d)"
  unfolding read_pde_def write_pde_def read_pte_def write_pte_def by (intro mem_only_intros)+

lemma mem_only_access_phys_loop [mem_only_intros]: "mem_only (access_phys_loop p b o' len r)"
proof (induction "unat len" arbitrary: p o' len rule: less_induct)
  case less
  show ?case
    by (subst access_phys_loop.simps)
      (auto simp: Let_def intro!: mem_only_intros less chunk_decreases)
qed

lemma mem_only_poke [mem_only_intros]: "mem_only (poke p b n)" "mem_only (peek p b n)"
  unfolding poke_def peek_def access_phys_def by (intro mem_only_intros)+

lemma mem_only_lookup_page [mem_only_intros]: "mem_only (lookup_page a d)"
  unfolding lookup_page_def by (intro mem_only_intros)

lemma mem_only_access_mem_loop [mem_only_intros]: "mem_only (access_mem_loop a len b o' d r)"
proof (induction "unat len" arbitrary: a o' len rule: less_induct)
  case less
  show ?case
    by (subst access_mem_loop.simps)
      (auto simp: Let_def intro!: mem_only_intros less chunk_decreases)
qed

lemma mem_only_poke_virt [mem_only_intros]: "mem_only (poke_virt a n b d)" "mem_only (peek_virt a n b d)"
  unfolding poke_virt_def peek_virt_def access_mem_def by (intro mem_only_intros)+

lemma mem_only_initialize_root_pmap [mem_only_intros]: "mem_only (initialize_root_pmap p)"
  unfolding initialize_root_pmap_def Let_def by (intro mem_only_intros)

lemma mem_onlyD: "mem_only f \<Longrightarrow> f s = Ret a s' \<Longrightarrow> \<exists>m k. s' = with_mem m k s"
  by (auto simp: mem_only_def)

end
