(* ===== verification/Thread_Create.thy ===== *)
theory Thread_Create
  imports Schedule Mem_Frame
begin

text \<open>
  Thread creation (\<^verbatim>\<open>thread_create\<close> of \<^verbatim>\<open>kernel/thread.c\<close>): a new address space is prepared,
  the next inactive slot of the thread table is searched, and the new thread is put on the
  paused list.
\<close>

section \<open>Operations\<close>

definition UCODE_SEL :: "16 word" where "UCODE_SEL = 0x1B"
definition UDATA_SEL :: "16 word" where "UDATA_SEL = 0x23"
definition EFLAGS_IF :: "32 word" where "EFLAGS_IF = push_bit 9 1"
definition EFLAGS_IOPL3 :: "32 word" where "EFLAGS_IOPL3 = push_bit 12 3"
definition MAX_THREADS :: "32 word" where "MAX_THREADS = 65536"

text \<open>\<^verbatim>\<open>SPINLOCK_ACQUIRE\<close> waits while the flag is set, and does not set it.\<close>

definition SPINLOCK_ACQUIRE :: "unit kernel" where
  [kexec]: "SPINLOCK_ACQUIRE = kbind (kget tcb_table_lock) (\<lambda>l. kguard (\<not> l) Hang)"

definition SPINLOCK_RELEASE :: "unit kernel" where
  [kexec]: "SPINLOCK_RELEASE = kmod (\<lambda>s. s\<lparr>tcb_table_lock := False\<rparr>)"

text \<open>
  The \<^verbatim>\<open>for\<close> loop that advances \<^verbatim>\<open>last_tid\<close>: the table has 16 entries, \<^verbatim>\<open>last_tid\<close> is never
  reduced modulo anything, and the entry is read before any bound is checked.
\<close>

function tid_scan :: "32 word \<Rightarrow> 32 word \<Rightarrow> 32 word kernel" where
  "tid_scan prev l =
     (if prev \<noteq> l \<or> l = 0 then
        (if unat l < TCB_TABLE_SIZE then
           kbind (rd (ucast l) thread_state) (\<lambda>st.
             if st \<noteq> INACTIVE then tid_scan prev (l + 1) else kret l)
         else kfail OutOfBounds)
      else kret l)"
  by pat_completeness auto
termination
proof (relation "measure (\<lambda>(_, l). TCB_TABLE_SIZE - unat l)")
  fix prev l :: "32 word"
  assume "unat l < TCB_TABLE_SIZE"
  moreover from this have "unat (l + 1) = Suc (unat l)"
    by (subst unat_add_lem [THEN iffD1]) (simp_all add: table_sizes)
  ultimately show "((prev, l + 1), prev, l) \<in> measure (\<lambda>(_, l). TCB_TABLE_SIZE - unat l)"
    by simp
qed simp

declare tid_scan.simps [simp del]

definition new_tcb :: "addr \<Rightarrow> paddr \<Rightarrow> addr \<Rightarrow> tcb" where
  "new_tcb entry_addr root stack_top = zero_tcb\<lparr>
     root_pmap := root,
     user_exec_state := zero_exec_state\<lparr>eflags := EFLAGS_IOPL3 OR EFLAGS_IF, eip := entry_addr,
       user_esp := stack_top, ebp := stack_top, cs := UCODE_SEL, ds := UDATA_SEL,
       es := UDATA_SEL, user_ss := UDATA_SEL\<rparr>,
     priority := NORMAL_PRIORITY, thread_state := PAUSED\<rparr>"

definition thread_create :: "addr \<Rightarrow> paddr \<Rightarrow> addr \<Rightarrow> tid option kernel" where
  "thread_create entry_addr addr_space stack_top =
     kbind (kget (\<lambda>s. if addr_space = CURRENT_ROOT_PMAP then get_root_page_map s else addr_space))
       (\<lambda>root.
     kbind (initialize_root_pmap root) (\<lambda>e.
     if IS_ERROR e then kret None
     else
       kbind (kget (\<lambda>s. last_tid s mod MAX_THREADS)) (\<lambda>prev.
       kthen SPINLOCK_ACQUIRE
      (kbind (kbind (kget last_tid) (\<lambda>l. tid_scan prev (l + 1))) (\<lambda>l.
       kthen (kmod (\<lambda>s. s\<lparr>last_tid := l\<rparr>))
      (if prev = l then kthen SPINLOCK_RELEASE (kret None)
       else
         kthen (kguard (unat l < TCB_TABLE_SIZE) OutOfBounds)
        (let thread = ucast l in
         kbind (rd thread thread_state) (\<lambda>st.
         if st \<noteq> INACTIVE then kthen SPINLOCK_RELEASE (kret None)
         else
           kthen (wr thread (\<lambda>_. new_tcb entry_addr root stack_top))
          (kthen (list_enqueue PausedList thread)
          (kthen SPINLOCK_RELEASE (kret (Some thread))))))))))))"

section \<open>Frame\<close>

lemma with_mem_simps [simp]:
  "tcb_table (with_mem m k s) = tcb_table s" "last_tid (with_mem m k s) = last_tid s"
  "tcb_table_lock (with_mem m k s) = tcb_table_lock s"
  "processors (with_mem m k s) = processors s" "num_processors (with_mem m k s) = num_processors s"
  "init_server_thread (with_mem m k s) = init_server_thread s"
  "irq_handlers (with_mem m k s) = irq_handlers s" "cr3 (with_mem m k s) = cr3 s"
  by (simp_all add: with_mem_def)

lemma list_at_with_mem [simp]: "list_at r (with_mem m k s) = list_at r s"
  by (cases r) (simp_all add: with_mem_def)

lemma kinv_with_mem [simp]: "kinv_ex X (with_mem m k s) Q = kinv_ex X s Q"
  by (simp add: kinv_ex_def repr_def wf_cpus_def wf_thread_def on_cpu_def)

lemma strip_with_mem [simp]: "strip (with_mem m k s) = with_mem m k (strip s)"
  by (simp add: strip_def with_mem_def)

definition with_tid :: "32 word \<Rightarrow> bool \<Rightarrow> kstate \<Rightarrow> kstate" where
  "with_tid l b s = s\<lparr>last_tid := l, tcb_table_lock := b\<rparr>"

lemma with_tid_simps [simp]:
  "tcb_table (with_tid l b s) = tcb_table s" "list_at r (with_tid l b s) = list_at r s"
  "kinv_ex X (with_tid l b s) Q = kinv_ex X s Q"
  "strip (with_tid l b s) = with_tid l b (strip s)"
  "with_tid l b (with_tid l' b' s) = with_tid l b s"
  "last_tid (with_tid l b s) = l" "tcb_table_lock (with_tid l b s) = b"
proof -
  show [simp]: "list_at r (with_tid l b s) = list_at r s" for r
    by (cases r) (simp_all add: with_tid_def)
  show "kinv_ex X (with_tid l b s) Q = kinv_ex X s Q"
    by (simp add: kinv_ex_def repr_def wf_cpus_def wf_thread_def on_cpu_def)
      (simp add: with_tid_def)
qed (simp_all add: with_tid_def strip_def)

section \<open>The search for a slot\<close>

text \<open>
  While \<^verbatim>\<open>last_tid\<close> is still inside the table the search ends at the next inactive slot, and
  leaves the table if there is none.
\<close>

lemma unat_ucast_tid: "unat l < TCB_TABLE_SIZE \<Longrightarrow> unat (ucast (l :: 32 word) :: tid) = unat l"
  by (simp add: unsigned_ucast_eq take_bit_nat_eq_self_iff table_sizes)

lemma tid_scan_found:
  assumes "prev < l" and "l \<le> k" and "unat k < TCB_TABLE_SIZE"
    and "thread_state (tcb_table s (ucast k)) = INACTIVE"
    and "\<And>i. l \<le> i \<Longrightarrow> i < k \<Longrightarrow> thread_state (tcb_table s (ucast i)) \<noteq> INACTIVE"
  shows "tid_scan prev l s = Ret k s"
  using assms
proof (induction "unat k - unat l" arbitrary: l)
  case 0
  then have "l = k" by (simp add: word_le_nat_alt word_unat_eq_iff)
  moreover have "in_table (ucast k)"
    using assms(3) by (simp add: in_table_def unat_ucast_tid)
  ultimately show ?case
    using 0 by (auto simp: tid_scan.simps kexec)
next
  case (Suc n)
  then have lk: "unat l < unat k" by (simp add: word_le_nat_alt)
  then have u: "unat (l + 1) = Suc (unat l)"
    using assms(3) by (subst unat_add_lem [THEN iffD1]) (simp_all add: table_sizes)
  have it: "in_table (ucast l)"
    using lk assms(3) by (simp add: in_table_def unat_ucast_tid)
  have "tid_scan prev (l + 1) s = Ret k s"
  proof (rule Suc.hyps)
    show "n = unat k - unat (l + 1)" using Suc.hyps(2) u by simp
    show "prev < l + 1" "l + 1 \<le> k"
      using Suc.prems(1) lk u by (simp_all add: word_less_nat_alt word_le_nat_alt)
    show "thread_state (tcb_table s (ucast i)) \<noteq> INACTIVE" if "l + 1 \<le> i" "i < k" for i
      using that Suc.prems(5) u by (simp add: word_le_nat_alt)
  qed (use assms in simp_all)
  moreover have "thread_state (tcb_table s (ucast l)) \<noteq> INACTIVE"
    using Suc.prems(5) [of l] lk by (simp add: word_less_nat_alt)
  ultimately show ?case
    using Suc.prems(1) lk assms(3) it by (subst tid_scan.simps) (auto simp: kexec)
qed

section \<open>The new thread\<close>

lemma kinv_take_out:
  assumes "kinv_ex X s Q" and "is_thread t" and "t \<notin> X" and "loc (tcb_table s t) = None"
    and "thread_state (tcb_table s t) \<noteq> RUNNING"
  shows "kinv_ex (insert t X) s Q"
proof -
  have "t \<notin> members Q" "\<not> on_cpu s t"
    using kinv_fields(3,4) [OF assms(1-3)] assms(4,5) by (auto simp: members_def)
  then show ?thesis using assms(1) by (auto simp: kinv_ex_def)
qed

lemma inactive_links:
  assumes "kinv s Q" and "is_thread t" and "thread_state (tcb_table s t) = INACTIVE"
    and "Q (SenderQueue t) = []" and "Q (ReceiverQueue t) = []"
  shows "prev_tid (tcb_table s t) = NULL_TID" "next_tid (tcb_table s t) = NULL_TID"
    "sender_wait_queue (tcb_table s t) = null_list" "receiver_wait_queue (tcb_table s t) = null_list"
proof -
  note R = kinv_exD(1) [OF assms(1)]
  have it: "in_table t" using assms(2) by auto
  have "t \<notin> members Q"
    using kinv_fields(3) [OF assms(1,2)] assms(3) by (auto simp: members_def loc_def)
  then show "prev_tid (tcb_table s t) = NULL_TID" "next_tid (tcb_table s t) = NULL_TID"
    using reprD(4,5) [OF R it] by simp_all
  show "sender_wait_queue (tcb_table s t) = null_list" "receiver_wait_queue (tcb_table s t) = null_list"
    using reprD(1) [OF R, of "SenderQueue t"] reprD(1) [OF R, of "ReceiverQueue t"] it assms(4,5)
    by (simp_all add: dll_def null_list_def)
qed

text \<open>Overwriting a control block with one that has the same links.\<close>

definition relink :: "tcb \<Rightarrow> tcb \<Rightarrow> tcb" where
  "relink n c = n\<lparr>prev_tid := prev_tid c, next_tid := next_tid c,
     sender_wait_queue := sender_wait_queue c, receiver_wait_queue := receiver_wait_queue c\<rparr>"

lemma keeps_links_relink [simp]: "keeps_links (relink n)"
  by (simp add: keeps_links_def relink_def)

lemma upd_tcb_cong: "u (tcb_table s t) = v (tcb_table s t) \<Longrightarrow> upd_tcb t u s = upd_tcb t v s"
  by (simp add: upd_tcb_def)

lemma new_tcb_links [simp]:
  "prev_tid (new_tcb e r st) = NULL_TID" "next_tid (new_tcb e r st) = NULL_TID"
  "sender_wait_queue (new_tcb e r st) = null_list" "receiver_wait_queue (new_tcb e r st) = null_list"
  "thread_state (new_tcb e r st) = PAUSED" "priority (new_tcb e r st) = NORMAL_PRIORITY"
  "wait_tid (new_tcb e r st) = NULL_TID"
  by (simp_all add: new_tcb_def zero_tcb_def)

lemma new_thread_kinv:
  assumes "kinv s Q" and "is_thread t" and "thread_state (tcb_table s t) = INACTIVE"
    and "Q (SenderQueue t) = []" and "Q (ReceiverQueue t) = []"
  shows "\<exists>s'. list_enqueue PausedList t (upd_tcb t (\<lambda>_. new_tcb e r st) s) = Ret () s' \<and>
     kinv s' (Q(PausedList := t # Q PausedList)) \<and>
     strip s' = strip (upd_tcb t (\<lambda>_. new_tcb e r st) s)"
proof -
  let ?n = "new_tcb e r st"
  have eq: "upd_tcb t (relink ?n) s = upd_tcb t (\<lambda>_. ?n) s"
    using inactive_links [OF assms] by (intro upd_tcb_cong) (simp add: relink_def new_tcb_def zero_tcb_def)
  have "kinv_ex {t} s Q"
    using kinv_take_out [OF assms(1,2)] assms(3) by (simp add: loc_def)
  then have k: "kinv_ex {t} (upd_tcb t (\<lambda>_. ?n) s) Q"
    using kinv_upd_detached [of "{t}" s Q t "relink ?n"] eq by simp
  obtain s' where s': "list_enqueue PausedList t (upd_tcb t (\<lambda>_. ?n) s) = Ret () s'"
      "repr s' (Q(PausedList := t # Q PausedList))" "strip s' = strip (upd_tcb t (\<lambda>_. ?n) s)"
    using kq.enq [OF kinv_exD(1) [OF k] _ assms(2) kinv_exD(4) [OF k], of PausedList] by auto
  then have "kinv_ex ({t} - {t}) s' (Q(PausedList := t # Q PausedList))"
    by (intro kinv_attach [OF k _ assms(2)]) (simp_all add: loc_def table_sizes)
  with s' show ?thesis by simp
qed

lemma thread_create_kinv:
  assumes "kinv s Q" and "\<not> tcb_table_lock s"
    and "root = (if addr_space = CURRENT_ROOT_PMAP then get_root_page_map s else addr_space)"
    and "initialize_root_pmap root s = Ret E_OK s1"
    and "last_tid s < k" and "unat k < TCB_TABLE_SIZE"
    and "thread_state (tcb_table s (ucast k)) = INACTIVE"
    and "\<And>i. last_tid s < i \<Longrightarrow> i < k \<Longrightarrow> thread_state (tcb_table s (ucast i)) \<noteq> INACTIVE"
    and "Q (SenderQueue (ucast k)) = []" and "Q (ReceiverQueue (ucast k)) = []"
  shows "\<exists>s'. thread_create entry_addr addr_space stack_top s = Ret (Some (ucast k)) s' \<and>
     kinv s' (Q(PausedList := ucast k # Q PausedList)) \<and>
     strip s' = with_tid k False
       (strip (upd_tcb (ucast k) (\<lambda>_. new_tcb entry_addr root stack_top) s1))"
proof -
  let ?t = "ucast k :: tid" and ?n = "new_tcb entry_addr root stack_top"
  obtain m ptab where s1: "s1 = with_mem m ptab s"
    using mem_onlyD [OF mem_only_initialize_root_pmap assms(4)] by blast
  have l: "unat (last_tid s) < 16" "last_tid s mod MAX_THREADS = last_tid s"
  proof -
    show "unat (last_tid s) < 16" using assms(5,6) by (simp add: word_less_nat_alt table_sizes)
    then have "unat (last_tid s mod MAX_THREADS) = unat (last_tid s)"
      by (simp add: MAX_THREADS_def unat_mod)
    then show "last_tid s mod MAX_THREADS = last_tid s" by (rule unsigned_word_eqI)
  qed
  have u: "unat (last_tid s + 1) = Suc (unat (last_tid s))"
    using l by (subst unat_add_lem [THEN iffD1]) simp_all
  have t: "is_thread ?t"
  proof -
    have "unat ?t = unat k" by (rule unat_ucast_tid [OF assms(6)])
    moreover have "0 < unat k" using assms(5) by (simp add: word_less_nat_alt)
    ultimately show ?thesis using assms(6) by (auto simp: is_thread_def in_table_def)
  qed
  let ?s2 = "with_tid k False s1"
  have sc: "tid_scan (last_tid s) (last_tid s + 1) s1 = Ret k s1"
    by (rule tid_scan_found)
      (use assms(5-8) u s1 in \<open>simp_all add: word_less_nat_alt word_le_nat_alt\<close>)
  have k2: "kinv ?s2 Q" using assms(1) s1 by simp
  obtain s3 where s3: "list_enqueue PausedList ?t (upd_tcb ?t (\<lambda>_. ?n) ?s2) = Ret () s3"
      "kinv s3 (Q(PausedList := ?t # Q PausedList))"
      "strip s3 = strip (upd_tcb ?t (\<lambda>_. ?n) ?s2)"
    using new_thread_kinv [OF k2 t _ assms(9,10)] assms(7) s1 by fastforce
  have st: "strip s3 = with_tid k False (strip (upd_tcb ?t (\<lambda>_. ?n) s1))"
    using s3(3) by (simp add: with_tid_def strip_def upd_tcb_def)
  have "tcb_table_lock s3 = tcb_table_lock (strip s3)" by (simp add: strip_def)
  then have l3: "s3\<lparr>tcb_table_lock := False\<rparr> = s3"
    using st by (simp add: with_tid_def)
  have s2: "s1\<lparr>last_tid := k\<rparr> = ?s2"
    using assms(2) s1 by (simp add: with_tid_def with_mem_def)
  have it: "in_table ?t" "thread_state (tcb_table s1 ?t) = INACTIVE" "last_tid s \<noteq> k"
    using t assms(5,7) s1 by auto
  have "thread_create entry_addr addr_space stack_top s = Ret (Some ?t) s3"
    using assms(2,4,6) l(2) sc s1 s2 s3(1) l3 it
    by (simp add: thread_create_def kbind_def kthen_def kget_def kret_def kmod_def kguard_def
        SPINLOCK_ACQUIRE_def SPINLOCK_RELEASE_def rd_def wr_def error_codes Let_def
        flip: assms(3))
  with s3(2) st show ?thesis by blast
qed

section \<open>A full table\<close>

text \<open>The scan never wraps around: with no free entry after \<open>last_tid\<close> it leaves the table.\<close>

lemma tid_scan_overrun:
  assumes "unat prev < unat l" and "unat l \<le> TCB_TABLE_SIZE"
    and "\<And>i. unat l \<le> i \<Longrightarrow> i < TCB_TABLE_SIZE \<Longrightarrow> thread_state (tcb_table s (of_nat i)) \<noteq> INACTIVE"
  shows "tid_scan prev l s = Fault OutOfBounds"
  using assms
proof (induction prev l rule: tid_scan.induct)
  case (1 prev l)
  show ?case
  proof (cases "unat l < TCB_TABLE_SIZE")
    case True
    have u: "unat (l + 1) = Suc (unat l)"
      using True by (subst unat_add_lem [THEN iffD1]) (simp_all add: table_sizes)
    have c: "(ucast l :: tid) = of_nat (unat l)" by (simp add: of_nat_unat)
    then have a: "thread_state (tcb_table s (ucast l)) \<noteq> INACTIVE" using 1(4) [of "unat l"] True by simp
    have it: "in_table (ucast l)" using unat_ucast_tid [OF True] True by (simp add: in_table_def)
    have "tid_scan prev (l + 1) s = Fault OutOfBounds"
      using True 1(2-4) u by (intro 1(1)) auto
    then show ?thesis
      using a it True 1(2) by (subst tid_scan.simps) (auto simp: kbind_def rd_def)
  qed (use 1(2) in \<open>subst tid_scan.simps, auto simp: kfail_def\<close>)
qed

lemma thread_create_overruns:
  assumes "\<not> tcb_table_lock s" and "unat (last_tid s) < TCB_TABLE_SIZE"
    and "root = (if addr_space = CURRENT_ROOT_PMAP then get_root_page_map s else addr_space)"
    and "initialize_root_pmap root s = Ret E_OK s1"
    and "\<And>i. unat (last_tid s) < i \<Longrightarrow> i < TCB_TABLE_SIZE \<Longrightarrow>
      thread_state (tcb_table s (of_nat i)) \<noteq> INACTIVE"
  shows "thread_create entry_addr addr_space stack_top s = Fault OutOfBounds"
proof -
  obtain m pt where s1: "s1 = with_mem m pt s"
    using mem_onlyD [OF mem_only_initialize_root_pmap assms(4)] by blast
  have u: "unat (last_tid s + 1) = Suc (unat (last_tid s))"
    using assms(2) by (subst unat_add_lem [THEN iffD1]) (simp_all add: table_sizes)
  have "unat (last_tid s mod MAX_THREADS) = unat (last_tid s)"
    using assms(2) by (simp add: MAX_THREADS_def unat_mod table_sizes)
  then have "last_tid s mod MAX_THREADS = last_tid s" by (rule unsigned_word_eqI)
  moreover have "tid_scan (last_tid s) (last_tid s + 1) s1 = Fault OutOfBounds"
    using assms(2,5) u s1 by (intro tid_scan_overrun) auto
  ultimately show ?thesis
    using assms(1,4) s1
    by (simp add: thread_create_def kbind_def kthen_def kget_def kguard_def SPINLOCK_ACQUIRE_def
        error_codes flip: assms(3))
qed

end
