(* ===== verification/Message.thy ===== *)
theory Message
  imports Thread_Create
begin

text \<open>
  Synchronous message passing (\<^verbatim>\<open>send_message\<close> and \<^verbatim>\<open>receive_message\<close> of
  \<^verbatim>\<open>kernel/message.c\<close>). A blocked partner keeps its buffer in \<^verbatim>\<open>ebx\<close>, the length in \<^verbatim>\<open>edi\<close>,
  the flags in \<^verbatim>\<open>ecx\<close> and the subject in \<^verbatim>\<open>esi\<close> of its saved registers.
\<close>

section \<open>Operations\<close>

definition MSG_NOBLOCK :: "16 word" where "MSG_NOBLOCK = 0x01"
definition MSG_KERNEL :: "16 word" where "MSG_KERNEL = 0x80"

text \<open>Leaving for the next thread, after the current one has blocked.\<close>

definition reschedule :: "'a kernel" where
  "reschedule = kbind (schedule processor_get_current) (\<lambda>t. thread_switch_context t True)"

definition send_ready :: "bool \<Rightarrow> tid \<Rightarrow> tcb \<Rightarrow> bool" where
  "send_ready is_kernel_msg sender_tid c \<longleftrightarrow> thread_state c = WAIT_FOR_SEND \<and>
     (is_kernel_msg \<or> (wait_tid c = ANY_SENDER \<and> \<not> wait_for_kernel_msg c) \<or>
      wait_tid c = sender_tid)"

text \<open>The delivery branch of \<^verbatim>\<open>send_message\<close>; \<open>c\<close> is the recipient's control block.\<close>

definition deliver ::
    "tid \<Rightarrow> tid \<Rightarrow> bool \<Rightarrow> 32 word \<Rightarrow> 16 word \<Rightarrow> addr \<Rightarrow> 32 word \<Rightarrow> int kernel" where
  "deliver sender recipient is_kernel_msg subject flags send_buffer send_buffer_length =
     kbind (rd recipient id) (\<lambda>c.
     kthen (kguard (\<not> wait_for_kernel_msg c \<or> wait_tid c = NULL_TID) AssertFail)
    (let recipient_buffer = ebx (user_exec_state c);
         recipient_buffer_length = edi (user_exec_state c);
         actually_sent = min recipient_buffer_length send_buffer_length in
     kbind (poke_virt recipient_buffer actually_sent send_buffer (root_pmap c)) (\<lambda>e.
     if IS_ERROR e then kret E_FAIL
     else kbind (thread_start recipient) (\<lambda>e.
       if IS_ERROR e then kret E_FAIL
       else kthen (kseq
         [kbind (rd recipient wait_for_kernel_msg) (\<lambda>k. wr recipient (upd_regs (\<lambda>r. r\<lparr>eax :=
            code32 (if is_kernel_msg \<and> \<not> k then E_PREEMPT else E_OK)\<rparr>))),
          wr recipient (upd_regs (\<lambda>r. r\<lparr>ebx :=
            ucast (if is_kernel_msg then KERNEL_TID else get_tid sender) OR
            push_bit 16 (ucast flags)\<rparr>)),
          wr recipient (upd_regs (\<lambda>r. r\<lparr>esi := subject\<rparr>)),
          wr recipient (upd_regs (\<lambda>r. r\<lparr>edi := actually_sent\<rparr>)),
          wr recipient (\<lambda>c. c\<lparr>wait_for_kernel_msg := False\<rparr>),
          wr sender (upd_regs (\<lambda>r. r\<lparr>ebx := ucast (get_tid recipient)\<rparr>)),
          wr sender (upd_regs (\<lambda>r. r\<lparr>esi := actually_sent\<rparr>))])
         (kret E_OK)))))"

text \<open>The registers a blocked sender or recipient is left with.\<close>

definition park :: "tid \<Rightarrow> bool \<Rightarrow> (ExecutionState \<Rightarrow> ExecutionState) \<Rightarrow> unit kernel" where
  "park t k regs = kseq [wr t (\<lambda>c. c\<lparr>wait_for_kernel_msg := k\<rparr>), wr t (upd_regs regs)]"

definition send_message ::
    "tid \<Rightarrow> tid \<Rightarrow> 32 word \<Rightarrow> 16 word \<Rightarrow> addr \<Rightarrow> 32 word \<Rightarrow> int kernel" where
  "send_message sender recipient_tid subject flags send_buffer send_buffer_length =
     (let sender_tid = get_tid sender; is_kernel_msg = IS_FLAG_SET flags MSG_KERNEL in
      if sender_tid = recipient_tid then kret E_INVALID_ARG
      else if send_buffer_length > 0 \<and> send_buffer = 0 then kret E_INVALID_ARG
      else
        kbind (kbind (if recipient_tid = ANY_RECIPIENT
                      then kbind (ld_list (ReceiverQueue sender)) (\<lambda>l. kret (\<not> LIST_IS_EMPTY l))
                      else kret False) (\<lambda>any_waiting.
          if any_waiting then
            kbind (list_dequeue (ReceiverQueue sender)) (\<lambda>r. kbind (deref r) (\<lambda>r.
            kbind (rd r thread_state) (\<lambda>st.
            kthen (kguard (st = WAIT_FOR_SEND) AssertFail) (kret (Some r)))))
          else kret (get_tcb recipient_tid))) (\<lambda>recipient.
        kbind (case recipient of None \<Rightarrow> kret (False, False)
               | Some r \<Rightarrow> kbind (rd r id) (\<lambda>c. kret
                   (thread_state c = INACTIVE \<or> thread_state c = ZOMBIE,
                    send_ready is_kernel_msg sender_tid c))) (\<lambda>(dead, ready).
        if dead then kret E_UNREACH
        else if ready then
          kbind (deref recipient) (\<lambda>r.
            deliver sender r is_kernel_msg subject flags send_buffer send_buffer_length)
        else if IS_FLAG_SET flags MSG_NOBLOCK then kret E_BLOCK
        else kbind (thread_remove_from_list sender) (\<lambda>e.
          if IS_ERROR e then kret E_FAIL
          else kthen (kseq
            [attach_sender_wait_queue sender recipient,
             park sender is_kernel_msg (\<lambda>r. r\<lparr>eax := code32 E_INTERRUPT, ebx := send_buffer,
               ecx := ucast flags, esi := subject, edi := send_buffer_length\<rparr>)])
            reschedule))))"

definition receive_ready :: "bool \<Rightarrow> tid \<Rightarrow> tcb \<Rightarrow> bool" where
  "receive_ready is_expecting_kernel_msg recipient_tid c \<longleftrightarrow> thread_state c = WAIT_FOR_RECV \<and>
     (wait_for_kernel_msg c \<or> wait_tid c = recipient_tid \<or>
      (\<not> is_expecting_kernel_msg \<and> wait_tid c = ANY_RECIPIENT))"

definition accept ::
    "tid \<Rightarrow> tid \<Rightarrow> bool \<Rightarrow> addr \<Rightarrow> 32 word \<Rightarrow> int kernel" where
  "accept recipient sender is_expecting_kernel_msg recv_buffer recv_buffer_length =
     kbind (rd sender id) (\<lambda>c.
     let send_buffer = ebx (user_exec_state c);
         send_buffer_length = edi (user_exec_state c);
         actually_recv = min send_buffer_length recv_buffer_length in
     kbind (peek_virt send_buffer actually_recv recv_buffer (root_pmap c)) (\<lambda>e.
     if IS_ERROR e then kret E_FAIL
     else kbind (thread_start sender) (\<lambda>e.
       if IS_ERROR e then kret E_FAIL
       else kbind (rd sender id) (\<lambda>c.
         kthen (kseq
           [wr recipient (upd_regs (\<lambda>r. r\<lparr>ebx :=
              ucast (if wait_for_kernel_msg c then KERNEL_TID else get_tid sender) OR
              push_bit 16 (ecx (user_exec_state c))\<rparr>)),
            wr recipient (upd_regs (\<lambda>r. r\<lparr>esi := esi (user_exec_state c)\<rparr>)),
            wr recipient (upd_regs (\<lambda>r. r\<lparr>edi := actually_recv\<rparr>)),
            wr sender (\<lambda>c. c\<lparr>wait_for_kernel_msg := False\<rparr>),
            wr sender (upd_regs (\<lambda>r. r\<lparr>eax := code32 E_OK\<rparr>)),
            wr sender (upd_regs (\<lambda>r. r\<lparr>esi := actually_recv\<rparr>))])
          (kret (if is_expecting_kernel_msg \<and> \<not> wait_for_kernel_msg c then E_PREEMPT
                 else E_OK))))))"

text \<open>
  In the blocking branch it is the sender, not the recipient, that is taken off its list and
  attached to a wait queue, as in the source.
\<close>

definition receive_message ::
    "tid \<Rightarrow> tid \<Rightarrow> 16 word \<Rightarrow> addr \<Rightarrow> 32 word \<Rightarrow> int kernel" where
  "receive_message recipient sender_tid flags recv_buffer recv_buffer_length =
     (let recipient_tid = get_tid recipient;
          is_expecting_kernel_msg = IS_FLAG_SET flags MSG_KERNEL in
      if recipient_tid = sender_tid then kret E_INVALID_ARG
      else if recv_buffer_length > 0 \<and> recv_buffer = 0 then kret E_INVALID_ARG
      else
        kbind (kbind (if sender_tid = ANY_SENDER \<and> recv_buffer_length > 0
                      then kbind (ld_list (SenderQueue recipient)) (\<lambda>l. kret (\<not> LIST_IS_EMPTY l))
                      else kret False) (\<lambda>any_waiting.
          if any_waiting then
            kbind (list_dequeue (SenderQueue recipient)) (\<lambda>t. kbind (get_tid_ptr t) (\<lambda>_. kret t))
          else kret (get_tcb sender_tid))) (\<lambda>sender.
        kbind (case sender of None \<Rightarrow> kret False
               | Some t \<Rightarrow> kbind (rd t id) (\<lambda>c. kret
                   (receive_ready is_expecting_kernel_msg recipient_tid c))) (\<lambda>ready.
        if ready then
          kbind (deref sender) (\<lambda>t.
            accept recipient t is_expecting_kernel_msg recv_buffer recv_buffer_length)
        else if IS_FLAG_SET flags MSG_NOBLOCK then kret E_BLOCK
        else kbind (deref sender) (\<lambda>sender.
          kbind (thread_remove_from_list sender) (\<lambda>e.
          if IS_ERROR e then kret E_FAIL
          else kthen (kseq
            [attach_receiver_wait_queue sender (Some recipient),
             park recipient is_expecting_kernel_msg (\<lambda>r. r\<lparr>eax := code32 E_INTERRUPT,
               ebx := recv_buffer, ecx := ucast flags, edi := recv_buffer_length\<rparr>)])
            reschedule)))))"

section \<open>The context switch\<close>

lemma kinv_cong:
  assumes "tcb_table s' = tcb_table s" "run_queues s' = run_queues s"
    "paused_list s' = paused_list s" "zombie_list s' = zombie_list s"
    "processors s' = processors s" "num_processors s' = num_processors s"
  shows "kinv_ex X s' Q = kinv_ex X s Q"
proof -
  have "list_at r s' = list_at r s" for r by (cases r) (simp_all add: assms)
  then show ?thesis
    by (simp add: kinv_ex_def repr_def wf_cpus_def wf_thread_def on_cpu_def assms)
qed

text \<open>
  The state after \<open>thread_switch_context\<close>. The image saved and the image restored are both
  the one at the new thread's address when the thread is already current.
\<close>

definition switched :: "tid \<Rightarrow> tid \<Rightarrow> bool \<Rightarrow> kstate \<Rightarrow> kstate" where
  "switched t i do_fxsave s =
     (let c = tcb_table s t;
          old = (case thread_get_current s of None \<Rightarrow> 0 | Some o' \<Rightarrow> fxsave_state (tcb_table s o'));
          mem = (if do_fxsave \<and> old \<noteq> 0 then (fx_mem s)(old := fpu s) else fx_mem s) in
      s\<lparr>cr3 := root_pmap (tcb_table s i), user_regs := user_exec_state c,
        tss_esp0 := kernel_stack_top s - SIZEOF_ExecutionState - 4,
        fx_mem := mem,
        fpu := (if do_fxsave \<and> fxsave_state c \<noteq> 0 then mem (fxsave_state c) else fpu s)\<rparr>)"

lemma thread_switch_context_eq:
  assumes "in_table t" and "thread_state (tcb_table s t) = RUNNING"
    and "init_server_thread s = Some i" and "in_table i"
    and "\<And>o'. thread_get_current s = Some o' \<Longrightarrow> in_table o'"
  shows "thread_switch_context t do_fxsave s = Switch (switched t i do_fxsave s)"
  using assms
  by (cases "thread_get_current s")
    (auto simp: thread_switch_context_def kthen_def kbind_def kguard_def kmod_def kget_def kskip_def
      kwhen_def rd_def deref_def RESTORE_STATE_def set_cr3_def fxsave_def fxrstor_def switched_def
      thread_get_current_def Let_def)

lemma kinv_switched [simp]: "kinv_ex X (switched t i b s) Q = kinv_ex X s Q"
  by (rule kinv_cong) (simp_all add: switched_def Let_def)

lemma switched_simps [simp]:
  "tcb_table (switched t i b s) = tcb_table s" "processors (switched t i b s) = processors s"
  "user_regs (switched t i b s) = user_exec_state (tcb_table s t)"
  "phys (switched t i b s) = phys s"
  by (simp_all add: switched_def Let_def)

lemma strip_machine [simp]:
  "init_server_thread (strip s) = init_server_thread s" "phys (strip s) = phys s"
  "fpu (strip s) = fpu s" "fx_mem (strip s) = fx_mem s" "cr3 (strip s) = cr3 s"
  "mmu (strip s) = mmu s" "irq_handlers (strip s) = irq_handlers s"
  "fxsave_state (tcb_table (strip s) t) = fxsave_state (tcb_table s t)"
  by (simp_all add: strip_def strip_tcb_def)

lemma set_running_frame [simp]:
  "init_server_thread (set_running p t s) = init_server_thread s"
  "phys (set_running p t s) = phys s" "fpu (set_running p t s) = fpu s"
  "fx_mem (set_running p t s) = fx_mem s" "irq_handlers (set_running p t s) = irq_handlers s"
  by (simp_all add: set_running_def)

lemma dispatched_frame [simp]:
  "init_server_thread (dispatched pid cur t s) = init_server_thread s"
  "phys (dispatched pid cur t s) = phys s" "fpu (dispatched pid cur t s) = fpu s"
  "fx_mem (dispatched pid cur t s) = fx_mem s" "irq_handlers (dispatched pid cur t s) = irq_handlers s"
  by (simp_all add: dispatched_def split: option.split)

lemma reschedule_idle:
  assumes k: "kinv s Q" and none: "thread_get_current s = None"
    and p: "pick Q MIN_PRIORITY NUM_PRIORITIES = Some p"
    and i: "init_server_thread s = Some i" "in_table i"
  defines "t \<equiv> last (Q (RunQueue p))"
  shows "\<exists>s1. reschedule s = Switch (switched t i True s1) \<and>
     kinv s1 (Q(RunQueue p := butlast (Q (RunQueue p)))) \<and>
     strip s1 = dispatched processor_get_current None t (strip s) \<and>
     thread_get_current s1 = Some t \<and> is_thread t \<and> thread_state (tcb_table s1 t) = RUNNING"
proof -
  have n: "processor_get_current < num_processors s"
    using kinv_exD(2) [OF k] by (simp add: wf_cpus_def processor_get_current_def)
  have lo: "min_priority_of s processor_get_current = MIN_PRIORITY"
    using none by (simp add: min_priority_of_def thread_get_current_def)
  obtain s1 where s1: "schedule processor_get_current s = Ret t s1"
      "kinv s1 (Q(RunQueue p := butlast (Q (RunQueue p))))"
      "strip s1 = dispatched processor_get_current None t (strip s)"
    using schedule_refines [OF k n] none p
    by (auto simp: lo t_def requeued_def thread_get_current_def simp del: fun_upd_apply)
  have "t \<in> set (Q (RunQueue p))" using p pick_Some [of Q MIN_PRIORITY NUM_PRIORITIES p] t_def by auto
  then have t: "is_thread t" by (rule repr_thread [OF kinv_exD(1) [OF k]])
  have f: "thread_state (tcb_table s1 t) = RUNNING" "thread_get_current s1 = Some t"
    using strip_fields(3,8) [OF s1(3)]
    by (simp_all add: dispatched_tcb dispatched_cpus thread_get_current_def)
  have "init_server_thread s1 = init_server_thread (strip s1)" by simp
  then have "init_server_thread s1 = Some i" using s1(3) i(1) by simp
  then have "thread_switch_context t True s1 = Switch (switched t i True s1)"
    using t f i(2) by (intro thread_switch_context_eq) auto
  then show ?thesis using s1 t f by (auto simp: reschedule_def kbind_def simp del: fun_upd_apply)
qed

section \<open>Delivering a message\<close>

lemma keeps_sched_fields [simp]:
  "keeps_sched (upd_regs f)" "keeps_sched (wait_for_kernel_msg_update g)"
  by (simp_all add: keeps_sched_def keeps_links_def upd_regs_def)

lemma strip_upd_regs [simp]: "strip (upd_tcb t (upd_regs f) s) = upd_tcb t (upd_regs f) (strip s)"
  by (rule strip_upd_keeps) (simp add: upd_regs_def strip_tcb_def)

definition delivered ::
    "bool \<Rightarrow> tid \<Rightarrow> 32 word \<Rightarrow> 16 word \<Rightarrow> 32 word \<Rightarrow> tcb \<Rightarrow> tcb" where
  "delivered is_kernel_msg sender subject flags n c =
     (upd_regs (\<lambda>r. r\<lparr>
        eax := code32 (if is_kernel_msg \<and> \<not> wait_for_kernel_msg c then E_PREEMPT else E_OK),
        ebx := ucast (if is_kernel_msg then KERNEL_TID else sender) OR push_bit 16 (ucast flags),
        esi := subject, edi := n\<rparr>) c)\<lparr>wait_for_kernel_msg := False\<rparr>"

definition sent :: "tid \<Rightarrow> 32 word \<Rightarrow> tcb \<Rightarrow> tcb" where
  "sent recipient n = upd_regs (\<lambda>r. r\<lparr>ebx := ucast recipient, esi := n\<rparr>)"

lemma keeps_sched_delivered [simp]: "keeps_sched (delivered k t su fl n)" "keeps_sched (sent r n)"
  by (simp_all add: keeps_sched_def keeps_links_def upd_regs_def delivered_def sent_def)

lemma strip_delivered [simp]:
  "strip (upd_tcb t (delivered k se su fl n) s) = upd_tcb t (delivered k se su fl n) (strip s)"
  "strip (upd_tcb t (sent r n) s) = upd_tcb t (sent r n) (strip s)"
  by (rule strip_upd_keeps; simp add: upd_regs_def delivered_def sent_def strip_tcb_def)+

lemma deliver_kinv:
  assumes "kinv s Q" and "is_thread sender" and "is_thread r" and "sender \<noteq> r"
    and "thread_state (tcb_table s r) = WAIT_FOR_SEND"
    and "\<not> wait_for_kernel_msg (tcb_table s r) \<or> wait_tid (tcb_table s r) = NULL_TID"
    and "n = min (edi (user_exec_state (tcb_table s r))) len"
    and "poke_virt (ebx (user_exec_state (tcb_table s r))) n buffer (root_pmap (tcb_table s r)) s =
      Ret e s1" and "\<not> IS_ERROR e"
  shows "\<exists>s'. deliver sender r k subject flags buffer len s = Ret E_OK s' \<and>
     kinv s' (moved r (run_queue s r) Q) \<and>
     strip s' = upd_tcb sender (sent r n) (upd_tcb r (delivered k sender subject flags n)
       (upd_tcb r (\<lambda>c. c\<lparr>wait_tid := NULL_TID, thread_state := READY\<rparr>) (strip s1)))"
proof -
  obtain m pt where s1: "s1 = with_mem m pt s" using mem_onlyD [OF mem_only_poke_virt(1) assms(8)] by blast
  have k1: "kinv s1 Q" using assms(1) s1 by simp
  have rq: "run_queue s1 r = run_queue s r" using s1 by (simp add: run_queue_def)
  obtain s2 where s2: "thread_start r s1 = Ret E_OK s2" "kinv s2 (moved r (run_queue s r) Q)"
      "strip s2 = upd_tcb r (\<lambda>c. c\<lparr>thread_state := READY\<rparr>) (detached r (strip s1))"
    using thread_start_kinv [OF k1 assms(3)] assms(5) s1 rq by auto
  have d: "strip s2 = upd_tcb r (\<lambda>c. c\<lparr>wait_tid := NULL_TID, thread_state := READY\<rparr>) (strip s1)"
    using s2(3) assms(5) s1 by (simp add: detached_def upd_tcb_def)
  let ?s3 = "upd_tcb sender (sent r n) (upd_tcb r (delivered k sender subject flags n) s2)"
  have it: "in_table sender" "in_table r" using assms(2,3) by auto
  have "deliver sender r k subject flags buffer len s = Ret E_OK ?s3"
    using assms(4,6-9) it s2(1)
    by (simp add: deliver_def kthen_def kbind_def rd_def kguard_def kret_def wr_def kskip_def Let_def
        error_codes)
      (simp add: upd_tcb_def delivered_def sent_def upd_regs_def get_tid_def fun_upd_twist error_codes)
  moreover have "kinv ?s3 (moved r (run_queue s r) Q)"
    by (intro kinv_upd_keeps s2(2)) simp_all
  moreover have "strip ?s3 = upd_tcb sender (sent r n) (upd_tcb r (delivered k sender subject flags n)
       (upd_tcb r (\<lambda>c. c\<lparr>wait_tid := NULL_TID, thread_state := READY\<rparr>) (strip s1)))"
    by (simp add: d)
  ultimately show ?thesis by blast
qed

lemma send_message_ready:
  assumes "recipient_tid \<noteq> sender" and "recipient_tid \<noteq> ANY_RECIPIENT" and "in_table recipient_tid"
    and "\<not> (len > 0 \<and> buffer = 0)"
    and "send_ready (IS_FLAG_SET flags MSG_KERNEL) sender (tcb_table s recipient_tid)"
  shows "send_message sender recipient_tid subject flags buffer len s =
     deliver sender recipient_tid (IS_FLAG_SET flags MSG_KERNEL) subject flags buffer len s"
  using assms
  by (auto simp: send_message_def Let_def get_tid_def kbind_def kret_def rd_def deref_def send_ready_def)

section \<open>Blocking\<close>

definition parked :: "bool \<Rightarrow> (ExecutionState \<Rightarrow> ExecutionState) \<Rightarrow> tcb \<Rightarrow> tcb" where
  "parked k regs c = upd_regs regs (c\<lparr>wait_for_kernel_msg := k\<rparr>)"

lemma park_eq: "in_table t \<Longrightarrow> park t k regs s = Ret () (upd_tcb t (parked k regs) s)"
  by (simp add: park_def kexec parked_def upd_tcb_def)

lemma keeps_sched_parked [simp]: "keeps_sched (parked k regs)"
  by (simp add: keeps_sched_def keeps_links_def parked_def upd_regs_def)

lemma strip_parked [simp]: "strip (upd_tcb t (parked k regs) s) = upd_tcb t (parked k regs) (strip s)"
  by (rule strip_upd_keeps) (simp add: parked_def upd_regs_def strip_tcb_def)

text \<open>
  A running thread blocks on the wait queue of \<open>partner\<close>; its processor is idle when
  \<open>reschedule\<close> is reached.
\<close>

lemma park_current:
  assumes k: "kinv s Q" and cur: "thread_get_current s = Some t"
    and wq: "queue_ref (wq partner)" "in_table partner"
    and loc: "\<And>c. loc (c\<lparr>thread_state := st, wait_tid := partner\<rparr>) = Some (wq partner)"
  shows "\<exists>s3. kbind (thread_remove_from_list t) (\<lambda>e. if IS_ERROR e then kret E_FAIL
       else kthen (kseq [attach_to wq st t (Some partner), park t kf regs]) reschedule) s =
       reschedule s3 \<and>
     kinv s3 (Q(wq partner := t # Q (wq partner))) \<and> thread_get_current s3 = None \<and>
     strip s3 = upd_tcb t (parked kf regs)
       (upd_tcb t (\<lambda>c. c\<lparr>thread_state := st, wait_tid := partner\<rparr>) (cpu_drop t (strip s)))"
proof -
  note t = kinv_current(2) [OF k cur] and run = kinv_current(3) [OF k cur]
  obtain s1 where s1: "thread_remove_from_list t s = Ret E_OK s1" "kinv_ex {t} s1 (Qdel t Q)"
      "strip s1 = detached t (strip s)"
    using thread_remove_from_list_kinv [OF k t] run by auto
  have k1: "kinv_ex {t} s1 Q" using s1(2) kinv_current(4) [OF k cur] by simp
  have d: "strip s1 = cpu_drop t (strip s)" using s1(3) run by (simp add: detached_def)
  let ?Q2 = "Q(wq partner := t # Q (wq partner))"
  obtain s2 where s2: "attach_to wq st t (Some partner) s1 = Ret () s2" "kinv s2 ?Q2"
      "strip s2 = upd_tcb t (\<lambda>c. c\<lparr>thread_state := st, wait_tid := partner\<rparr>) (strip s1)"
    using attach_to_kinv [where wq = wq and st = st and p = partner, OF k1 _ t wq
        detached_wf(1) [OF k t s1(3)] loc] by auto
  let ?s3 = "upd_tcb t (parked kf regs) s2"
  have k3: "kinv ?s3 ?Q2" by (rule kinv_upd_keeps [OF s2(2)]) simp
  have st3: "strip ?s3 = upd_tcb t (parked kf regs) (upd_tcb t
      (\<lambda>c. c\<lparr>thread_state := st, wait_tid := partner\<rparr>) (cpu_drop t (strip s)))"
    by (simp add: s2(3) d)
  have none: "thread_get_current ?s3 = None"
  proof -
    have "processors ?s3 = processors (cpu_drop t (strip s))" using strip_fields(8) [OF st3] by simp
    then show ?thesis
      using cur kinv_exD(2) [OF k]
      by (simp add: thread_get_current_def processor_get_current_def wf_cpus_def)
  qed
  have it: "in_table t" using t by auto
  have nf: "thread_remove_from_list t s = Ret 0 s1" using s1(1) by (simp add: error_codes)
  show ?thesis
    using nf s2(1) park_eq [OF it, of kf regs s2] st3 k3 none
    by (intro exI [of _ ?s3])
      (simp add: kbind_def kthen_def kskip_def error_codes del: fun_upd_apply)
qed

text \<open>The processor is then given to the thread at the head of the highest non-empty run queue.\<close>

lemma block_current:
  assumes k: "kinv s Q" and cur: "thread_get_current s = Some t"
    and wq: "queue_ref (wq partner)" "in_table partner"
    and loc: "\<And>c. loc (c\<lparr>thread_state := st, wait_tid := partner\<rparr>) = Some (wq partner)"
    and nrq: "\<And>q. wq partner \<noteq> RunQueue q"
    and p: "pick Q MIN_PRIORITY NUM_PRIORITIES = Some p"
    and i: "init_server_thread s = Some i" "in_table i"
  defines "nx \<equiv> last (Q (RunQueue p))"
  defines "Q' \<equiv> (Q(wq partner := t # Q (wq partner)))(RunQueue p := butlast (Q (RunQueue p)))"
  shows "\<exists>s1. kbind (thread_remove_from_list t) (\<lambda>e. if IS_ERROR e then kret E_FAIL
       else kthen (kseq [attach_to wq st t (Some partner), park t kf regs]) reschedule) s =
       Switch (switched nx i True s1) \<and>
     kinv s1 Q' \<and> thread_get_current s1 = Some nx \<and>
     strip s1 = dispatched processor_get_current None nx (upd_tcb t (parked kf regs)
       (upd_tcb t (\<lambda>c. c\<lparr>thread_state := st, wait_tid := partner\<rparr>) (cpu_drop t (strip s))))"
proof -
  let ?Q2 = "Q(wq partner := t # Q (wq partner))"
  obtain s3 where s3: "kbind (thread_remove_from_list t) (\<lambda>e. if IS_ERROR e then kret E_FAIL
       else kthen (kseq [attach_to wq st t (Some partner), park t kf regs]) reschedule) s =
       reschedule s3" "kinv s3 ?Q2" "thread_get_current s3 = None"
      "strip s3 = upd_tcb t (parked kf regs)
       (upd_tcb t (\<lambda>c. c\<lparr>thread_state := st, wait_tid := partner\<rparr>) (cpu_drop t (strip s)))"
    using park_current [where wq = wq and st = st, OF k cur wq loc] by blast
  have i3: "init_server_thread s3 = Some i"
  proof -
    have "init_server_thread s3 = init_server_thread (strip s3)" by simp
    then show ?thesis unfolding s3(4) using i(1) by (simp add: cpu_drop_def)
  qed
  have p3: "pick ?Q2 MIN_PRIORITY NUM_PRIORITIES = Some p"
  proof -
    have "pick ?Q2 lo n = pick Q lo n" for lo n using nrq [symmetric] by (induction n) simp_all
    then show ?thesis using p by simp
  qed
  have rq: "?Q2 (RunQueue p) = Q (RunQueue p)" using nrq [symmetric] by simp
  show ?thesis
    using reschedule_idle [OF s3(2,3) p3 i3 i(2)] s3(4) unfolding rq Q'_def nx_def s3(1) by auto
qed

lemma send_message_blocks:
  assumes "r \<noteq> sender" and "is_thread r" and "\<not> (len > 0 \<and> buffer = 0)"
    and "thread_state (tcb_table s r) \<notin> {INACTIVE, ZOMBIE}"
    and "\<not> send_ready (IS_FLAG_SET flags MSG_KERNEL) sender (tcb_table s r)"
    and "\<not> IS_FLAG_SET flags MSG_NOBLOCK"
  shows "send_message sender r subject flags buffer len s =
     kbind (thread_remove_from_list sender) (\<lambda>e. if IS_ERROR e then kret E_FAIL
       else kthen (kseq [attach_to SenderQueue WAIT_FOR_RECV sender (Some r),
         park sender (IS_FLAG_SET flags MSG_KERNEL) (\<lambda>r. r\<lparr>eax := code32 E_INTERRUPT,
           ebx := buffer, ecx := ucast flags, esi := subject, edi := len\<rparr>)]) reschedule) s"
proof -
  have "in_table r" "r \<noteq> NULL_TID" using assms(2) by auto
  then show ?thesis
    using assms unfolding attach_to_eqs(1) [symmetric]
    by (auto simp: send_message_def Let_def get_tid_def rd_def kbind_Ret kret_def)
qed

lemma send_message_refused:
  assumes "is_thread sender"
  shows "send_message sender sender subject flags buffer len s = Ret E_INVALID_ARG s"
    and "len > 0 \<Longrightarrow> send_message sender r subject flags 0 len s = Ret E_INVALID_ARG s"
    and "is_thread r \<Longrightarrow> r \<noteq> sender \<Longrightarrow> \<not> (len > 0 \<and> buffer = 0) \<Longrightarrow>
       thread_state (tcb_table s r) \<in> {INACTIVE, ZOMBIE} \<Longrightarrow>
       send_message sender r subject flags buffer len s = Ret E_UNREACH s"
    and "is_thread r \<Longrightarrow> r \<noteq> sender \<Longrightarrow> \<not> (len > 0 \<and> buffer = 0) \<Longrightarrow>
       thread_state (tcb_table s r) \<notin> {INACTIVE, ZOMBIE} \<Longrightarrow>
       \<not> send_ready (IS_FLAG_SET flags MSG_KERNEL) sender (tcb_table s r) \<Longrightarrow>
       IS_FLAG_SET flags MSG_NOBLOCK \<Longrightarrow>
       send_message sender r subject flags buffer len s = Ret E_BLOCK s"
  using assms
  by (auto simp: send_message_def Let_def get_tid_def kexec)

section \<open>Receiving\<close>

definition received :: "tid \<Rightarrow> 32 word \<Rightarrow> tcb \<Rightarrow> tcb \<Rightarrow> tcb" where
  "received sender n sc = upd_regs (\<lambda>r. r\<lparr>
     ebx := ucast (if wait_for_kernel_msg sc then KERNEL_TID else sender) OR
       push_bit 16 (ecx (user_exec_state sc)),
     esi := esi (user_exec_state sc), edi := n\<rparr>)"

definition taken :: "32 word \<Rightarrow> tcb \<Rightarrow> tcb" where
  "taken n c = upd_regs (\<lambda>r. r\<lparr>eax := code32 E_OK, esi := n\<rparr>) (c\<lparr>wait_for_kernel_msg := False\<rparr>)"

lemma keeps_sched_received [simp]: "keeps_sched (received t n sc)" "keeps_sched (taken n)"
  by (simp_all add: keeps_sched_def keeps_links_def upd_regs_def received_def taken_def)

lemma strip_received [simp]:
  "strip (upd_tcb t (received se n sc) s) = upd_tcb t (received se n sc) (strip s)"
  "strip (upd_tcb t (taken n) s) = upd_tcb t (taken n) (strip s)"
  by (rule strip_upd_keeps; simp add: upd_regs_def received_def taken_def strip_tcb_def)+

lemma accept_kinv:
  assumes "kinv s Q" and "is_thread r" and "is_thread sender" and "sender \<noteq> r"
    and "thread_state (tcb_table s sender) = WAIT_FOR_RECV"
    and "n = min (edi (user_exec_state (tcb_table s sender))) len"
    and "peek_virt (ebx (user_exec_state (tcb_table s sender))) n buffer
      (root_pmap (tcb_table s sender)) s = Ret e s1" and "\<not> IS_ERROR e"
  shows "\<exists>s'. accept r sender k buffer len s =
       Ret (if k \<and> \<not> wait_for_kernel_msg (tcb_table s sender) then E_PREEMPT else E_OK) s' \<and>
     kinv s' (moved sender (run_queue s sender) Q) \<and>
     strip s' = upd_tcb sender (taken n) (upd_tcb r (received sender n (tcb_table s sender))
       (upd_tcb sender (\<lambda>c. c\<lparr>wait_tid := NULL_TID, thread_state := READY\<rparr>) (strip s1)))"
proof -
  obtain m pt where s1: "s1 = with_mem m pt s" using mem_onlyD [OF mem_only_poke_virt(2) assms(7)] by blast
  have k1: "kinv s1 Q" using assms(1) s1 by simp
  have rq: "run_queue s1 sender = run_queue s sender" using s1 by (simp add: run_queue_def)
  obtain s2 where s2: "thread_start sender s1 = Ret E_OK s2"
      "kinv s2 (moved sender (run_queue s sender) Q)"
      "strip s2 = upd_tcb sender (\<lambda>c. c\<lparr>thread_state := READY\<rparr>) (detached sender (strip s1))"
    using thread_start_kinv [OF k1 assms(3)] assms(5) s1 rq by auto
  have d: "strip s2 = upd_tcb sender (\<lambda>c. c\<lparr>wait_tid := NULL_TID, thread_state := READY\<rparr>) (strip s1)"
    using s2(3) assms(5) s1 by (simp add: detached_def upd_tcb_def)
  have f: "wait_for_kernel_msg (tcb_table s2 sender) = wait_for_kernel_msg (tcb_table s sender)"
    "user_exec_state (tcb_table s2 sender) = user_exec_state (tcb_table s sender)"
    using strip_fields(4,6) [OF d, of sender] s1 by simp_all
  let ?s3 = "upd_tcb sender (taken n) (upd_tcb r (received sender n (tcb_table s sender)) s2)"
  have it: "in_table sender" "in_table r" using assms(2,3) by auto
  have "accept r sender k buffer len s =
      Ret (if k \<and> \<not> wait_for_kernel_msg (tcb_table s sender) then E_PREEMPT else E_OK) ?s3"
    using assms(4,6-8) it s2(1) f
    by (simp add: accept_def kthen_def kbind_def rd_def kguard_def kret_def wr_def kskip_def Let_def
        error_codes)
      (simp add: upd_tcb_def received_def taken_def upd_regs_def get_tid_def fun_upd_twist error_codes)
  moreover have "kinv ?s3 (moved sender (run_queue s sender) Q)"
    by (intro kinv_upd_keeps s2(2)) simp_all
  ultimately show ?thesis by (intro exI [of _ ?s3]) (simp add: d)
qed

lemma receive_message_ready:
  assumes "sender \<noteq> recipient" and "sender \<noteq> ANY_SENDER" and "in_table sender"
    and "\<not> (len > 0 \<and> buffer = 0)"
    and "receive_ready (IS_FLAG_SET flags MSG_KERNEL) recipient (tcb_table s sender)"
  shows "receive_message recipient sender flags buffer len s =
     accept recipient sender (IS_FLAG_SET flags MSG_KERNEL) buffer len s"
  using assms
  by (auto simp: receive_message_def Let_def get_tid_def kbind_def kret_def rd_def deref_def)

lemma receive_message_refused:
  assumes "is_thread recipient"
  shows "receive_message recipient recipient flags buffer len s = Ret E_INVALID_ARG s"
    and "len > 0 \<Longrightarrow> receive_message recipient t flags 0 len s = Ret E_INVALID_ARG s"
    and "is_thread t \<Longrightarrow> t \<noteq> recipient \<Longrightarrow> \<not> (len > 0 \<and> buffer = 0) \<Longrightarrow>
       \<not> receive_ready (IS_FLAG_SET flags MSG_KERNEL) recipient (tcb_table s t) \<Longrightarrow>
       IS_FLAG_SET flags MSG_NOBLOCK \<Longrightarrow>
       receive_message recipient t flags buffer len s = Ret E_BLOCK s"
  using assms
  by (auto simp: receive_message_def Let_def get_tid_def kexec)

lemma receive_message_any_null:
  assumes "recipient \<noteq> ANY_SENDER" and "\<not> (len > 0 \<and> buffer = 0)" and "in_table recipient"
    and "LIST_IS_EMPTY (sender_wait_queue (tcb_table s recipient))"
    and "\<not> IS_FLAG_SET flags MSG_NOBLOCK"
  shows "receive_message recipient ANY_SENDER flags buffer len s = Fault NullDeref"
  using assms
  by (simp add: receive_message_def Let_def get_tid_def kbind_def kret_def rd_def deref_def ld_list_def)

text \<open>The blocking branch of \<open>receive_message\<close> parks the sender in the recipient's place.\<close>

lemma receive_message_parks_sender:
  assumes k: "kinv s Q" and "is_thread recipient" and t: "is_thread sender" and "sender \<noteq> recipient"
    and "\<not> (len > 0 \<and> buffer = 0)"
    and st: "thread_state (tcb_table s sender) \<notin> {INACTIVE, SLEEPING}"
    and "\<not> receive_ready (IS_FLAG_SET flags MSG_KERNEL) recipient (tcb_table s sender)"
    and "\<not> IS_FLAG_SET flags MSG_NOBLOCK"
  shows "\<exists>s1. receive_message recipient sender flags buffer len s = reschedule s1 \<and>
     kinv s1 (moved sender (ReceiverQueue recipient) Q) \<and>
     strip s1 = upd_tcb recipient (parked (IS_FLAG_SET flags MSG_KERNEL) (\<lambda>r. r\<lparr>
         eax := code32 E_INTERRUPT, ebx := buffer, ecx := ucast flags, edi := len\<rparr>))
       (upd_tcb sender (\<lambda>c. c\<lparr>thread_state := WAIT_FOR_SEND, wait_tid := recipient\<rparr>)
         (detached sender (strip s)))"
proof -
  have it: "in_table recipient" "recipient \<noteq> NULL_TID" "in_table sender" "sender \<noteq> NULL_TID"
    using assms(2,3) by auto
  obtain s1 where s1: "thread_remove_from_list sender s = Ret E_OK s1"
      "kinv_ex {sender} s1 (Qdel sender Q)" "strip s1 = detached sender (strip s)"
    using thread_remove_from_list_kinv [OF k t st] by blast
  have lc: "loc (c\<lparr>thread_state := WAIT_FOR_SEND, wait_tid := recipient\<rparr>) =
      Some (ReceiverQueue recipient)" for c using it(2) by (simp add: loc_def)
  obtain s2 where s2: "attach_receiver_wait_queue sender (Some recipient) s1 = Ret () s2"
      "kinv s2 (moved sender (ReceiverQueue recipient) Q)"
      "strip s2 = upd_tcb sender (\<lambda>c. c\<lparr>thread_state := WAIT_FOR_SEND, wait_tid := recipient\<rparr>) (strip s1)"
    using attach_to_kinv [where wq = ReceiverQueue and p = recipient, OF s1(2) _ t _ it(1)
        detached_wf(1) [OF k t s1(3)] lc] it(1)
    by (auto simp: attach_to_eqs moved_def)
  let ?p = "parked (IS_FLAG_SET flags MSG_KERNEL) (\<lambda>r. r\<lparr>eax := code32 E_INTERRUPT,
      ebx := buffer, ecx := ucast flags, edi := len\<rparr>)"
  let ?s3 = "upd_tcb recipient ?p s2"
  have "receive_message recipient sender flags buffer len s = reschedule ?s3"
    using assms(4,5,7,8) it s1(1) s2(1) park_eq [OF it(1)]
    by (auto simp: receive_message_def Let_def get_tid_def kbind_def kthen_def kret_def rd_def
        deref_def kskip_def error_codes)
  moreover have "kinv ?s3 (moved sender (ReceiverQueue recipient) Q)"
    by (rule kinv_upd_keeps [OF s2(2)]) simp
  ultimately show ?thesis using s1(3) s2(3) by (intro exI [of _ ?s3]) simp
qed

end
