(* ===== verification/Interrupt.thy ===== *)
theory Interrupt
  imports Message
begin

text \<open>
  Interrupts (\<^verbatim>\<open>kernel/interrupt.c\<close>): registration of IRQ handler threads, the IRQ handler and
  the CPU exception handler, which turns an exception into a message to the thread's
  exception handler or pager.
\<close>

section \<open>IRQ lines\<close>

definition irq_bit :: "32 word \<Rightarrow> 32 word" where
  "irq_bit irq = push_bit (unat (irq + 8)) 1"

definition set_irq_handler :: "nat \<Rightarrow> tid option \<Rightarrow> kstate \<Rightarrow> kstate" where
  "set_irq_handler irq t s = s\<lparr>irq_handlers := (irq_handlers s)(irq := t)\<rparr>"

definition irq_register :: "tid \<Rightarrow> 32 word \<Rightarrow> int kernel" where
  "irq_register thread irq =
     kbind (kget (\<lambda>s. irq < 24 \<and> irq_handlers s (unat irq) = None)) (\<lambda>free.
     if free then
       kthen (kseq
         [kbind (kget thread_get_current) (\<lambda>t. kmod (set_irq_handler (unat irq) t)),
          wr thread (\<lambda>c. c\<lparr>event_mask := event_mask c OR irq_bit irq\<rparr>),
          wr thread (\<lambda>c. c\<lparr>pending_events := pending_events c AND NOT (irq_bit irq)\<rparr>)])
         (kret E_OK)
     else kret E_FAIL)"

definition irq_unregister :: "tid \<Rightarrow> 32 word \<Rightarrow> int kernel" where
  "irq_unregister thread irq =
     (if irq < 24 then
       kthen (kseq
         [kmod (set_irq_handler (unat irq) None),
          wr thread (\<lambda>c. c\<lparr>event_mask := event_mask c AND NOT (irq_bit irq)\<rparr>),
          wr thread (\<lambda>c. c\<lparr>pending_events := pending_events c AND NOT (irq_bit irq)\<rparr>)])
         (kret E_OK)
      else kret E_FAIL)"

text \<open>The number of the line in service is fixed to 0, as in the source.\<close>

definition handle_irq :: "ExecutionState \<Rightarrow> unit kernel" where
  "handle_irq frame =
     (let irq_num = 0; irq_event = push_bit irq_num 1 in
      kbind (kget (\<lambda>s. irq_handlers s irq_num)) (\<lambda>h.
      kthen (case h of
               None \<Rightarrow> kskip
             | Some handler_thread \<Rightarrow>
                 kbind (rd handler_thread event_mask) (\<lambda>m.
                 kwhen (irq_event AND m \<noteq> 0) (kseq
                   [wr handler_thread (\<lambda>c. c\<lparr>pending_events := pending_events c OR irq_event\<rparr>),
                    kbind (thread_wakeup handler_thread) (\<lambda>_. kskip)])))
     (kthen (kmod (\<lambda>s. s\<lparr>user_regs := frame\<rparr>)) RESTORE_STATE)))"

section \<open>CPU exceptions\<close>

definition HALT_OPCODE :: "8 word" where "HALT_OPCODE = 0xF4"
definition KCODE_SEL :: "16 word" where "KCODE_SEL = 0x08"
definition EXCEPTION_MSG :: "32 word" where "EXCEPTION_MSG = 0xFFFFFFFF"
definition EXIT_MSG :: "32 word" where "EXIT_MSG = 0xFFFFFFFE"

record CpuExInterruptFrame =
  ex_num :: "32 word"
  error_code :: "32 word"
  old_tss_esp0 :: "32 word"
  frame_state :: ExecutionState

text \<open>The bytes of a message structure, field by field; padding is written as zero.\<close>

definition bytes16 :: "16 word \<Rightarrow> 8 word list" where
  "bytes16 w = [ucast w, ucast (drop_bit 8 w)]"

definition bytes32 :: "32 word \<Rightarrow> 8 word list" where
  "bytes32 w = map (\<lambda>i. byte_of i w) [0, 1, 2, 3]"

definition exit_message :: "ExecutionState \<Rightarrow> tid \<Rightarrow> 8 word list" where
  "exit_message st who = bytes16 who @ bytes16 0 @ bytes32 (eax st)"

definition exception_message ::
    "16 word \<Rightarrow> CpuExInterruptFrame \<Rightarrow> tid \<Rightarrow> kstate \<Rightarrow> 8 word list" where
  "exception_message kernel_ss f who s =
     (let st = frame_state f; in_kernel = (cs st = KCODE_SEL) in
      concat (map bytes32 [eax st, ebx st, ecx st, edx st, esi st, edi st, ebp st,
        if in_kernel then tss_esp0 s + 4 + SIZEOF_ExecutionState - 2 * 4 else user_esp st]) @
      concat (map bytes16 [cs st, ds st, es st, fs st, gs st,
        if in_kernel then kernel_ss else user_ss st]) @
      concat (map bytes32 [eflags st, cr0 s, cr2 s, cr3 s, cr4 s,
        eip (user_exec_state (tcb_table s who)), error_code f]) @
      [ucast (ex_num f), of_nat processor_get_current] @ bytes16 who)"

text \<open>A local structure is built at \<open>local_var\<close> before its address is passed on.\<close>

primrec store_bytes :: "addr \<Rightarrow> 8 word list \<Rightarrow> unit kernel" where
  "store_bytes a [] = kskip"
| "store_bytes a (b # bs) = kthen (st8 a b) (store_bytes (a + 1) bs)"

definition send_local ::
    "tid \<Rightarrow> tid \<Rightarrow> 32 word \<Rightarrow> 8 word list \<Rightarrow> int kernel" where
  "send_local tcb recipient subject message_data =
     kbind (kget local_var) (\<lambda>a.
     kthen (store_bytes a message_data)
       (send_message tcb recipient subject MSG_KERNEL a (of_nat (length message_data))))"

text \<open>The \<^verbatim>\<open>ret\<close> of the last assembly statement leaves the function before \<^verbatim>\<open>RESTORE_STATE\<close>.\<close>

definition handle_cpu_exception :: "16 word \<Rightarrow> CpuExInterruptFrame \<Rightarrow> unit kernel" where
  "handle_cpu_exception kernel_ss f =
     kbind (kget thread_get_current) (\<lambda>tcb.
     case tcb of
       None \<Rightarrow> kfail Hang
     | Some tcb \<Rightarrow>
         kbind (if ex_num f = 13 \<and> cs (frame_state f) = UCODE_SEL then
                  kbind (kget get_root_page_map) (\<lambda>root.
                  kbind (is_readable (eip (frame_state f)) root) (\<lambda>r.
                  if r = 1 then kbind (ld8 (eip (frame_state f))) (\<lambda>b. kret (b = HALT_OPCODE))
                  else kret False))
                else kret False) (\<lambda>is_exit.
         kbind (rd tcb id) (\<lambda>c.
         kbind (if is_exit then
                  kbind (send_local tcb (ex_handler c) EXIT_MSG (exit_message (frame_state f) (get_tid tcb)))
                    (\<lambda>e. kret (IS_ERROR e))
                else
                  kbind (kget (exception_message kernel_ss f (get_tid tcb))) (\<lambda>message_data.
                  if ex_handler c = NULL_TID then kret True
                  else kbind (send_local tcb (if ex_num f = 14 then pager c else ex_handler c)
                                EXCEPTION_MSG message_data) (\<lambda>e. kret (IS_ERROR e)))) (\<lambda>failed.
         kwhen failed (kbind (thread_release tcb) (\<lambda>_. kskip))))))"

section \<open>Registration\<close>

definition enabled :: "32 word \<Rightarrow> tcb \<Rightarrow> tcb" where
  "enabled irq c = c\<lparr>event_mask := event_mask c OR irq_bit irq,
     pending_events := pending_events c AND NOT (irq_bit irq)\<rparr>"

definition disabled :: "32 word \<Rightarrow> tcb \<Rightarrow> tcb" where
  "disabled irq c = c\<lparr>event_mask := event_mask c AND NOT (irq_bit irq),
     pending_events := pending_events c AND NOT (irq_bit irq)\<rparr>"

lemma keeps_sched_enabled [simp]: "keeps_sched (enabled irq)" "keeps_sched (disabled irq)"
  by (simp_all add: keeps_sched_def keeps_links_def enabled_def disabled_def)

lemma set_irq_handler_simps [simp]:
  "tcb_table (set_irq_handler i h s) = tcb_table s"
  "irq_handlers (set_irq_handler i h s) = (irq_handlers s)(i := h)"
  by (simp_all add: set_irq_handler_def)

lemma kinv_set_irq_handler [simp]: "kinv_ex X (set_irq_handler i h s) Q = kinv_ex X s Q"
  by (rule kinv_cong) (simp_all add: set_irq_handler_def)

lemma irq_register_eq:
  assumes "in_table t" and "irq < 24"
  shows "irq_register t irq s =
     (if irq_handlers s (unat irq) = None
      then Ret E_OK (upd_tcb t (enabled irq) (set_irq_handler (unat irq) (thread_get_current s) s))
      else Ret E_FAIL s)"
  using assms
  by (simp add: irq_register_def kexec upd_tcb_def enabled_def fun_upd_def cong: if_cong)

lemma irq_unregister_eq:
  assumes "in_table t" and "irq < 24"
  shows "irq_unregister t irq s =
     Ret E_OK (upd_tcb t (disabled irq) (set_irq_handler (unat irq) None s))"
  using assms
  by (simp add: irq_unregister_def kexec upd_tcb_def disabled_def fun_upd_def cong: if_cong)

lemma irq_out_of_range:
  assumes "\<not> irq < 24"
  shows "irq_register t irq s = Ret E_FAIL s" "irq_unregister t irq s = Ret E_FAIL s"
  using assms by (simp_all add: irq_register_def irq_unregister_def kexec)

text \<open>The event bits of the IRQ lines are bits 8 to 31; the event of line 0 is never bit 0.\<close>

lemma bit_irq_bit: "irq < 24 \<Longrightarrow> bit (irq_bit irq) n \<longleftrightarrow> n = unat irq + 8"
proof -
  assume a: "irq < 24"
  then have "unat (irq + 8) = unat irq + 8"
    by (subst unat_add_lem [THEN iffD1]) (simp_all add: word_less_nat_alt)
  with a show ?thesis by (auto simp: irq_bit_def bit_simps word_less_nat_alt)
qed

lemma enabled_bits:
  assumes "irq < 24"
  shows "bit (event_mask (enabled irq c)) n \<longleftrightarrow> bit (event_mask c) n \<or> n = unat irq + 8"
    and "bit (pending_events (enabled irq c)) n \<longleftrightarrow> bit (pending_events c) n \<and> n \<noteq> unat irq + 8"
    and "bit (event_mask (disabled irq c)) n \<longleftrightarrow> bit (event_mask c) n \<and> n \<noteq> unat irq + 8"
  using bit_irq_bit [OF assms, of n] bit_imp_le_length [of "event_mask c" n]
    bit_imp_le_length [of "pending_events c" n]
  by (auto simp: enabled_def disabled_def bit_simps)

lemma disabled_enabled:
  assumes "irq < 24" and "\<not> bit (event_mask c) (unat irq + 8)"
    and "\<not> bit (pending_events c) (unat irq + 8)"
  shows "disabled irq (enabled irq c) = c"
proof -
  have "(event_mask c OR irq_bit irq) AND NOT (irq_bit irq) = event_mask c"
    by (rule bit_word_eqI) (use assms bit_irq_bit [OF assms(1)] in \<open>auto simp: bit_simps\<close>)
  moreover have "(pending_events c AND NOT (irq_bit irq)) AND NOT (irq_bit irq) = pending_events c"
    by (rule bit_word_eqI) (use assms bit_irq_bit [OF assms(1)] in \<open>auto simp: bit_simps\<close>)
  ultimately show ?thesis by (simp add: enabled_def disabled_def)
qed

section \<open>The IRQ handler\<close>

lemma and_one_zero: "push_bit 0 1 AND (m :: 32 word) = 0 \<longleftrightarrow> \<not> bit m 0"
proof -
  have "push_bit 0 1 AND m = (if bit m 0 then 1 else 0)"
    by (rule bit_word_eqI) (auto simp: bit_simps)
  then show ?thesis by simp
qed

lemma handle_irq_idle:
  assumes "\<And>t. irq_handlers s 0 = Some t \<Longrightarrow> in_table t \<and> \<not> bit (event_mask (tcb_table s t)) 0"
  shows "handle_irq frame s = Switch (s\<lparr>user_regs := frame\<rparr>)"
proof (cases "irq_handlers s 0")
  case (Some t)
  with assms have "in_table t" "push_bit 0 1 AND event_mask (tcb_table s t) = 0"
    using and_one_zero by blast+
  with Some show ?thesis by (simp add: handle_irq_def Let_def kexec)
qed (simp add: handle_irq_def Let_def kexec)

lemma handle_irq_wakes:
  assumes k: "kinv s Q" and t: "is_thread t" and h: "irq_handlers s 0 = Some t"
    and m: "bit (event_mask (tcb_table s t)) 0"
    and st: "thread_state (tcb_table s t) \<in> {WAIT_FOR_RECV, WAIT_FOR_SEND, PAUSED}"
  shows "\<exists>s'. handle_irq frame s = Switch (s'\<lparr>user_regs := frame\<rparr>) \<and>
     kinv s' (moved t (run_queue s t) Q) \<and> thread_state (tcb_table s' t) = READY \<and>
     bit (pending_events (tcb_table s' t)) 0"
proof -
  let ?u = "\<lambda>c. c\<lparr>pending_events := pending_events c OR push_bit 0 1\<rparr>"
  let ?s = "upd_tcb t ?u s"
  have it: "in_table t" using t by auto
  have "kinv ?s Q" using k by (rule kinv_upd_keeps) (simp add: keeps_sched_def keeps_links_def)
  moreover have "thread_state (tcb_table ?s t) \<in> {WAIT_FOR_RECV, WAIT_FOR_SEND, PAUSED}"
    using st by simp
  ultimately obtain s' where s': "thread_wakeup t ?s = Ret E_OK s'"
      "kinv s' (moved t (run_queue ?s t) Q)"
      "strip s' = upd_tcb t (\<lambda>c. c\<lparr>thread_state := READY\<rparr>) (detached t (strip ?s))"
    using thread_wakeup_kinv [OF _ t, of ?s Q] by blast
  have "run_queue ?s t = run_queue s t" by (simp add: run_queue_def)
  moreover have "thread_state (tcb_table s' t) = READY"
    using strip_fields(3) [OF s'(3), of t] by simp
  moreover have "bit (pending_events (tcb_table s' t)) 0"
  proof -
    have "pending_events (tcb_table s' t) = pending_events (tcb_table (strip s') t)"
      by (simp add: strip_def strip_tcb_def)
    also have "\<dots> = pending_events (tcb_table ?s t)"
      unfolding s'(3) by (simp add: detached_def cpu_drop_def strip_def strip_tcb_def split: thread_state_t.split)
    finally show ?thesis by (simp add: bit_simps)
  qed
  moreover have "push_bit 0 1 AND event_mask (tcb_table s t) \<noteq> 0" using m and_one_zero by blast
  ultimately show ?thesis using s' it h
    by (intro exI [of _ s']) (simp add: handle_irq_def Let_def kexec)
qed

section \<open>Exceptions\<close>

lemma mem_only_store_bytes [mem_only_intros]: "mem_only (store_bytes a bs)"
  by (induction bs arbitrary: a) (simp_all add: mem_only_intros)

lemma length_exception_message: "length (exception_message ss f t s) = 76"
  by (simp add: exception_message_def Let_def bytes32_def bytes16_def)

text \<open>An exception other than the exit idiom, a user-mode \<^verbatim>\<open>hlt\<close>.\<close>

lemma handle_cpu_exception_unhandled:
  assumes "thread_get_current s = Some t" and "in_table t"
    and "ex_num f \<noteq> 13 \<or> cs (frame_state f) \<noteq> UCODE_SEL"
    and "ex_handler (tcb_table s t) = NULL_TID"
  shows "handle_cpu_exception ss f s = kbind (thread_release t) (\<lambda>_. kskip) s"
  using assms by (auto simp: handle_cpu_exception_def kexec)

lemma handle_cpu_exception_delivers:
  assumes k: "kinv s Q" and cur: "thread_get_current s = Some t"
    and x: "ex_num f \<noteq> 13 \<or> cs (frame_state f) \<noteq> UCODE_SEL"
    and h: "ex_handler (tcb_table s t) \<noteq> NULL_TID"
      "h = (if ex_num f = 14 then pager (tcb_table s t) else ex_handler (tcb_table s t))"
      "is_thread h" "h \<noteq> t" "thread_state (tcb_table s h) = WAIT_FOR_SEND"
      "\<not> wait_for_kernel_msg (tcb_table s h) \<or> wait_tid (tcb_table s h) = NULL_TID"
    and l: "local_var s \<noteq> 0"
      "store_bytes (local_var s) (exception_message ss f t s) s = Ret () s0"
    and n: "n = min (edi (user_exec_state (tcb_table s h))) 76"
    and p: "poke_virt (ebx (user_exec_state (tcb_table s h))) n (local_var s)
        (root_pmap (tcb_table s h)) s0 = Ret e s1" "\<not> IS_ERROR e"
  shows "\<exists>s'. handle_cpu_exception ss f s = Ret () s' \<and>
     kinv s' (moved h (run_queue s h) Q) \<and> thread_state (tcb_table s' t) = RUNNING \<and>
     strip s' = upd_tcb t (sent h n) (upd_tcb h (delivered True t EXCEPTION_MSG MSG_KERNEL n)
       (upd_tcb h (\<lambda>c. c\<lparr>wait_tid := NULL_TID, thread_state := READY\<rparr>) (strip s1)))"
proof -
  obtain m pt where s0: "s0 = with_mem m pt s"
    using mem_onlyD [OF mem_only_store_bytes l(2)] by blast
  obtain m' pt' where s1: "s1 = with_mem m' pt' s0"
    using mem_onlyD [OF mem_only_poke_virt(1) p(1)] by blast
  note t = kinv_current(2) [OF k cur] and rt = kinv_current(3) [OF k cur]
  have it: "in_table t" using t by auto
  have k0: "kinv s0 Q" using k s0 by simp
  have tb: "tcb_table s0 = tcb_table s" using s0 by simp
  have p': "poke_virt (ebx (user_exec_state (tcb_table s0 h))) n (local_var s)
      (root_pmap (tcb_table s0 h)) s0 = Ret e s1" using p(1) tb by simp
  obtain s' where s': "deliver t h True EXCEPTION_MSG MSG_KERNEL (local_var s) 76 s0 = Ret E_OK s'"
      "kinv s' (moved h (run_queue s0 h) Q)"
      "strip s' = upd_tcb t (sent h n) (upd_tcb h (delivered True t EXCEPTION_MSG MSG_KERNEL n)
        (upd_tcb h (\<lambda>c. c\<lparr>wait_tid := NULL_TID, thread_state := READY\<rparr>) (strip s1)))"
    using deliver_kinv [OF k0 t h(3) _ _ _ _ p', where len = 76 and k = True and
        subject = EXCEPTION_MSG and flags = MSG_KERNEL] h(4-6) n p(2) tb by auto
  have kf: "IS_FLAG_SET MSG_KERNEL MSG_KERNEL" by (simp add: IS_FLAG_SET_def MSG_KERNEL_def)
  have "send_message t h EXCEPTION_MSG MSG_KERNEL (local_var s) 76 s0 = Ret E_OK s'"
    using send_message_ready [of h t 76 "local_var s" MSG_KERNEL s0 EXCEPTION_MSG] h(3-5) l(1) s'(1)
    by (auto simp: kf send_ready_def tb)
  then have "handle_cpu_exception ss f s = Ret () s'"
    using cur it x h(1,2) l(2) length_exception_message [of ss f t s]
    by (auto simp: handle_cpu_exception_def send_local_def kexec get_tid_def error_codes)
  moreover have "run_queue s0 h = run_queue s h" by (simp add: run_queue_def tb)
  moreover have "thread_state (tcb_table s' t) = RUNNING"
    using strip_fields(3) [OF s'(3), of t] h(4) rt s1 s0 tb
    by (simp add: sent_def upd_regs_def)
  ultimately show ?thesis using s'(2,3) by auto
qed

end
