(* ===== verification/Syscall_Thread.thy ===== *)
theory Syscall_Thread
  imports Interrupt
begin

text \<open>
  The system calls on threads and interrupts and the ones for messages and sleeping
  (\<^verbatim>\<open>kernel/syscall.c\<close>). An argument structure is given by its address; its fields are read
  and written in memory, at their offsets on the 32-bit target.
\<close>

section \<open>Codes and structures\<close>

definition ESYS_OK :: int where "ESYS_OK = 0"
definition ESYS_ARG :: int where "ESYS_ARG = -1"
definition ESYS_FAIL :: int where "ESYS_FAIL = -2"
definition ESYS_PERM :: int where "ESYS_PERM = -3"
definition ESYS_NOTIMPL :: int where "ESYS_NOTIMPL = -5"
definition ESYS_NOTREADY :: int where "ESYS_NOTREADY = -6"
definition ESYS_INT :: int where "ESYS_INT = -7"
definition ESYS_PREEMPT :: int where "ESYS_PREEMPT = -8"

lemmas esys_codes = ESYS_OK_def ESYS_ARG_def ESYS_FAIL_def ESYS_PERM_def ESYS_NOTIMPL_def
  ESYS_NOTREADY_def ESYS_INT_def ESYS_PREEMPT_def

definition TF_STATUS :: "32 word" where "TF_STATUS = 1"
definition TF_REG_STATE :: "32 word" where "TF_REG_STATE = 4"
definition TF_ROOT_PMAP :: "32 word" where "TF_ROOT_PMAP = 8"
definition TF_EXT_REG_STATE :: "32 word" where "TF_EXT_REG_STATE = 16"
definition SL_INF_DURATION :: "32 word" where "SL_INF_DURATION = 0xFFFFFFFF"

record syscall_args =
  syscall_arg :: "32 word"
  arg1 :: "32 word"
  arg2 :: "32 word"
  return_address :: "32 word"
  arg3 :: "32 word"
  arg4 :: "32 word"
  user_stack :: "32 word"
  sys_eflags :: "32 word"

definition ld16 :: "addr \<Rightarrow> 16 word kernel" where
  [kexec]: "ld16 a = kbind (ld8 a) (\<lambda>b0. kbind (ld8 (a + 1)) (\<lambda>b1.
     kret (ucast b0 OR push_bit 8 (ucast b1))))"

definition st16 :: "addr \<Rightarrow> 16 word \<Rightarrow> unit kernel" where
  [kexec]: "st16 a v = kseq [st8 a (ucast v), st8 (a + 1) (ucast (drop_bit 8 v))]"

definition current :: "tid kernel" where
  [kexec]: "current = kbind (kget thread_get_current) deref"

section \<open>Threads\<close>

definition handle_sys_create_tcb :: "addr \<Rightarrow> int kernel" where
  "handle_sys_create_tcb args =
     kbind (ld32 args) (\<lambda>entry. kbind (ld32 (args + 4)) (\<lambda>addr_space.
     kbind (ld32 (args + 8)) (\<lambda>stack_top.
     kbind (thread_create entry addr_space stack_top) (\<lambda>new.
     kret (case new of Some t \<Rightarrow> uint (get_tid t) | None \<Rightarrow> ESYS_FAIL)))))"

definition handle_sys_destroy_tcb :: "addr \<Rightarrow> int kernel" where
  "handle_sys_destroy_tcb args =
     kbind (ld16 args) (\<lambda>tid.
     case get_tcb tid of
       None \<Rightarrow> kret ESYS_FAIL
     | Some tcb \<Rightarrow> kbind (thread_release tcb) (\<lambda>e.
         kret (if \<not> IS_ERROR e then ESYS_OK else ESYS_FAIL)))"

text \<open>\<^verbatim>\<open>args->tid == NULL_TID ? thread_get_current() : get_tcb(args->tid)\<close>\<close>

definition target_tcb :: "addr \<Rightarrow> tid option kernel" where
  "target_tcb args = kbind (ld16 args) (\<lambda>tid.
     kbind (kget thread_get_current) (\<lambda>cur. kret (if tid = NULL_TID then cur else get_tcb tid)))"

text \<open>The register fields of \<^verbatim>\<open>thread_info_t\<close>, in the order the handlers touch them.\<close>

definition store_info_regs :: "addr \<Rightarrow> ExecutionState \<Rightarrow> unit kernel" where
  "store_info_regs info r = kseq
     [st32 info (eax r), st32 (info + 4) (ebx r), st32 (info + 8) (ecx r), st32 (info + 12) (edx r),
      st32 (info + 20) (esi r), st32 (info + 16) (edi r), st32 (info + 24) (ebp r),
      st32 (info + 28) (user_esp r), st32 (info + 32) (eip r), st32 (info + 48) (eflags r),
      st16 (info + 36) (cs r), st16 (info + 38) (ds r), st16 (info + 40) (es r),
      st16 (info + 42) (fs r), st16 (info + 44) (gs r), st16 (info + 46) (user_ss r)]"

definition cpu_of :: "tid \<Rightarrow> kstate \<Rightarrow> nat option" where
  "cpu_of t s = List.find (\<lambda>i. running_thread (processors s i) = Some t) [0..<MAX_PROCESSORS]"

definition handle_sys_read_tcb :: "addr \<Rightarrow> int kernel" where
  "handle_sys_read_tcb args =
     kbind (ld32 (args + 4)) (\<lambda>info.
     kbind (target_tcb args) (\<lambda>tcb.
     case tcb of
       None \<Rightarrow> kret ESYS_ARG
     | Some tcb \<Rightarrow> kbind (rd tcb id) (\<lambda>c.
         kthen (kseq
           [st8 (info + 56) (state_num (thread_state c)),
            kwhen (thread_state c = WAIT_FOR_SEND \<or> thread_state c = WAIT_FOR_RECV)
              (st16 (info + 84) (wait_tid c)),
            store_info_regs info (user_exec_state c),
            st8 (info + 60) (ucast (priority c)),
            st32 (info + 52) (root_pmap c)])
        (if thread_state c = RUNNING then
           kthen (kseq
             [kbind (kget (cpu_of tcb)) (\<lambda>p. case p of None \<Rightarrow> kskip
                | Some i \<Rightarrow> st8 (info + 57) (of_nat i)),
              st16 (info + 58) (get_tid tcb),
              st32 (info + 64) (pending_events c), st32 (info + 68) (event_mask c),
              st32 (info + 72) (cap_table c), st32 (info + 76) (cap_table_size c),
              st16 (info + 80) (ex_handler c),
              st32 (info + 96) (fxsave_state c), st16 (info + 104) (ucast (xsave_rfbm c)),
              st32 (info + 100) (fxsave_state_len c)])
             (kret ESYS_OK)
         else kret ESYS_PERM))))"

text \<open>The assignment of \<^verbatim>\<open>info->status\<close> to the 4-bit field, for the two values that reach it.\<close>

definition new_status :: "8 word \<Rightarrow> thread_state_t option" where
  "new_status n = (if n = state_num READY then Some READY
     else if n = state_num PAUSED then Some PAUSED else None)"

definition update_status :: "addr \<Rightarrow> tid \<Rightarrow> int kernel" where
  "update_status info tcb =
     kbind (ld8 (info + 56)) (\<lambda>n.
     case new_status n of
       None \<Rightarrow> kret ESYS_ARG
     | Some st \<Rightarrow> kbind (thread_remove_from_list tcb) (\<lambda>e.
         if IS_ERROR e then kret ESYS_FAIL
         else kbind (if st = READY then thread_start tcb else kret E_OK) (\<lambda>e.
           if IS_ERROR e then kret ESYS_FAIL
           else kthen (wr tcb (\<lambda>c. c\<lparr>thread_state := st\<rparr>)) (kret ESYS_OK))))"

definition update_root_pmap :: "addr \<Rightarrow> tid \<Rightarrow> int kernel" where
  "update_root_pmap info tcb =
     kbind (ld32 (info + 52)) (\<lambda>r.
     kthen (wr tcb (\<lambda>c. c\<lparr>root_pmap := r\<rparr>))
    (kbind (initialize_root_pmap r) (\<lambda>e. kret (if IS_ERROR e then ESYS_FAIL else ESYS_OK))))"

definition update_regs :: "addr \<Rightarrow> tid \<Rightarrow> unit kernel" where
  "update_regs info tcb = kseq
     [kbind (ld32 info) (\<lambda>v. wr tcb (upd_regs (\<lambda>r. r\<lparr>eax := v\<rparr>))),
      kbind (ld32 (info + 4)) (\<lambda>v. wr tcb (upd_regs (\<lambda>r. r\<lparr>ebx := v\<rparr>))),
      kbind (ld32 (info + 8)) (\<lambda>v. wr tcb (upd_regs (\<lambda>r. r\<lparr>ecx := v\<rparr>))),
      kbind (ld32 (info + 12)) (\<lambda>v. wr tcb (upd_regs (\<lambda>r. r\<lparr>edx := v\<rparr>))),
      kbind (ld32 (info + 20)) (\<lambda>v. wr tcb (upd_regs (\<lambda>r. r\<lparr>esi := v\<rparr>))),
      kbind (ld32 (info + 16)) (\<lambda>v. wr tcb (upd_regs (\<lambda>r. r\<lparr>edi := v\<rparr>))),
      kbind (ld32 (info + 24)) (\<lambda>v. wr tcb (upd_regs (\<lambda>r. r\<lparr>ebp := v\<rparr>))),
      kbind (ld32 (info + 28)) (\<lambda>v. wr tcb (upd_regs (\<lambda>r. r\<lparr>user_esp := v\<rparr>))),
      kbind (ld32 (info + 48)) (\<lambda>v. wr tcb (upd_regs (\<lambda>r. r\<lparr>eflags := v\<rparr>))),
      kbind (ld16 (info + 36)) (\<lambda>v. wr tcb (upd_regs (\<lambda>r. r\<lparr>cs := v\<rparr>))),
      kbind (ld16 (info + 46)) (\<lambda>v. wr tcb (upd_regs (\<lambda>r. r\<lparr>user_ss := v\<rparr>)))]"

text \<open>\<open>kcheck b m k\<close>: the block \<open>m\<close> under \<^verbatim>\<open>if(b)\<close>, whose error code leaves the handler.\<close>

definition kcheck :: "bool \<Rightarrow> int kernel \<Rightarrow> int kernel \<Rightarrow> int kernel" where
  "kcheck b m k = (if b then kbind m (\<lambda>e. if IS_ERROR e then kret e else k) else k)"

definition handle_sys_update_tcb :: "addr \<Rightarrow> int kernel" where
  "handle_sys_update_tcb args =
     kbind (ld32 (args + 8)) (\<lambda>info.
     kbind (target_tcb args) (\<lambda>tcb.
     kbind (case tcb of None \<Rightarrow> kret None
            | Some t \<Rightarrow> kbind (rd t thread_state) (\<lambda>st.
                kret (if st = INACTIVE then None else Some t))) (\<lambda>tcb.
     case tcb of
       None \<Rightarrow> kret ESYS_ARG
     | Some tcb \<Rightarrow> kbind (ld32 (args + 4)) (\<lambda>flags.
         kcheck (IS_FLAG_SET flags TF_STATUS) (update_status info tcb)
        (kcheck (IS_FLAG_SET flags TF_ROOT_PMAP) (update_root_pmap info tcb)
        (kthen (kwhen (IS_FLAG_SET flags TF_EXT_REG_STATE)
                  (kbind (ld32 (info + 96)) (\<lambda>v. wr tcb (\<lambda>c. c\<lparr>fxsave_state := v\<rparr>))))
        (if IS_FLAG_SET flags TF_REG_STATE
         then kthen (update_regs info tcb) (thread_switch_context tcb False)
         else kret ESYS_OK)))))))"

section \<open>Interrupts\<close>

definition handle_sys_create_int :: "addr \<Rightarrow> int kernel" where
  "handle_sys_create_int args =
     kbind (ld32 args) (\<lambda>irq. kbind current (\<lambda>t. irq_register t irq))"

definition handle_sys_read_int :: "addr \<Rightarrow> int kernel" where
  "handle_sys_read_int args =
     kbind current (\<lambda>t. kbind (rd t id) (\<lambda>c. kbind (ld32 args) (\<lambda>int_mask.
     kthen (st32 args (int_mask AND (pending_events c AND event_mask c))) (kret E_OK))))"

definition handle_sys_update_int :: "addr \<Rightarrow> int kernel" where
  "handle_sys_update_int args =
     kbind current (\<lambda>t. kbind (rd t id) (\<lambda>c. kbind (ld32 args) (\<lambda>int_mask.
     let eoi_irqs = pending_events c AND event_mask c AND int_mask in
     kthen (wr t (\<lambda>c. c\<lparr>pending_events := pending_events c AND NOT eoi_irqs\<rparr>)) (kret E_OK))))"

definition handle_sys_destroy_int :: "addr \<Rightarrow> int kernel" where
  "handle_sys_destroy_int args =
     kbind (kget thread_get_current) (\<lambda>cur. kbind (ld32 args) (\<lambda>irq.
     kthen (kguard (unat irq < NUM_IRQS) OutOfBounds)
    (kbind (kget (\<lambda>s. irq_handlers s (unat irq))) (\<lambda>h.
     if cur = h then kbind current (\<lambda>t. irq_register t irq) else kret E_PERM))))"

section \<open>Messages and sleeping\<close>

definition save_user_context :: "syscall_args \<Rightarrow> tid \<Rightarrow> unit kernel" where
  "save_user_context args t = kseq
     [wr t (upd_regs (\<lambda>r. r\<lparr>user_esp := user_stack args\<rparr>)),
      wr t (upd_regs (\<lambda>r. r\<lparr>eip := return_address args\<rparr>))]"

definition send_code :: "int \<Rightarrow> int" where
  "send_code e =
     (if e = E_OK then ESYS_OK else if e = E_INVALID_ARG then ESYS_ARG
      else if e = E_BLOCK then ESYS_NOTREADY else if e = E_INTERRUPT then ESYS_INT
      else if e = E_PREEMPT then ESYS_PREEMPT else ESYS_FAIL)"

definition receive_code :: "int \<Rightarrow> int" where
  "receive_code e =
     (if e = E_OK then ESYS_OK else if e = E_INVALID_ARG then ESYS_ARG
      else if e = E_BLOCK then ESYS_NOTREADY else if e = E_INTERRUPT then ESYS_INT
      else ESYS_FAIL)"

definition handle_sys_send :: "syscall_args \<Rightarrow> int kernel" where
  "handle_sys_send args =
     kbind current (\<lambda>t.
     let recipient_tid = ucast (arg1 args AND 0xFFFF); flags = ucast (drop_bit 16 (arg1 args)) in
     kthen (save_user_context args t)
    (kbind (send_message t recipient_tid (arg2 args) flags (arg3 args) (arg4 args)) (\<lambda>e.
       kret (send_code e))))"

definition handle_sys_receive :: "syscall_args \<Rightarrow> int kernel" where
  "handle_sys_receive args =
     kbind current (\<lambda>t.
     let sender_tid = ucast (arg1 args AND 0xFFFF); flags = ucast (drop_bit 16 (arg1 args)) in
     kthen (save_user_context args t)
    (kbind (receive_message t sender_tid flags (arg2 args) (arg3 args)) (\<lambda>e.
       kret (receive_code e))))"

text \<open>
  \<open>pause_code\<close> is the \<^verbatim>\<open>switch\<close> both sleeping branches share. The default case is
  \<^verbatim>\<open>UNREACHABLE\<close>, undefined behaviour.
\<close>

definition pause_code :: "int \<Rightarrow> int kernel" where
  "pause_code e =
     (if e = E_OK then reschedule
      else if e = E_FAIL then kret ESYS_FAIL
      else if e = E_DONE then kfail Panic else kfail AssertFail)"

definition handle_sys_sleep :: "syscall_args \<Rightarrow> int kernel" where
  "handle_sys_sleep args =
     kbind (kget thread_get_current) (\<lambda>current_thread.
     if arg1 args = 0 then
       kbind (schedule processor_get_current) (\<lambda>new_thread.
       if Some new_thread \<noteq> current_thread then thread_switch_context new_thread True
       else kret ESYS_FAIL)
     else if arg1 args = SL_INF_DURATION then
       kbind (deref current_thread) (\<lambda>t. kbind (thread_pause t) pause_code)
     else
       kbind (thread_sleep current_thread (arg1 args) (sint (arg2 args))) pause_code)"

section \<open>Interrupt system calls\<close>

lemma ld_same:
  "ld8 a s = Ret v s' \<Longrightarrow> s' = s" "ld16 a s = Ret w s' \<Longrightarrow> s' = s" "ld32 a s = Ret x s' \<Longrightarrow> s' = s"
  by (auto simp: kexec split: option.splits kres.splits)

lemma current_eq: "current s = (case thread_get_current s of None \<Rightarrow> Fault NullDeref | Some t \<Rightarrow> Ret t s)"
  by (simp add: kexec split: option.split)

lemma handle_sys_create_int_eq:
  assumes "thread_get_current s = Some t" and "in_table t" and "ld32 args s = Ret irq s"
  shows "handle_sys_create_int args s = irq_register t irq s"
  using assms by (simp add: handle_sys_create_int_def kbind_def current_eq)

lemma handle_sys_update_int_acks:
  assumes "thread_get_current s = Some t" and "in_table t" and "ld32 args s = Ret m s"
  shows "\<exists>s'. handle_sys_update_int args s = Ret E_OK s' \<and>
     (\<forall>n. bit (pending_events (tcb_table s' t)) n \<longleftrightarrow> bit (pending_events (tcb_table s t)) n \<and>
        \<not> (bit (event_mask (tcb_table s t)) n \<and> bit m n)) \<and>
     (\<forall>Q. kinv s Q \<longrightarrow> kinv s' Q)"
proof -
  let ?u = "\<lambda>c. c\<lparr>pending_events := pending_events c AND NOT
     (pending_events (tcb_table s t) AND event_mask (tcb_table s t) AND m)\<rparr>"
  have "handle_sys_update_int args s = Ret E_OK (upd_tcb t ?u s)"
    using assms by (simp add: handle_sys_update_int_def current_eq kexec del: ld32_def)
  moreover have "kinv (upd_tcb t ?u s) Q" if "kinv s Q" for Q
    using that by (rule kinv_upd_keeps) (simp add: keeps_sched_def keeps_links_def)
  ultimately show ?thesis
    by (auto simp: bit_simps dest: bit_imp_le_length)
qed

lemma handle_sys_destroy_int_owner:
  assumes "thread_get_current s = Some t" and "ld32 args s = Ret irq s" and "irq < 24"
    and "irq_handlers s (unat irq) = Some t"
  shows "handle_sys_destroy_int args s = Ret E_FAIL s"
  using assms
  by (simp add: handle_sys_destroy_int_def current_eq kbind_def kthen_def kget_def kguard_def
      irq_register_def kret_def table_sizes word_less_nat_alt)

section \<open>Thread system calls\<close>

lemma handle_sys_update_tcb_pause:
  assumes k: "kinv s Q" and t: "is_thread t"
    and st: "thread_state (tcb_table s t) \<notin> {INACTIVE, SLEEPING}"
    and a: "ld16 args s = Ret t s" "ld32 (args + 4) s = Ret TF_STATUS s"
      "ld32 (args + 8) s = Ret info s" "ld8 (info + 56) s = Ret (state_num PAUSED) s"
  shows "\<exists>s'. handle_sys_update_tcb args s = Ret ESYS_OK s' \<and> kinv_ex {t} s' (Qdel t Q) \<and>
     thread_state (tcb_table s' t) = PAUSED"
proof -
  have it: "in_table t" "t \<noteq> NULL_TID" using t by auto
  obtain s1 where s1: "thread_remove_from_list t s = Ret E_OK s1" "kinv_ex {t} s1 (Qdel t Q)"
    using thread_remove_from_list_kinv [OF k t st] by auto
  let ?s2 = "upd_tcb t (\<lambda>c. c\<lparr>thread_state := PAUSED\<rparr>) s1"
  have u: "update_status info t s = Ret ESYS_OK ?s2"
    using a(4) s1(1) it
    by (simp add: update_status_def kbind_def new_status_def error_codes kret_def kthen_def wr_def)
  have tg: "target_tcb args s = Ret (Some t) s"
    using a(1) it by (simp add: target_tcb_def kbind_def kget_def kret_def get_tcb_def)
  have fl: "IS_FLAG_SET TF_STATUS TF_STATUS" "\<not> IS_FLAG_SET TF_STATUS TF_ROOT_PMAP"
    "\<not> IS_FLAG_SET TF_STATUS TF_EXT_REG_STATE" "\<not> IS_FLAG_SET TF_STATUS TF_REG_STATE"
    by (simp_all add: IS_FLAG_SET_def TF_STATUS_def TF_ROOT_PMAP_def TF_EXT_REG_STATE_def
        TF_REG_STATE_def)
  have "handle_sys_update_tcb args s = Ret ESYS_OK ?s2"
    using a(2,3) tg u it st
    by (simp add: handle_sys_update_tcb_def kbind_def rd_def kret_def kcheck_def fl kthen_def
        kskip_def error_codes esys_codes)
  moreover have "kinv_ex {t} ?s2 (Qdel t Q)"
    by (rule kinv_upd_detached [OF s1(2)]) (simp_all add: keeps_links_def)
  ultimately show ?thesis by simp
qed

section \<open>Sleeping\<close>

lemma handle_sys_sleep_yield:
  assumes k: "kinv s Q" and cur: "thread_get_current s = Some t" and y: "arg1 args = 0"
    and i: "init_server_thread s = Some i" "in_table i"
  shows "case pick Q (unat (priority (tcb_table s t))) NUM_PRIORITIES of
       None \<Rightarrow> handle_sys_sleep args s = Ret ESYS_FAIL s
     | Some p \<Rightarrow> let nx = last (Q (RunQueue p)) in
         \<exists>s1. handle_sys_sleep args s = Switch (switched nx i True s1) \<and>
           kinv s1 (requeued s (Some t) (Q(RunQueue p := butlast (Q (RunQueue p))))) \<and>
           thread_get_current s1 = Some nx \<and> thread_state (tcb_table s1 t) = READY"
proof -
  have n: "processor_get_current < num_processors s"
    using kinv_exD(2) [OF k] by (simp add: wf_cpus_def processor_get_current_def)
  have lo: "min_priority_of s processor_get_current = unat (priority (tcb_table s t))"
    using cur by (simp add: min_priority_of_def thread_get_current_def)
  note R = schedule_refines [OF k n, unfolded lo cur [unfolded thread_get_current_def]]
  show ?thesis
  proof (cases "pick Q (unat (priority (tcb_table s t))) NUM_PRIORITIES")
    case None
    with R show ?thesis
      using y cur by (simp add: handle_sys_sleep_def kexec)
  next
    case (Some p)
    let ?nx = "last (Q (RunQueue p))"
    obtain s1 where s1: "schedule processor_get_current s = Ret ?nx s1"
        "kinv s1 (requeued s (Some t) (Q(RunQueue p := butlast (Q (RunQueue p)))))"
        "strip s1 = dispatched processor_get_current (Some t) ?nx (strip s)"
      using R Some by (auto simp del: fun_upd_apply)
    have m: "?nx \<in> set (Q (RunQueue p))" using Some pick_Some by auto
    have ne: "?nx \<noteq> t" using m kinv_current(4) [OF k cur] by (auto simp: members_def)
    have nx: "is_thread ?nx" using m by (rule repr_thread [OF kinv_exD(1) [OF k]])
    have f: "thread_state (tcb_table s1 ?nx) = RUNNING" "thread_get_current s1 = Some ?nx"
      "thread_state (tcb_table s1 t) = READY"
      using strip_fields(3,8) [OF s1(3)] ne
      by (simp_all add: dispatched_tcb dispatched_cpus thread_get_current_def)
    have "init_server_thread s1 = init_server_thread (strip s1)" by simp
    then have "init_server_thread s1 = Some i" using s1(3) i(1) by simp
    then have "thread_switch_context ?nx True s1 = Switch (switched ?nx i True s1)"
      using nx f i(2) by (intro thread_switch_context_eq) auto
    then show ?thesis
      using Some s1 f ne y cur
      by (auto simp: handle_sys_sleep_def kbind_def kget_def Let_def simp del: fun_upd_apply)
  qed
qed

lemma handle_sys_sleep_forever:
  assumes k: "kinv s Q" and cur: "thread_get_current s = Some t"
    and y: "arg1 args = SL_INF_DURATION" and p: "pick Q MIN_PRIORITY NUM_PRIORITIES = Some p"
    and i: "init_server_thread s = Some i" "in_table i"
  defines "nx \<equiv> last (Q (RunQueue p))"
  shows "\<exists>s1. handle_sys_sleep args s = Switch (switched nx i True s1) \<and>
     kinv s1 (Q(PausedList := t # Q PausedList, RunQueue p := butlast (Q (RunQueue p)))) \<and>
     thread_get_current s1 = Some nx"
proof -
  let ?Q2 = "Q(PausedList := t # Q PausedList)"
  note t = kinv_current(2) [OF k cur] and run = kinv_current(3) [OF k cur]
  obtain s2 where s2: "thread_pause t s = Ret E_OK s2" "kinv s2 (moved t PausedList Q)"
      "strip s2 = upd_tcb t (\<lambda>c. c\<lparr>thread_state := PAUSED\<rparr>) (detached t (strip s))"
    using thread_pause_kinv [OF k t] run by auto
  have d: "strip s2 = upd_tcb t (\<lambda>c. c\<lparr>thread_state := PAUSED\<rparr>) (cpu_drop t (strip s))"
    using s2(3) run by (simp add: detached_def)
  have k2: "kinv s2 ?Q2" using s2(2) kinv_current(4) [OF k cur] by (simp add: moved_def)
  have none: "thread_get_current s2 = None"
    using cur kinv_exD(2) [OF k] strip_fields(8) [OF d]
    by (simp add: thread_get_current_def processor_get_current_def wf_cpus_def)
  have "init_server_thread s2 = init_server_thread (strip s2)" by simp
  then have i2: "init_server_thread s2 = Some i" unfolding d using i(1) by (simp add: cpu_drop_def)
  have "pick ?Q2 lo n = pick Q lo n" for lo n by (induction n) simp_all
  then have p2: "pick ?Q2 MIN_PRIORITY NUM_PRIORITIES = Some p" using p by simp
  have nz: "arg1 args \<noteq> 0" using y by (simp add: SL_INF_DURATION_def)
  have "handle_sys_sleep args s = reschedule s2"
    using y nz cur s2(1)
    by (simp add: handle_sys_sleep_def kbind_def kget_def deref_def pause_code_def error_codes)
  then show ?thesis
    using reschedule_idle [OF k2 none p2 i2 i(2)] by (auto simp: nx_def simp del: fun_upd_apply simp: fun_upd_other)
qed

end
