(* ===== verification/Syscall_Page.thy ===== *)
theory Syscall_Page
  imports Syscall_Thread
begin

text \<open>
  The system calls on page mappings (\<^verbatim>\<open>handle_sys_read_page_mappings\<close> and
  \<^verbatim>\<open>handle_sys_update_page_mappings\<close> of \<^verbatim>\<open>kernel/syscall.c\<close>). The argument structure is read
  once, on entry; the array of mappings is read and written in memory.
\<close>

section \<open>Data\<close>

definition PM_UNMAPPED :: "32 word" where "PM_UNMAPPED = 0x01"
definition PM_READ_ONLY :: "32 word" where "PM_READ_ONLY = 0x02"
definition PM_KERNEL :: "32 word" where "PM_KERNEL = 0x04"
definition PM_UNCACHED :: "32 word" where "PM_UNCACHED = 0x08"
definition PM_WRITETHRU :: "32 word" where "PM_WRITETHRU = 0x10"
definition PM_WRITECOMB :: "32 word" where "PM_WRITECOMB = 0x20"
definition PM_DIRTY :: "32 word" where "PM_DIRTY = 0x40"
definition PM_ACCESSED :: "32 word" where "PM_ACCESSED = 0x80"
definition PM_PAGE_SIZED :: "32 word" where "PM_PAGE_SIZED = 0x100"
definition PM_STICKY :: "32 word" where "PM_STICKY = 0x200"
definition PM_AVAIL_MASK :: "32 word" where "PM_AVAIL_MASK = 0x1F000"
definition PM_AVAIL_OFFSET :: nat where "PM_AVAIL_OFFSET = 12"
definition PAGE_TABLE_SIZE :: "32 word" where "PAGE_TABLE_SIZE = 0x400000"
definition N_PM_LEVELS :: nat where "N_PM_LEVELS = 2"
definition PMT_PAGE_TABLE :: "32 word" where "PMT_PAGE_TABLE = 0"
definition PMT_PAGE :: "32 word" where "PMT_PAGE = 1"
definition PMT_BLOCK :: "32 word" where "PMT_BLOCK = 2"

text \<open>The fields of \<^verbatim>\<open>pde_t\<close> and \<^verbatim>\<open>large_pde_t\<close> that overlay others.\<close>

definition available2 :: bitfield where "available2 = (6, 1)"
definition pde_available :: bitfield where "pde_available = (8, 1)"
definition available3 :: bitfield where "available3 = (10, 2)"
definition large_available :: bitfield where "large_available = (10, 2)"
definition large_resd :: bitfield where "large_resd = (21, 1)"

record SysPageMappingsArgs =
  pm_virt :: addr
  pm_count :: "32 word"
  pm_addr_space :: paddr
  pm_mappings :: addr
  pm_level :: int

definition load_pm_args :: "addr \<Rightarrow> SysPageMappingsArgs kernel" where
  "load_pm_args args =
     kbind (ld32 args) (\<lambda>v. kbind (ld32 (args + 4)) (\<lambda>n. kbind (ld32 (args + 8)) (\<lambda>a.
     kbind (ld32 (args + 12)) (\<lambda>m. kbind (ld32 (args + 16)) (\<lambda>l.
     kret \<lparr>pm_virt = v, pm_count = n, pm_addr_space = a, pm_mappings = m, pm_level = sint l\<rparr>)))))"

text \<open>One element of \<^verbatim>\<open>PageMapping\<close>; \<^verbatim>\<open>phys_frame\<close> and \<^verbatim>\<open>block_num\<close> are one word of a union.\<close>

record mapping =
  pm_type :: "32 word"
  pm_flags :: "32 word"
  phys_frame :: "32 word"

definition mapping_addr :: "addr \<Rightarrow> 32 word \<Rightarrow> nat \<Rightarrow> addr" where
  "mapping_addr mappings i level = mappings + 24 * i + 12 * of_nat level"

definition load_mapping :: "addr \<Rightarrow> mapping kernel" where
  "load_mapping a = kbind (ld32 a) (\<lambda>t. kbind (ld32 (a + 4)) (\<lambda>f. kbind (ld32 (a + 8)) (\<lambda>p.
     kret \<lparr>pm_type = t, pm_flags = f, phys_frame = p\<rparr>)))"

definition store_mapping :: "addr \<Rightarrow> mapping \<Rightarrow> unit kernel" where
  "store_mapping a m = kseq [st32 a (pm_type m), st32 (a + 4) (pm_flags m), st32 (a + 8) (phys_frame m)]"

text \<open>\<^verbatim>\<open>c ? f : 0\<close>\<close>

definition flag_if :: "bool \<Rightarrow> 32 word \<Rightarrow> 32 word" where
  "flag_if b f = (if b then f else 0)"

section \<open>Reading mappings\<close>

definition pde_mapping :: "32 word \<Rightarrow> mapping" where
  "pde_mapping pde =
     (if \<not> bf_on is_present pde then \<lparr>pm_type = PMT_BLOCK, pm_flags = PM_UNMAPPED, phys_frame = drop_bit 1 pde\<rparr>
      else
        let flags = flag_if (\<not> bf_on is_read_write pde) PM_READ_ONLY OR
              flag_if (\<not> bf_on is_user pde) PM_KERNEL OR flag_if (bf_on pcd pde) PM_UNCACHED OR
              flag_if (bf_on pwt pde) PM_WRITETHRU OR flag_if (bf_on accessed pde) PM_ACCESSED in
        if bf_on is_page_sized pde then
          \<lparr>pm_type = PMT_PAGE,
            pm_flags = flags OR PM_PAGE_SIZED OR push_bit PM_AVAIL_OFFSET (bf_get large_available pde)
              OR flag_if (bf_on dirty pde) PM_DIRTY,
            phys_frame = get_pde_frame_number pde\<rparr>
        else
          \<lparr>pm_type = PMT_PAGE_TABLE,
            pm_flags = flags OR push_bit PM_AVAIL_OFFSET
              (flag_if (bf_on available2 pde) (push_bit 4 1) OR bf_get pde_available pde),
            phys_frame = get_pde_frame_number pde\<rparr>)"

definition pte_mapping :: "32 word \<Rightarrow> mapping" where
  "pte_mapping pte =
     (if \<not> bf_on is_present pte then \<lparr>pm_type = PMT_BLOCK, pm_flags = PM_UNMAPPED, phys_frame = drop_bit 1 pte\<rparr>
      else
        \<lparr>pm_type = PMT_PAGE,
          pm_flags = PM_PAGE_SIZED OR flag_if (\<not> bf_on is_read_write pte) PM_READ_ONLY OR
            flag_if (\<not> bf_on is_user pte) PM_KERNEL OR flag_if (bf_on dirty pte) PM_DIRTY OR
            flag_if (bf_on pcd pte) PM_UNCACHED OR flag_if (bf_on pwt pte) PM_WRITETHRU OR
            flag_if (bf_on accessed pte) PM_ACCESSED OR
            push_bit PM_AVAIL_OFFSET (bf_get pte_available pte),
          phys_frame = bf_get entry_base pte\<rparr>)"

text \<open>
  The loop over the levels, from \<open>level\<close> on with \<open>n\<close> iterations left; \<open>False\<close> when the
  handler returns from inside it.
\<close>

primrec read_levels ::
    "SysPageMappingsArgs \<Rightarrow> 32 word \<Rightarrow> addr \<Rightarrow> paddr \<Rightarrow> 32 word \<Rightarrow> nat \<Rightarrow> nat \<Rightarrow> bool kernel" where
  "read_levels args i virt page_dir pde level 0 = kret True"
| "read_levels args i virt page_dir pde level (Suc n) =
     (if level = 0 then
        kbind (read_pde (PDE_INDEX virt) page_dir) (\<lambda>(e, pde).
        if IS_ERROR e then kret False
        else kthen (store_mapping (mapping_addr (pm_mappings args) i 0) (pde_mapping pde))
          (if \<not> bf_on is_present pde then kret True
           else read_levels args i virt page_dir pde (Suc level) n))
      else
        kbind (read_pte (PTE_INDEX (pm_virt args)) (PTE_BASE pde)) (\<lambda>(e, pte).
        if IS_ERROR e then kret False
        else kthen (store_mapping (mapping_addr (pm_mappings args) i 1) (pte_mapping pte))
          (read_levels args i virt page_dir pde (Suc level) n)))"

definition step_of :: "SysPageMappingsArgs \<Rightarrow> 32 word" where
  "step_of args = (if pm_level args = 0 then PAGE_TABLE_SIZE else PAGE_SIZE)"

text \<open>The outer loop over \<open>n\<close> mappings; the result is \<^verbatim>\<open>(int)i\<close>.\<close>

primrec pm_loop ::
    "(32 word \<Rightarrow> addr \<Rightarrow> bool kernel) \<Rightarrow> 32 word \<Rightarrow> 32 word \<Rightarrow> addr \<Rightarrow> nat \<Rightarrow> int kernel" where
  "pm_loop body step i virt 0 = kret (sint i)"
| "pm_loop body step i virt (Suc n) =
     kbind (body i virt) (\<lambda>ok. if ok then pm_loop body step (i + 1) (virt + step) n else kret (sint i))"

definition handle_sys_read_page_mappings :: "addr \<Rightarrow> int kernel" where
  "handle_sys_read_page_mappings args_ptr =
     kbind (load_pm_args args_ptr) (\<lambda>args.
     if pm_mappings args = 0 then kret ESYS_FAIL
     else if pm_level args \<ge> int N_PM_LEVELS then kret ESYS_FAIL
     else
       kbind (if pm_addr_space args = CURRENT_ROOT_PMAP then
                kbind current (\<lambda>t. kbind (rd t root_pmap) (\<lambda>r.
                kthen (st32 (args_ptr + 8) r) (kret (args\<lparr>pm_addr_space := r\<rparr>))))
              else kret args) (\<lambda>args.
       let page_dir = ALIGN_DOWN (pm_addr_space args) PAGE_SIZE in
       pm_loop (\<lambda>i virt. read_levels args i virt page_dir 0 0 (nat (pm_level args))) (step_of args)
         0 (pm_virt args) (unat (pm_count args))))"

section \<open>Updating mappings\<close>

definition bf_put :: "bitfield \<Rightarrow> bool \<Rightarrow> 32 word \<Rightarrow> 32 word" where
  "bf_put f b = bf_set f (if b then 1 else 0)"

definition avail_bits :: "mapping \<Rightarrow> 32 word" where
  "avail_bits m = drop_bit PM_AVAIL_OFFSET (pm_flags m AND PM_AVAIL_MASK)"

text \<open>
  What the \<^verbatim>\<open>switch\<close> makes of the entry: \<open>None\<close> when the handler returns, otherwise the new
  entry, \<^verbatim>\<open>end_walk\<close>, \<^verbatim>\<open>was_mapped\<close> and the frame of a page table that is to be cleared.
\<close>

definition table_entry :: "mapping \<Rightarrow> 32 word \<Rightarrow> 32 word" where
  "table_entry m e =
     (let fl = pm_flags m; av = avail_bits m;
          e = bf_put is_read_write (\<not> IS_FLAG_SET fl PM_READ_ONLY) e;
          e = bf_set is_user 1 e;
          e = bf_put accessed (IS_FLAG_SET fl PM_ACCESSED) e;
          e = bf_put pcd (IS_FLAG_SET fl PM_UNCACHED) e;
          e = bf_put pwt (IS_FLAG_SET fl PM_WRITETHRU) e;
          e = bf_set entry_base (PADDR_TO_PBASE (phys_frame m)) e;
          e = bf_set pde_available (av AND 0x03) e;
          e = bf_set available2 (drop_bit 2 av AND 0x01) e;
          e = bf_set available3 (drop_bit 3 av AND 0x01) e
      in bf_put dirty (IS_FLAG_SET fl PM_DIRTY) e)"

definition page_entry :: "mapping \<Rightarrow> 32 word \<Rightarrow> 32 word" where
  "page_entry m e =
     (let fl = pm_flags m;
          e = bf_put is_read_write (\<not> IS_FLAG_SET fl PM_READ_ONLY) e;
          e = bf_set is_user 1 e;
          e = bf_put accessed (IS_FLAG_SET fl PM_ACCESSED) e;
          e = bf_put pcd (IS_FLAG_SET fl PM_UNCACHED) e;
          e = bf_put pwt (IS_FLAG_SET fl PM_WRITETHRU) e;
          e = bf_set entry_base (PADDR_TO_PBASE (phys_frame m)) e;
          e = bf_set pte_available (avail_bits m AND 0x03) e
      in bf_put dirty (IS_FLAG_SET fl PM_DIRTY) e)"

definition large_entry :: "mapping \<Rightarrow> 32 word \<Rightarrow> 32 word" where
  "large_entry m e =
     (let fl = pm_flags m;
          e = bf_put is_read_write (\<not> IS_FLAG_SET fl PM_READ_ONLY) e;
          e = bf_set is_user 1 e;
          e = bf_put accessed (IS_FLAG_SET fl PM_ACCESSED) e;
          e = bf_put pcd (IS_FLAG_SET fl PM_UNCACHED) e;
          e = bf_put pwt (IS_FLAG_SET fl PM_WRITETHRU) e;
          e = bf_set is_page_sized 1 e;
          e = bf_put dirty (IS_FLAG_SET fl PM_DIRTY) e;
          e = bf_put pte_global (IS_FLAG_SET fl PM_STICKY) e;
          e = bf_put large_pat (IS_FLAG_SET fl PM_WRITECOMB \<and> \<not> IS_FLAG_SET fl PM_UNCACHED) e;
          e = bf_set large_available (avail_bits m AND 0x03) e;
          e = bf_set base_lower (drop_bit 10 (phys_frame m) AND 0x3FF) e;
          e = bf_set base_upper (drop_bit 20 (phys_frame m)) e
      in bf_set large_resd 0 e)"

definition switch_entry ::
    "nat \<Rightarrow> bool \<Rightarrow> mapping \<Rightarrow> 32 word \<Rightarrow> (32 word \<times> bool \<times> bool \<times> 32 word option) option" where
  "switch_entry level was_mapped m e =
     (let last_level = (level = N_PM_LEVELS - 1) in
      if pm_type m = PMT_BLOCK then Some (push_bit 1 (phys_frame m), True, bf_on is_present e, None)
      else if pm_type m = PMT_PAGE_TABLE then
        if last_level then None
        else if IS_FLAG_SET (pm_flags m) PM_UNMAPPED then Some (0, True, was_mapped, None)
        else if avail_bits m AND NOT 0x0F \<noteq> 0 then None
        else Some (table_entry m e, False, was_mapped,
                   if was_mapped then None else Some (phys_frame m))
      else if pm_type m = PMT_PAGE then
        if IS_FLAG_SET (pm_flags m) PM_UNMAPPED then Some (0, True, bf_on is_present e, None)
        else if avail_bits m AND NOT 0x03 \<noteq> 0 then None
        else Some (if last_level then page_entry m e else large_entry m e, True,
                   bf_on is_present e, None)
      else None)"

text \<open>
  The loop over the levels. The invalidation of the translation cache has no counterpart in a
  model where translation is always up to date.
\<close>

primrec update_levels ::
    "SysPageMappingsArgs \<Rightarrow> 32 word \<Rightarrow> addr \<Rightarrow> paddr \<Rightarrow> 32 word \<Rightarrow> bool \<Rightarrow> nat \<Rightarrow> nat \<Rightarrow> bool kernel" where
  "update_levels args i virt page_dir e was_mapped level 0 = kret True"
| "update_levels args i virt page_dir e was_mapped level (Suc n) =
     (let idx = drop_bit (12 + 10 * (N_PM_LEVELS - level - 1)) virt AND (PAGE_SIZE - 1) in
      kbind (read_pmap_entry (if level = 0 then page_dir
               else PBASE_TO_PADDR (get_pde_frame_number e)) idx) (\<lambda>(err, e).
      if IS_ERROR err then kret False
      else if bf_on is_present e \<and> \<not> bf_on is_user e then kret False
      else kbind (load_mapping (mapping_addr (pm_mappings args) i level)) (\<lambda>m.
        case switch_entry level was_mapped m e of
          None \<Rightarrow> kret False
        | Some (e, end_walk, was_mapped, clear) \<Rightarrow>
            kbind (case clear of None \<Rightarrow> kret True
                   | Some f \<Rightarrow> kbind (clear_phys_frames f 1) (\<lambda>c. kret (c = 1))) (\<lambda>cleared.
            if \<not> cleared then kret False
            else kbind (write_pmap_entry (if level = 0 then pm_addr_space args
                          else PBASE_TO_PADDR (get_pde_frame_number e)) idx e) (\<lambda>err.
              if IS_ERROR err then kret False
              else if end_walk then kret True
              else update_levels args i virt page_dir e was_mapped (Suc level) n)))))"

definition handle_sys_update_page_mappings :: "addr \<Rightarrow> int kernel" where
  "handle_sys_update_page_mappings args_ptr =
     kbind (load_pm_args args_ptr) (\<lambda>args.
     if pm_mappings args = 0 then kret ESYS_FAIL
     else if pm_level args \<ge> int N_PM_LEVELS then kret ESYS_FAIL
     else
       kbind (if pm_addr_space args = CURRENT_ROOT_PMAP then
                kbind current (\<lambda>t. kbind (rd t root_pmap) (\<lambda>r.
                kthen (st32 (args_ptr + 8) (r AND CR3_BASE_MASK))
                  (kret (args\<lparr>pm_addr_space := r AND CR3_BASE_MASK\<rparr>))))
              else kret args) (\<lambda>args.
       let page_dir = ALIGN_DOWN (pm_addr_space args) PAGE_SIZE in
       pm_loop (\<lambda>i virt. update_levels args i virt page_dir 0 False 0 (nat (pm_level args)))
         (step_of args) 0 (pm_virt args) (unat (pm_count args))))"

section \<open>What an update can do to an entry\<close>

lemmas entry_fields = fields available2_def pde_available_def available3_def large_available_def
  large_resd_def

lemma entries_keep_present:
  "bf_on is_present (table_entry m e) = bf_on is_present e"
  "bf_on is_present (page_entry m e) = bf_on is_present e"
  "bf_on is_present (large_entry m e) = bf_on is_present e"
  by (simp_all add: table_entry_def page_entry_def large_entry_def Let_def bf_put_def bf_on_def
      bf_get_set_other bf_disjoint_def entry_fields)

lemma entries_user:
  "bf_on is_user (table_entry m e)" "bf_on is_user (page_entry m e)" "bf_on is_user (large_entry m e)"
  by (simp_all add: table_entry_def page_entry_def large_entry_def Let_def bf_put_def bf_on_def
      bf_get_set_other bf_get_set_same bf_disjoint_def entry_fields)

lemma switch_entry_present:
  assumes "switch_entry level w m e = Some (e', ew, w', c)" and "bf_on is_present e'"
  shows "bf_on is_present e"
proof -
  have "\<not> bf_on is_present (push_bit 1 (phys_frame m))"
    by (simp add: bf_on_def bf_get_def is_present_def) (rule bit_word_eqI, simp add: bit_simps)
  moreover have "\<not> bf_on is_present 0" by (simp add: bf_on_def)
  ultimately show ?thesis
    using assms by (auto simp: switch_entry_def Let_def entries_keep_present split: if_splits)
qed

section \<open>The loops\<close>

lemma pm_loop_skip:
  assumes "\<And>i v. body i v s = Ret True s"
  shows "pm_loop body step i v n s = Ret (sint (i + of_nat n)) s"
  by (induction n arbitrary: i v) (simp_all add: kexec assms ac_simps)

lemma load_mapping_same: "load_mapping a s = Ret m s' \<Longrightarrow> s' = s"
  by (auto simp: load_mapping_def kbind_def kret_def dest!: ld_same split: kres.splits)

lemma pmap_entry_index:
  "drop_bit (12 + 10 * (N_PM_LEVELS - Suc 0)) virt AND (PAGE_SIZE - 1) = PDE_INDEX virt"
proof -
  have m: "PAGE_SIZE - 1 = mask 12" "(0x3FF :: 32 word) = mask 10"
    by (simp_all add: PAGE_SIZE_def mask_eq_exp_minus_1)
  show ?thesis unfolding PDE_INDEX_def m
    by (rule bit_word_eqI) (auto simp: bit_simps N_PM_LEVELS_def dest: bit_imp_le_length)
qed

lemma mem_only_clear_phys_frames: "mem_only (clear_phys_frames p n)"
proof -
  have "mem_only (rep_stosb a v k)" for a v k
    by (induction k arbitrary: a) (auto intro!: mem_only_intros)
  then show ?thesis
    unfolding clear_phys_frames_def clear_phys_frames_with_start_def memset_fills
    by (auto intro!: mem_only_intros)
qed

lemma entry_paddr_aligned:
  assumes "ALIGN_DOWN dir PAGE_SIZE = dir" and "dir \<noteq> CURRENT_ROOT_PMAP"
  shows "entry_paddr s dir n = dir + 4 * n"
  using assms by (simp add: entry_paddr_def root_of_def)

text \<open>
  The one iteration over the levels that the check \<^verbatim>\<open>args->level >= N_PM_LEVELS\<close> leaves: the
  directory entry is replaced by the one \<open>switch_entry\<close> computes.
\<close>

lemma update_levels_entry:
  assumes al: "ALIGN_DOWN dir PAGE_SIZE = dir" "dir \<noteq> CURRENT_ROOT_PMAP" "pm_addr_space args = dir"
    and r: "update_levels args i virt dir x False 0 1 s = Ret True s'"
  defines "e \<equiv> phys32 (phys s) (dir + 4 * PDE_INDEX virt)"
  shows "\<exists>m e' ew w c. switch_entry 0 False m e = Some (e', ew, w, c) \<and>
     \<not> (bf_on is_present e \<and> \<not> bf_on is_user e) \<and>
     phys32 (phys s') (dir + 4 * PDE_INDEX virt) = e'"
proof -
  note ep = entry_paddr_aligned [OF al(1,2)]
  note rd = read_pmap_entry_eq [OF index_less(1) [of virt], of dir s, unfolded ep, folded e_def]
  note wr = write_pmap_entry_eq [OF index_less(1) [of virt], of dir, unfolded ep]
  have ok: "\<not> IS_ERROR E_OK" by (simp add: error_codes)
  let ?cl = "\<lambda>c. case c of None \<Rightarrow> kret True
    | Some f \<Rightarrow> kbind (clear_phys_frames f 1) (\<lambda>c. kret (c = 1))"
  let ?k = "\<lambda>m. case switch_entry 0 False m e of None \<Rightarrow> kret False
    | Some (e, ew, w, c) \<Rightarrow> kbind (?cl c) (\<lambda>cleared. if \<not> cleared then kret False
        else kbind (write_pmap_entry dir (PDE_INDEX virt) e) (\<lambda>err.
          if IS_ERROR err then kret False else kret True))"
  have u: "update_levels args i virt dir x False 0 1 s =
    (if bf_on is_present e \<and> \<not> bf_on is_user e then kret False
     else kbind (load_mapping (mapping_addr (pm_mappings args) i 0)) ?k) (set_temp_pte temp_slot 0 s)"
    by (simp add: Let_def pmap_entry_index kbind_Ret [where m = "read_pmap_entry dir (PDE_INDEX virt)", OF rd]
        ok al(3) cong: if_cong option.case_cong prod.case_cong)
  have nk: "\<not> (bf_on is_present e \<and> \<not> bf_on is_user e)"
    using r unfolding u by (simp add: kret_def split: if_splits)
  obtain m s1 where k: "?k m s1 = Ret True s'"
    using r nk unfolding u if_not_P [OF nk] kbind_eq_Ret_iff by blast
  then obtain e' ew w c where sw: "switch_entry 0 False m e = Some (e', ew, w, c)"
    by (cases "switch_entry 0 False m e") (auto simp: kret_def)
  from k [unfolded sw] obtain s2 err where "write_pmap_entry dir (PDE_INDEX virt) e' s2 = Ret err s'"
    by (auto simp: kbind_eq_Ret_iff kret_def split: if_splits)
  then have "s' = set_temp_pte temp_slot 0 (s2\<lparr>phys := put32 (dir + 4 * PDE_INDEX virt) e' (phys s2)\<rparr>)"
    using wr [of e' s2] by simp
  then have "phys32 (phys s') (dir + 4 * PDE_INDEX virt) = e'"
    by (simp add: set_temp_pte_def phys32_put32)
  with sw nk show ?thesis by blast
qed

end
