(* ===== verification/Syscall.thy ===== *)
theory Syscall
  imports Syscall_Page
begin

text \<open>
  System call entry (\<^verbatim>\<open>kernel/syscall.c\<close>): the handlers that dispatch on the resource type, the
  handler table, \<^verbatim>\<open>sysenter_entry\<close>, and the user-side stubs of \<^verbatim>\<open>include/os/syscalls.h\<close>.
\<close>

section \<open>Dispatch\<close>

definition RES_PAGE_MAPPING :: "32 word" where "RES_PAGE_MAPPING = 0"
definition RES_TCB :: "32 word" where "RES_TCB = 1"
definition RES_INT :: "32 word" where "RES_INT = 2"

definition handle_sys_create :: "syscall_args \<Rightarrow> int kernel" where
  "handle_sys_create args =
     (if arg1 args = RES_TCB then handle_sys_create_tcb (arg2 args)
      else if arg1 args = RES_INT then handle_sys_create_int (arg2 args)
      else kret ESYS_NOTIMPL)"

definition handle_sys_read :: "syscall_args \<Rightarrow> int kernel" where
  "handle_sys_read args =
     (if arg1 args = RES_PAGE_MAPPING then handle_sys_read_page_mappings (arg2 args)
      else if arg1 args = RES_INT then handle_sys_read_int (arg2 args)
      else if arg1 args = RES_TCB then handle_sys_read_tcb (arg2 args)
      else kret ESYS_NOTIMPL)"

definition handle_sys_update :: "syscall_args \<Rightarrow> int kernel" where
  "handle_sys_update args =
     (if arg1 args = RES_PAGE_MAPPING then handle_sys_update_page_mappings (arg2 args)
      else if arg1 args = RES_INT then handle_sys_update_int (arg2 args)
      else if arg1 args = RES_TCB then handle_sys_update_tcb (arg2 args)
      else kret ESYS_NOTIMPL)"

definition handle_sys_destroy :: "syscall_args \<Rightarrow> int kernel" where
  "handle_sys_destroy args =
     (if arg1 args = RES_TCB then handle_sys_destroy_tcb (arg2 args)
      else if arg1 args = RES_INT then handle_sys_destroy_int (arg2 args)
      else kret ESYS_NOTIMPL)"

definition syscall_table :: "(syscall_args \<Rightarrow> int kernel) list" where
  "syscall_table = [handle_sys_create, handle_sys_read, handle_sys_update, handle_sys_destroy,
     handle_sys_send, handle_sys_sleep, handle_sys_receive]"

section \<open>Entry and exit\<close>

text \<open>The registers at \<^verbatim>\<open>sysenter\<close>, pushed in the order of the fields of \<^verbatim>\<open>SyscallArgs\<close>.\<close>

definition pushed_args :: "ExecutionState \<Rightarrow> syscall_args" where
  "pushed_args r = \<lparr>syscall_arg = eax r, arg1 = ebx r, arg2 = ecx r, return_address = edx r,
     arg3 = esi r, arg4 = edi r, user_stack = ebp r, sys_eflags = eflags r\<rparr>"

text \<open>\<^verbatim>\<open>sysexit\<close> continues at \<^verbatim>\<open>edx\<close> with the stack pointer \<^verbatim>\<open>ecx\<close>; \<^verbatim>\<open>sti\<close> sets the interrupt flag.\<close>

definition sysexit_regs :: "int \<Rightarrow> ExecutionState \<Rightarrow> ExecutionState" where
  "sysexit_regs ret r = r\<lparr>eax := word_of_int ret, eip := edx r, user_esp := ecx r,
     eflags := eflags r OR EFLAGS_IF, ds := 0x23, es := 0x23\<rparr>"

text \<open>The index into the table is the low byte of \<^verbatim>\<open>eax\<close>, not compared with the table's length.\<close>

definition sysenter_entry :: "ExecutionState \<Rightarrow> unit kernel" where
  "sysenter_entry r =
     (let n = unat (eax r AND 0xFF) in
      kthen (kguard (n < length syscall_table) OutOfBounds)
     (kbind ((syscall_table ! n) (pushed_args r)) (\<lambda>ret.
      kthen (kmod (\<lambda>s. s\<lparr>user_regs := sysexit_regs ret r\<rparr>)) RESTORE_STATE)))"

text \<open>
  The registers a stub \<^verbatim>\<open>SYSCALL4\<close> enters the kernel with: the operands \<^verbatim>\<open>"a"\<close>, \<^verbatim>\<open>"b"\<close>, \<^verbatim>\<open>"d"\<close>,
  \<^verbatim>\<open>"S"\<close>, \<^verbatim>\<open>"D"\<close>, then \<^verbatim>\<open>SYSENTER_INSTR\<close>: \<^verbatim>\<open>push ebp\<close>, \<^verbatim>\<open>lea 1f, edx\<close>, \<^verbatim>\<open>mov esp, ebp\<close>. \<open>label\<close> is
  the address of \<^verbatim>\<open>1:\<close>.
\<close>

definition SYSENTER_INSTR :: "addr \<Rightarrow> ExecutionState \<Rightarrow> ExecutionState" where
  "SYSENTER_INSTR label r =
     (let sp = user_esp r - 4 in r\<lparr>user_esp := sp, edx := label, ebp := sp\<rparr>)"

definition SYSCALL4 ::
    "addr \<Rightarrow> 32 word \<Rightarrow> 32 word \<Rightarrow> 32 word \<Rightarrow> 32 word \<Rightarrow> 32 word \<Rightarrow> ExecutionState \<Rightarrow> ExecutionState" where
  "SYSCALL4 label num a1 a2 a3 a4 r =
     SYSENTER_INSTR label (r\<lparr>eax := num, ebx := a1, edx := a2, esi := a3, edi := a4\<rparr>)"

section \<open>Entry points\<close>

lemma sysenter_entry_eq:
  assumes "n = unat (eax r AND 0xFF)" and "n < 7"
    and "(syscall_table ! n) (pushed_args r) s = Ret ret s'"
  shows "sysenter_entry r s = Switch (s'\<lparr>user_regs := sysexit_regs ret r\<rparr>)"
  using assms by (simp add: sysenter_entry_def Let_def kexec syscall_table_def)

lemma sysenter_entry_switch:
  assumes "n = unat (eax r AND 0xFF)" and "n < 7"
    and "(syscall_table ! n) (pushed_args r) s = Switch s'"
  shows "sysenter_entry r s = Switch s'"
  using assms by (simp add: sysenter_entry_def Let_def kexec syscall_table_def)

lemma sysenter_entry_bad:
  assumes "7 \<le> unat (eax r AND 0xFF)"
  shows "sysenter_entry r s = Fault OutOfBounds"
  using assms by (simp add: sysenter_entry_def Let_def kexec syscall_table_def)

lemma pushed_args_SYSCALL4:
  "pushed_args (SYSCALL4 label num a1 a2 a3 a4 r) =
     \<lparr>syscall_arg = num, arg1 = a1, arg2 = ecx r, return_address = label, arg3 = a3, arg4 = a4,
      user_stack = user_esp r - 4, sys_eflags = eflags r\<rparr>"
  by (simp add: pushed_args_def SYSCALL4_def SYSENTER_INSTR_def Let_def)

text \<open>The page mapping call on the handler level.\<close>

lemma update_page_mappings_one:
  assumes "load_pm_args p s = Ret args s" and "pm_mappings args \<noteq> 0" and "pm_level args = 1"
    and "pm_count args = 1" and "pm_addr_space args \<noteq> CURRENT_ROOT_PMAP"
    and "ALIGN_DOWN (pm_addr_space args) PAGE_SIZE = pm_addr_space args"
  shows "handle_sys_update_page_mappings p s =
     kbind (update_levels args 0 (pm_virt args) (pm_addr_space args) 0 False 0 1)
       (\<lambda>ok. kret (if ok then 1 else 0)) s"
  using assms
  by (auto simp: handle_sys_update_page_mappings_def kbind_def kret_def N_PM_LEVELS_def Let_def
      split: kres.split)

lemma update_page_mappings_none:
  assumes "load_pm_args p s = Ret args s" and "pm_mappings args \<noteq> 0" and "pm_level args \<le> 0"
    and "pm_addr_space args \<noteq> CURRENT_ROOT_PMAP"
  shows "handle_sys_update_page_mappings p s = Ret (sint (pm_count args)) s"
    and "handle_sys_read_page_mappings p s = Ret (sint (pm_count args)) s"
  using assms
  by (simp_all add: handle_sys_update_page_mappings_def handle_sys_read_page_mappings_def kbind_def
      kret_def N_PM_LEVELS_def Let_def pm_loop_skip)

end
