(* ===== verification/Kernel_Steps.thy ===== *)
theory Kernel_Steps
  imports Syscall
begin

text \<open>
  The kernel as a transition system: a step is one operation on threads, one scheduling
  decision, one message call to a named partner, one IRQ or one sleep call, ending in a return
  or a switch to user mode. The invariant holds in every state reached from one where it holds.
  Releasing a thread, updating its status and a message to or from any thread are not steps of the
  relation: they can leave threads behind that are on no list. Creating a thread and handling an
  exception are not steps either.
\<close>

section \<open>Steps\<close>

definition kok :: "kstate \<Rightarrow> bool" where
  "kok s \<longleftrightarrow> (\<exists>Q. kinv s Q) \<and> (\<exists>i. init_server_thread s = Some i \<and> in_table i) \<and>
     (\<forall>n t. irq_handlers s n = Some t \<longrightarrow> is_thread t)"

fun final :: "('s, 'a) kres \<Rightarrow> 's option" where
  "final (Ret a s) = Some s"
| "final (Switch s) = Some s"
| "final (Fault e) = None"

inductive kstep :: "kstate \<Rightarrow> kstate \<Rightarrow> bool" where
  start: "is_thread t \<Longrightarrow> final (thread_start t s) = Some s' \<Longrightarrow> kstep s s'"
| pause: "is_thread t \<Longrightarrow> final (thread_pause t s) = Some s' \<Longrightarrow> kstep s s'"
| wakeup: "is_thread t \<Longrightarrow> final (thread_wakeup t s) = Some s' \<Longrightarrow> kstep s s'"
| schedule: "pid < num_processors s \<Longrightarrow> final (schedule pid s) = Some s' \<Longrightarrow> kstep s s'"
| send: "thread_get_current s = Some t \<Longrightarrow> is_thread r \<Longrightarrow>
    final (send_message t r subject flags buffer len s) = Some s' \<Longrightarrow> kstep s s'"
| receive: "thread_get_current s = Some t \<Longrightarrow> is_thread r \<Longrightarrow>
    final (receive_message t r flags buffer len s) = Some s' \<Longrightarrow> kstep s s'"
| sleep: "thread_get_current s = Some t \<Longrightarrow> final (handle_sys_sleep args s) = Some s' \<Longrightarrow> kstep s s'"
| irq_register: "is_thread t \<Longrightarrow> final (irq_register t irq s) = Some s' \<Longrightarrow> kstep s s'"
| irq_unregister: "is_thread t \<Longrightarrow> final (irq_unregister t irq s) = Some s' \<Longrightarrow> kstep s s'"
| irq: "final (handle_irq frame s) = Some s' \<Longrightarrow> kstep s s'"

section \<open>Preservation\<close>

lemma strip_env:
  assumes "strip s' = x"
  shows "init_server_thread s' = init_server_thread x" "irq_handlers s' = irq_handlers x"
  using assms by (auto simp: strip_def)

lemma detached_env [simp]:
  "init_server_thread (detached t s) = init_server_thread s"
  "irq_handlers (detached t s) = irq_handlers s"
  "init_server_thread (cpu_drop t s) = init_server_thread s"
  "irq_handlers (cpu_drop t s) = irq_handlers s"
  by (auto simp: detached_def cpu_drop_def split: thread_state_t.split)

lemma switched_env [simp]:
  "init_server_thread (switched t i b s) = init_server_thread s"
  "irq_handlers (switched t i b s) = irq_handlers s"
  by (simp_all add: switched_def Let_def)

lemma kokI:
  assumes "kok s" and "kinv s' Q" and "init_server_thread s' = init_server_thread s"
    and "irq_handlers s' = irq_handlers s"
  shows "kok s'"
  using assms by (auto simp: kok_def)

lemma kok_with_mem [simp]: "kok (with_mem m k s) = kok s"
  by (simp add: kok_def)

lemma thread_start_kok:
  assumes "kok s" and "is_thread t" and "final (thread_start t s) = Some s'"
  shows "kok s'"
proof (cases "thread_state (tcb_table s t) \<in> {WAIT_FOR_RECV, WAIT_FOR_SEND, PAUSED}")
  case True
  obtain Q where k: "kinv s Q" using assms(1) by (auto simp: kok_def)
  obtain s1 where "thread_start t s = Ret E_OK s1" "kinv s1 (moved t (run_queue s t) Q)"
      "strip s1 = upd_tcb t (\<lambda>c. c\<lparr>thread_state := READY\<rparr>) (detached t (strip s))"
    using thread_start_kinv [OF k assms(2) True] by blast
  with assms(3) show ?thesis using strip_env [of s1] kokI [OF assms(1)] by fastforce
next
  case False
  then show ?thesis
    using thread_start_noop [OF assms(2), of s] assms(1,3)
    by (cases "thread_state (tcb_table s t)") auto
qed

lemma thread_wakeup_kok:
  assumes "kok s" and "is_thread t" and "final (thread_wakeup t s) = Some s'"
  shows "kok s'"
proof (cases "thread_state (tcb_table s t) \<in> {WAIT_FOR_RECV, WAIT_FOR_SEND, PAUSED}")
  case True
  obtain Q where k: "kinv s Q" using assms(1) by (auto simp: kok_def)
  obtain s1 where "thread_wakeup t s = Ret E_OK s1" "kinv s1 (moved t (run_queue s t) Q)"
      "strip s1 = upd_tcb t (\<lambda>c. c\<lparr>thread_state := READY\<rparr>) (detached t (strip s))"
    using thread_wakeup_kinv [OF k assms(2) True] by blast
  with assms(3) show ?thesis using strip_env [of s1] kokI [OF assms(1)] by fastforce
next
  case False
  then show ?thesis
    using thread_wakeup_noop [OF assms(2), of s] assms(1,3)
    by (cases "thread_state (tcb_table s t)") auto
qed

lemma thread_pause_kok:
  assumes "kok s" and "is_thread t" and "final (thread_pause t s) = Some s'"
  shows "kok s'"
proof (cases "thread_state (tcb_table s t) \<in> {WAIT_FOR_RECV, WAIT_FOR_SEND, READY, RUNNING}")
  case True
  obtain Q where k: "kinv s Q" using assms(1) by (auto simp: kok_def)
  obtain s1 where "thread_pause t s = Ret E_OK s1" "kinv s1 (moved t PausedList Q)"
      "strip s1 = upd_tcb t (\<lambda>c. c\<lparr>thread_state := PAUSED\<rparr>) (detached t (strip s))"
    using thread_pause_kinv [OF k assms(2) True] by blast
  with assms(3) show ?thesis using strip_env [of s1] kokI [OF assms(1)] by fastforce
next
  case False
  then show ?thesis
    using thread_pause_noop [OF assms(2), of s] assms(1,3)
    by (cases "thread_state (tcb_table s t)") auto
qed

text \<open>A thread \<open>schedule\<close> returns is running and current.\<close>

lemma schedule_kok:
  assumes "kok s" and "pid < num_processors s" and "schedule pid s = Ret t s'"
  shows "kok s'" "is_thread t" "thread_state (tcb_table s' t) = RUNNING"
proof -
  obtain Q where k: "kinv s Q" using assms(1) by (auto simp: kok_def)
  note R = schedule_refines [OF k assms(2)]
  have "kok s' \<and> is_thread t \<and> thread_state (tcb_table s' t) = RUNNING"
  proof (cases "pick Q (min_priority_of s pid) NUM_PRIORITIES")
    case None
    with R assms(3) have c: "running_thread (processors s pid) = Some t" "s' = s"
      by (auto split: option.split_asm)
    then have "on_cpu s t" using assms(2) by (auto simp: on_cpu_def)
    then show ?thesis
      using kinv_exD(2) [OF k] kinv_fields(4) [OF k] c(2) assms(1) by (auto simp: wf_cpus_def)
  next
    case (Some p)
    with R assms(3) have t: "t = last (Q (RunQueue p))"
        "kinv s' (requeued s (running_thread (processors s pid)) (Q(RunQueue p := butlast (Q (RunQueue p)))))"
        "strip s' = dispatched pid (running_thread (processors s pid)) t (strip s)"
      by (auto simp del: fun_upd_apply)
    have "t \<in> set (Q (RunQueue p))" using Some pick_Some t(1) by auto
    then have "is_thread t" by (rule repr_thread [OF kinv_exD(1) [OF k]])
    then show ?thesis
      using kokI [OF assms(1) t(2)] strip_env [OF t(3)] strip_fields(3) [OF t(3)]
      by (simp add: dispatched_tcb)
  qed
  then show "kok s'" "is_thread t" "thread_state (tcb_table s' t) = RUNNING" by simp_all
qed

lemma switch_context_kok:
  assumes "kok s" and "is_thread t" and "thread_state (tcb_table s t) = RUNNING"
    and "final (thread_switch_context t b s :: (kstate, 'a) kres) = Some s'"
  shows "kok s'"
proof -
  obtain i Q where i: "init_server_thread s = Some i" "in_table i" and k: "kinv s Q"
    using assms(1) by (auto simp: kok_def)
  have "(thread_switch_context t b s :: (kstate, 'a) kres) = Switch (switched t i b s)"
    using assms(2,3) i kinv_current(2) [OF k] by (intro thread_switch_context_eq) auto
  with assms(1,4) show ?thesis by (auto simp: kok_def)
qed

lemma current_processor: "kok s \<Longrightarrow> processor_get_current < num_processors s"
  by (auto simp: kok_def processor_get_current_def wf_cpus_def dest: kinv_exD(2))

lemma schedule_final: "final (schedule pid s) = Some s' \<Longrightarrow> kok s \<Longrightarrow> pid < num_processors s \<Longrightarrow>
    \<exists>t. schedule pid s = Ret t s'"
proof -
  assume a: "final (schedule pid s) = Some s'" "kok s" "pid < num_processors s"
  obtain Q where k: "kinv s Q" using a(2) by (auto simp: kok_def)
  show ?thesis
    using schedule_refines [OF k a(3)] a(1) by (auto split: option.split_asm)
qed

lemma reschedule_kok:
  assumes "kok s" and "final (reschedule s :: (kstate, 'a) kres) = Some s'"
  shows "kok s'"
proof -
  note n = current_processor [OF assms(1)]
  obtain t s1 where s1: "schedule processor_get_current s = Ret t s1"
    and f: "final (thread_switch_context t True s1 :: (kstate, 'a) kres) = Some s'"
    using assms(2) schedule_final [OF _ assms(1) n]
    by (cases "schedule processor_get_current s") (auto simp: reschedule_def kbind_def)
  show ?thesis
    using switch_context_kok [OF schedule_kok [OF assms(1) n s1] f] .
qed

text \<open>Message calls.\<close>

lemma mem_only_cases:
  assumes "mem_only f"
  obtains e where "f s = Fault e" | a m k where "f s = Ret a (with_mem m k s)"
  using assms unfolding mem_only_def by (cases "f s") blast+

lemma deliver_kok:
  assumes ok: "kok s" and t: "is_thread t" and r: "is_thread r" and "t \<noteq> r"
    and st: "thread_state (tcb_table s r) = WAIT_FOR_SEND"
    and f: "final (deliver t r km subject flags buffer len s) = Some s'"
  shows "kok s'"
proof -
  obtain Q where k: "kinv s Q" using ok by (auto simp: kok_def)
  have it: "in_table r" using r by auto
  let ?c = "tcb_table s r"
  let ?n = "min (edi (user_exec_state ?c)) len"
  let ?p = "poke_virt (ebx (user_exec_state ?c)) ?n buffer (root_pmap ?c)"
  have g: "\<not> wait_for_kernel_msg ?c \<or> wait_tid ?c = NULL_TID"
    by (rule ccontr) (use f it in \<open>simp add: deliver_def kbind_def rd_def kthen_def kguard_def\<close>)
  show ?thesis
  proof (cases rule: mem_only_cases [OF mem_only_poke_virt(1), of "ebx (user_exec_state ?c)" ?n buffer
        "root_pmap ?c" s])
    case (1 e)
    then show ?thesis
      using f it g by (simp add: deliver_def kbind_def rd_def kthen_def kguard_def Let_def)
  next
    case (2 e m pt)
    show ?thesis
    proof (cases "IS_ERROR e")
      case True
      then have "s' = with_mem m pt s"
        using f it g 2 by (simp add: deliver_def kbind_def rd_def kthen_def kguard_def Let_def kret_def)
      then show ?thesis using ok by simp
    next
      case False
      obtain s1 where "deliver t r km subject flags buffer len s = Ret E_OK s1"
          "kinv s1 (moved r (run_queue s r) Q)"
          "strip s1 = upd_tcb t (sent r ?n) (upd_tcb r (delivered km t subject flags ?n)
            (upd_tcb r (\<lambda>c. c\<lparr>wait_tid := NULL_TID, thread_state := READY\<rparr>)
              (strip (with_mem m pt s))))"
        using deliver_kinv [OF k t r assms(4) st g refl 2 False] by blast
      with f show ?thesis using strip_env [of s1] kokI [OF ok] by fastforce
    qed
  qed
qed

lemma accept_kok:
  assumes ok: "kok s" and r: "is_thread r" and t: "is_thread t" and "t \<noteq> r"
    and st: "thread_state (tcb_table s t) = WAIT_FOR_RECV"
    and f: "final (accept r t km buffer len s) = Some s'"
  shows "kok s'"
proof -
  obtain Q where k: "kinv s Q" using ok by (auto simp: kok_def)
  have it: "in_table t" using t by auto
  let ?c = "tcb_table s t"
  let ?n = "min (edi (user_exec_state ?c)) len"
  show ?thesis
  proof (cases rule: mem_only_cases [OF mem_only_poke_virt(2), of "ebx (user_exec_state ?c)" ?n buffer
        "root_pmap ?c" s])
    case (1 e)
    then show ?thesis using f it by (simp add: accept_def kbind_def rd_def Let_def)
  next
    case (2 e m pt)
    show ?thesis
    proof (cases "IS_ERROR e")
      case True
      then have "s' = with_mem m pt s"
        using f it 2 by (simp add: accept_def kbind_def rd_def Let_def kret_def)
      then show ?thesis using ok by simp
    next
      case False
      obtain s1 e1 where "accept r t km buffer len s = Ret e1 s1"
          "kinv s1 (moved t (run_queue s t) Q)"
          "strip s1 = upd_tcb t (taken ?n) (upd_tcb r (received t ?n ?c)
            (upd_tcb t (\<lambda>c. c\<lparr>wait_tid := NULL_TID, thread_state := READY\<rparr>)
              (strip (with_mem m pt s))))"
        using accept_kinv [OF k r t assms(4) st refl 2 False] by blast
      with f show ?thesis using strip_env [of s1] kokI [OF ok] by fastforce
    qed
  qed
qed

lemma send_message_kok:
  assumes ok: "kok s" and cur: "thread_get_current s = Some t" and r: "is_thread r"
    and f: "final (send_message t r subject flags buffer len s) = Some s'"
  shows "kok s'"
proof -
  obtain Q where k: "kinv s Q" using ok by (auto simp: kok_def)
  note t = kinv_current(2) [OF k cur]
  note ref = send_message_refused [OF t]
  have it: "in_table r" "r \<noteq> NULL_TID" using r by auto
  let ?km = "IS_FLAG_SET flags MSG_KERNEL"
  consider "r = t \<or> (len > 0 \<and> buffer = 0)"
    | "r \<noteq> t" "\<not> (len > 0 \<and> buffer = 0)" "thread_state (tcb_table s r) \<in> {INACTIVE, ZOMBIE}"
    | "r \<noteq> t" "\<not> (len > 0 \<and> buffer = 0)" "send_ready ?km t (tcb_table s r)"
    | "r \<noteq> t" "\<not> (len > 0 \<and> buffer = 0)" "thread_state (tcb_table s r) \<notin> {INACTIVE, ZOMBIE}"
      "\<not> send_ready ?km t (tcb_table s r)" by blast
  then show ?thesis
  proof cases
    case 1
    then show ?thesis using ref(1,2) f ok by auto
  next
    case 2
    then show ?thesis using ref(3) [OF r] f ok by auto
  next
    case 3
    then have "thread_state (tcb_table s r) = WAIT_FOR_SEND" by (simp add: send_ready_def)
    then show ?thesis
      using send_message_ready [OF 3(1) it(2,1) 3(2,3)] f deliver_kok [OF ok t r 3(1) [symmetric]]
      by simp
  next
    case 4
    show ?thesis
    proof (cases "IS_FLAG_SET flags MSG_NOBLOCK")
      case True
      then show ?thesis using ref(4) [OF r 4] f ok by simp
    next
      case False
      have q: "queue_ref (SenderQueue r)" using it(1) by simp
      have l: "loc (c\<lparr>thread_state := WAIT_FOR_RECV, wait_tid := r\<rparr>) = Some (SenderQueue r)" for c
        using it(2) by (simp add: loc_def)
      obtain s3 kf regs where s3: "send_message t r subject flags buffer len s = reschedule s3"
          "kinv s3 (Q(SenderQueue r := t # Q (SenderQueue r)))"
          "strip s3 = upd_tcb t (parked kf regs) (upd_tcb t
            (\<lambda>c. c\<lparr>thread_state := WAIT_FOR_RECV, wait_tid := r\<rparr>) (cpu_drop t (strip s)))"
        using park_current [where wq = SenderQueue and st = WAIT_FOR_RECV, OF k cur q it(1) l]
          send_message_blocks [OF 4(1) r 4(2-4) False] by metis
      have "kok s3" using kokI [OF ok s3(2)] strip_env [OF s3(3)] by simp
      then show ?thesis using reschedule_kok [where 'a = int] s3(1) f by simp
    qed
  qed
qed

lemma receive_message_kok:
  assumes ok: "kok s" and cur: "thread_get_current s = Some r" and t: "is_thread t"
    and f: "final (receive_message r t flags buffer len s) = Some s'"
  shows "kok s'"
proof -
  obtain Q where k: "kinv s Q" using ok by (auto simp: kok_def)
  note r = kinv_current(2) [OF k cur]
  have it: "in_table r" "r \<noteq> NULL_TID" "in_table t" "t \<noteq> NULL_TID" using r t by auto
  let ?km = "IS_FLAG_SET flags MSG_KERNEL"
  note unf = receive_message_def Let_def get_tid_def kbind_def kret_def rd_def deref_def
  consider "r = t \<or> (len > 0 \<and> buffer = 0)"
    | "t \<noteq> r" "\<not> (len > 0 \<and> buffer = 0)" "receive_ready ?km r (tcb_table s t)"
    | "t \<noteq> r" "\<not> (len > 0 \<and> buffer = 0)" "\<not> receive_ready ?km r (tcb_table s t)"
      "IS_FLAG_SET flags MSG_NOBLOCK"
    | "t \<noteq> r" "\<not> (len > 0 \<and> buffer = 0)" "\<not> receive_ready ?km r (tcb_table s t)"
      "\<not> IS_FLAG_SET flags MSG_NOBLOCK" by blast
  then show ?thesis
  proof cases
    case 1
    then show ?thesis using receive_message_refused(1,2) [OF r] f ok by auto
  next
    case 2
    then have "thread_state (tcb_table s t) = WAIT_FOR_RECV" by (simp add: receive_ready_def)
    then show ?thesis
      using receive_message_ready [OF 2(1) it(4,3) 2(2,3)] f accept_kok [OF ok r t 2(1)] by simp
  next
    case 3
    then show ?thesis using receive_message_refused(3) [OF r t 3] f ok by simp
  next
    case 4
    show ?thesis
    proof (cases "thread_state (tcb_table s t) \<in> {INACTIVE, SLEEPING}")
      case True
      then have "s' = s"
        using f it 4 thread_remove_from_list_fail [OF t True] by (auto simp: unf error_codes)
      then show ?thesis using ok by simp
    next
      case False
      obtain s3 kf regs where s3: "receive_message r t flags buffer len s = reschedule s3"
          "kinv s3 (moved t (ReceiverQueue r) Q)"
          "strip s3 = upd_tcb r (parked kf regs) (upd_tcb t
            (\<lambda>c. c\<lparr>thread_state := WAIT_FOR_SEND, wait_tid := r\<rparr>) (detached t (strip s)))"
        using receive_message_parks_sender [OF k r t 4(1,2) False 4(3,4)] by metis
      have "kok s3" using kokI [OF ok s3(2)] strip_env [OF s3(3)] by simp
      then show ?thesis using reschedule_kok [where 'a = int] s3(1) f by simp
    qed
  qed
qed

lemma handle_sys_sleep_kok:
  assumes ok: "kok s" and cur: "thread_get_current s = Some t"
    and f: "final (handle_sys_sleep args s) = Some s'"
  shows "kok s'"
proof -
  obtain Q where k: "kinv s Q" using ok by (auto simp: kok_def)
  note t = kinv_current(2) [OF k cur] and n = current_processor [OF ok]
  consider "arg1 args = 0" | "arg1 args = SL_INF_DURATION" "arg1 args \<noteq> 0"
    | "arg1 args \<noteq> SL_INF_DURATION" "arg1 args \<noteq> 0" by blast
  then show ?thesis
  proof cases
    case 1
    then obtain t1 s1 where s1: "schedule processor_get_current s = Ret t1 s1"
        "final (if Some t1 \<noteq> Some t then thread_switch_context t1 True s1
                else Ret ESYS_FAIL s1) = Some s'"
      using f cur schedule_final [OF _ ok n]
      by (cases "schedule processor_get_current s")
        (auto simp: handle_sys_sleep_def kbind_def kget_def kret_def split: if_splits)
    note S = schedule_kok [OF ok n s1(1)]
    show ?thesis
      using s1(2) S(1) switch_context_kok [where 'a = int, OF S] by (auto split: if_splits)
  next
    case 2
    obtain s1 where "thread_pause t s = Ret E_OK s1"
      using thread_pause_kinv [OF k t] kinv_current(3) [OF k cur] by auto
    moreover from this have "kok s1" using thread_pause_kok [OF ok t] by simp
    ultimately show ?thesis
      using 2 f cur reschedule_kok [where 'a = int, of s1]
      by (auto simp: handle_sys_sleep_def kbind_def kget_def deref_def pause_code_def)
  next
    case 3
    then have "s' = s"
      using f cur by (simp add: handle_sys_sleep_def kbind_def kget_def thread_sleep_def kret_def
          pause_code_def error_codes)
    then show ?thesis using ok by simp
  qed
qed

text \<open>Interrupts.\<close>

lemma irq_register_kok:
  assumes ok: "kok s" and t: "is_thread t" and f: "final (irq_register t irq s) = Some s'"
  shows "kok s'"
proof (cases "irq < 24 \<and> irq_handlers s (unat irq) = None")
  case True
  obtain Q where k: "kinv s Q" using ok by (auto simp: kok_def)
  have it: "in_table t" using t by auto
  have s': "s' = upd_tcb t (enabled irq) (set_irq_handler (unat irq) (thread_get_current s) s)"
    using True f irq_register_eq [OF it, of irq s] by simp
  have "kinv s' Q" unfolding s' by (rule kinv_upd_keeps) (simp_all add: k)
  then show ?thesis
    using ok kinv_current(2) [OF k] unfolding s'
    by (auto simp: kok_def set_irq_handler_def)
next
  case False
  then have "s' = s" using f by (auto simp: irq_register_def kexec)
  then show ?thesis using ok by simp
qed

lemma irq_unregister_kok:
  assumes ok: "kok s" and t: "is_thread t" and f: "final (irq_unregister t irq s) = Some s'"
  shows "kok s'"
proof (cases "irq < 24")
  case True
  obtain Q where k: "kinv s Q" using ok by (auto simp: kok_def)
  have it: "in_table t" using t by auto
  have s': "s' = upd_tcb t (disabled irq) (set_irq_handler (unat irq) None s)"
    using True f irq_unregister_eq [OF it, of irq s] by simp
  have "kinv s' Q" unfolding s' by (rule kinv_upd_keeps) (simp_all add: k)
  then show ?thesis using ok unfolding s' by (auto simp: kok_def set_irq_handler_def split: if_splits)
next
  case False
  then show ?thesis using f ok irq_out_of_range(2) [OF False] by simp
qed

lemma kok_user_regs [simp]: "kok (s\<lparr>user_regs := r\<rparr>) = kok s"
proof -
  have "kinv (s\<lparr>user_regs := r\<rparr>) Q = kinv s Q" for Q by (rule kinv_cong) simp_all
  then show ?thesis by (simp add: kok_def)
qed

lemma thread_wakeup_switch:
  assumes "kinv s Q" and "is_thread t" shows "thread_wakeup t s \<noteq> Switch s'"
  using thread_wakeup_kinv [OF assms] thread_wakeup_noop [OF assms(2), of s]
  by (cases "thread_state (tcb_table s t)") auto

lemma handle_irq_kok:
  assumes ok: "kok s" and f: "final (handle_irq frame s) = Some s'"
  shows "kok s'"
proof (cases "irq_handlers s 0")
  case None
  then show ?thesis using ok f by (auto simp: handle_irq_def Let_def kexec)
next
  case (Some t)
  then have t: "is_thread t" using ok by (auto simp: kok_def)
  then have it: "in_table t" by auto
  obtain Q where k: "kinv s Q" using ok by (auto simp: kok_def)
  show ?thesis
  proof (cases "push_bit 0 1 AND event_mask (tcb_table s t) = 0")
    case True
    then show ?thesis using Some it ok f by (auto simp: handle_irq_def Let_def kexec)
  next
    case False
    let ?s = "upd_tcb t (\<lambda>c. c\<lparr>pending_events := pending_events c OR push_bit 0 1\<rparr>) s"
    have k2: "kinv ?s Q" using k by (rule kinv_upd_keeps) (simp add: keeps_sched_def keeps_links_def)
    then have k1: "kok ?s" by (rule kokI [OF ok]) simp_all
    have "\<exists>s1. final (thread_wakeup t ?s) = Some s1 \<and> s' = s1\<lparr>user_regs := frame\<rparr>"
      using f Some it False thread_wakeup_switch [OF k2 t]
      by (cases "thread_wakeup t ?s")
        (auto simp: handle_irq_def Let_def kbind_def kthen_def kget_def rd_def kwhen_def wr_def
          kskip_def kmod_def RESTORE_STATE_def)
    then show ?thesis using thread_wakeup_kok [OF k1 t] by auto
  qed
qed

section \<open>Reachable states\<close>

lemma kstep_kok: "kstep s s' \<Longrightarrow> kok s \<Longrightarrow> kok s'"
proof (induction rule: kstep.induct)
  case (schedule pid s s')
  then show ?case using schedule_final schedule_kok(1) by blast
qed (blast intro: thread_start_kok thread_pause_kok thread_wakeup_kok send_message_kok
    receive_message_kok handle_sys_sleep_kok irq_register_kok irq_unregister_kok handle_irq_kok)+

lemma reachable_kok: "kstep\<^sup>*\<^sup>* s s' \<Longrightarrow> kok s \<Longrightarrow> kok s'"
  by (induction rule: rtranclp_induct) (auto intro: kstep_kok)

end
