(* ===== verification/Example_State.thy ===== *)
theory Example_State
  imports Syscall
begin

text \<open>
  A small running system, on which the statements of the development are instantiated: thread
  1 on processor 0, threads 2 and 3 ready at normal priority, 4 paused, 5 waiting for a message
  from 1 with a buffer of two bytes at \<^verbatim>\<open>0x8000\<close>, 6 waiting to send one byte at \<^verbatim>\<open>0x9000\<close> to 1,
  7 a zombie. All threads share one address space, translated one to one.
\<close>

definition ex_tcb :: "tid \<Rightarrow> tcb" where
  "ex_tcb t =
     (let c = zero_tcb\<lparr>root_pmap := 0x1000, priority := NORMAL_PRIORITY\<rparr> in
      if t = 1 then c\<lparr>thread_state := RUNNING,
        sender_wait_queue := \<lparr>head_tid = 6, tail_tid = 6\<rparr>,
        receiver_wait_queue := \<lparr>head_tid = 5, tail_tid = 5\<rparr>\<rparr>
      else if t = 2 then c\<lparr>thread_state := READY, prev_tid := 3\<rparr>
      else if t = 3 then c\<lparr>thread_state := READY, next_tid := 2\<rparr>
      else if t = 4 then c\<lparr>thread_state := PAUSED\<rparr>
      else if t = 5 then upd_regs (\<lambda>r. r\<lparr>ebx := 0x8000, edi := 2\<rparr>)
        (c\<lparr>thread_state := WAIT_FOR_SEND, wait_tid := 1\<rparr>)
      else if t = 6 then upd_regs (\<lambda>r. r\<lparr>ebx := 0x9000, edi := 1\<rparr>)
        (c\<lparr>thread_state := WAIT_FOR_RECV, wait_tid := 1\<rparr>)
      else if t = 7 then c\<lparr>thread_state := ZOMBIE\<rparr>
      else zero_tcb)"

definition ex_Q :: queues where
  "ex_Q r = (case r of
       RunQueue p \<Rightarrow> if p = 2 then [3, 2] else []
     | PausedList \<Rightarrow> [4]
     | ZombieList \<Rightarrow> [7]
     | SenderQueue t \<Rightarrow> if t = 1 then [6] else []
     | ReceiverQueue t \<Rightarrow> if t = 1 then [5] else []
     | LinkFields t \<Rightarrow> [])"

definition ex_state :: kstate where
  "ex_state = \<lparr>tcb_table = ex_tcb, tcb_table_lock = False, last_tid = 7,
     run_queues = (\<lambda>p. if p = 2 then \<lparr>head_tid = 3, tail_tid = 2\<rparr> else null_list),
     paused_list = \<lparr>head_tid = 4, tail_tid = 4\<rparr>, zombie_list = \<lparr>head_tid = 7, tail_tid = 7\<rparr>,
     processors = (\<lambda>p. \<lparr>is_online = True, acpi_uid = 0, lapic_id = 0,
       running_thread = if p = 0 then Some 1 else None\<rparr>),
     num_processors = 1, irq_handlers = (\<lambda>_. None), init_server_thread = Some 2,
     user_regs = zero_exec_state, tss_esp0 = 0, kernel_stack_top = 0xFF800000,
     local_var = 0xFF7FF000, fpu = [], fx_mem = (\<lambda>_. []), phys = (\<lambda>_. 0), cr0 = 0, cr2 = 0,
     cr3 = 0x1000, cr4 = 0, klower_mem_ptab = (\<lambda>_. 0), mmu = (\<lambda>_ _ a. Some a)\<rparr>"

text \<open>A request to map one page, with the level \<open>l\<close>, and a directory whose first entry is in use.\<close>

definition ex_pm :: "32 word \<Rightarrow> paddr \<Rightarrow> 8 word" where
  "ex_pm l p = (if p = 0x4004 then 1 else if p = 0x4009 then 0x20 else if p = 0x400D then 0x60
     else if p = 0x4010 then ucast l else if p = 0x6000 then 1 else if p = 0x6009 then 0x20
     else if p = 0x2000 then 7 else 0)"

lemma ex_fields [simp]:
  "tcb_table ex_state = ex_tcb" "tcb_table_lock ex_state = False" "last_tid ex_state = 7"
  "num_processors ex_state = 1" "irq_handlers ex_state = (\<lambda>_. None)"
  "init_server_thread ex_state = Some 2" "local_var ex_state = 0xFF7FF000"
  "phys ex_state = (\<lambda>_. 0)" "cr3 ex_state = 0x1000" "mmu ex_state = (\<lambda>_ _ a. Some a)"
  "fpu ex_state = []" "fx_mem ex_state = (\<lambda>_. [])" "klower_mem_ptab ex_state = (\<lambda>_. 0)"
  "running_thread (processors ex_state p) = (if p = 0 then Some 1 else None)"
  by (simp_all add: ex_state_def)

lemma ex_current [simp]: "thread_get_current ex_state = Some 1"
  by (simp add: thread_get_current_def processor_get_current_def)

lemma ex_is_thread [simp]:
  "is_thread 1" "is_thread 2" "is_thread 3" "is_thread 4" "is_thread 5" "is_thread 6" "is_thread 7"
  "is_thread 8"
  by (simp_all add: is_thread_def in_table_def table_sizes)

lemma ex_in_table [simp]:
  "in_table 1" "in_table 2" "in_table 3" "in_table 4" "in_table 5" "in_table 6" "in_table 7"
  "in_table 8"
  by (simp_all add: in_table_def table_sizes)

lemma ex_tcb_state:
  "thread_state (ex_tcb t) = (if t = 1 then RUNNING else if t = 2 \<or> t = 3 then READY
     else if t = 4 then PAUSED else if t = 5 then WAIT_FOR_SEND else if t = 6 then WAIT_FOR_RECV
     else if t = 7 then ZOMBIE else INACTIVE)"
  "wait_tid (ex_tcb t) = (if t = 5 \<or> t = 6 then 1 else 0)"
  "priority (ex_tcb t) = (if t \<in> {1, 2, 3, 4, 5, 6, 7} then NORMAL_PRIORITY else 0)"
  "prev_tid (ex_tcb t) = (if t = 2 then 3 else 0)" "next_tid (ex_tcb t) = (if t = 3 then 2 else 0)"
  "sender_wait_queue (ex_tcb t) = (if t = 1 then \<lparr>head_tid = 6, tail_tid = 6\<rparr> else null_list)"
  "receiver_wait_queue (ex_tcb t) = (if t = 1 then \<lparr>head_tid = 5, tail_tid = 5\<rparr> else null_list)"
  "wait_for_kernel_msg (ex_tcb t) = False" "event_mask (ex_tcb t) = 0" "pending_events (ex_tcb t) = 0"
  "ex_handler (ex_tcb t) = 0" "pager (ex_tcb t) = 0" "fxsave_state (ex_tcb t) = 0"
  "root_pmap (ex_tcb t) = (if t \<in> {1, 2, 3, 4, 5, 6, 7} then 0x1000 else 0)"
  "ebx (user_exec_state (ex_tcb t)) = (if t = 5 then 0x8000 else if t = 6 then 0x9000 else 0)"
  "edi (user_exec_state (ex_tcb t)) = (if t = 5 then 2 else if t = 6 then 1 else 0)"
  by (simp_all add: ex_tcb_def Let_def zero_tcb_def upd_regs_def zero_exec_state_def)

lemma ex_members: "members ex_Q = {2, 3, 4, 5, 6, 7}"
proof -
  have "set (ex_Q r) \<subseteq> {2, 3, 4, 5, 6, 7}" for r by (cases r) (auto simp: ex_Q_def)
  moreover have "{2, 3} = set (ex_Q (RunQueue 2))" "{4} = set (ex_Q PausedList)"
    "{5} = set (ex_Q (ReceiverQueue 1))" "{6} = set (ex_Q (SenderQueue 1))"
    "{7} = set (ex_Q ZombieList)"
    by (auto simp: ex_Q_def)
  ultimately show ?thesis unfolding members_def by blast
qed

lemma ex_loc: "t \<in> set (ex_Q r) \<longleftrightarrow> loc (ex_tcb t) = Some r"
  by (cases r) (auto simp: ex_Q_def loc_def ex_tcb_state NORMAL_PRIORITY_def)

lemma ex_repr: "repr ex_state ex_Q"
  unfolding repr_def
proof (intro conjI allI impI)
  fix r assume "queue_ref r"
  then show "dll (tcb_table ex_state) (list_at r ex_state) (ex_Q r)"
    by (cases r) (auto simp: ex_Q_def dll_def ex_tcb_state null_list_def ex_state_def)
next
  fix r assume "\<not> queue_ref r"
  then show "ex_Q r = []" by (cases r) (auto simp: ex_Q_def table_sizes in_table_def)
next
  fix r r' :: list_ref assume "r \<noteq> r'"
  then show "set (ex_Q r) \<inter> set (ex_Q r') = {}" by (auto simp: ex_loc)
next
  fix t assume "t \<notin> members ex_Q"
  then show "prev_tid (tcb_table ex_state t) = NULL_TID" "next_tid (tcb_table ex_state t) = NULL_TID"
    by (auto simp: ex_members ex_tcb_state)
qed

lemma ex_kinv: "kinv ex_state ex_Q"
proof -
  have oc: "on_cpu ex_state t \<longleftrightarrow> t = 1" for t by (auto simp: on_cpu_def)
  have "wf_cpus ex_state" by (auto simp: wf_cpus_def oc table_sizes)
  moreover have "wf_thread ex_state ex_Q t" for t
    by (auto simp: wf_thread_def Let_def ex_loc oc ex_tcb_state table_sizes NORMAL_PRIORITY_def)
  ultimately show ?thesis by (simp add: kinv_ex_def ex_repr)
qed

text \<open>Memory and the IRQ table are not part of the invariant.\<close>

definition ex_mem :: "(paddr \<Rightarrow> 8 word) \<Rightarrow> kstate" where
  "ex_mem m = ex_state\<lparr>phys := m\<rparr>"

lemma ex_mem_fields [simp]:
  "tcb_table (ex_mem m) = ex_tcb" "phys (ex_mem m) = m" "cr3 (ex_mem m) = 0x1000"
  "thread_get_current (ex_mem m) = Some 1" "mmu (ex_mem m) = (\<lambda>_ _ a. Some a)"
  "irq_handlers (ex_mem m) = (\<lambda>_. None)" "init_server_thread (ex_mem m) = Some 2"
  by (simp_all add: ex_mem_def thread_get_current_def processor_get_current_def)

lemma ex_mem_kinv: "kinv (ex_mem m) ex_Q"
proof -
  have "kinv (ex_mem m) ex_Q = kinv ex_state ex_Q" by (rule kinv_cong) (simp_all add: ex_mem_def)
  then show ?thesis by (simp add: ex_kinv)
qed

lemma ex_ld8: "\<not> in_window a \<Longrightarrow> ld8 a (ex_mem m) = Ret (m a) (ex_mem m)"
  by (simp add: ld8_def translate_def)

lemma ex_pick: "pick ex_Q lo NUM_PRIORITIES = (if lo \<le> 2 then Some 2 else None)"
  by (simp add: table_sizes eval_nat_numeral ex_Q_def)

lemma ex_ld32:
  assumes "\<not> in_window a" "\<not> in_window (a + 1)" "\<not> in_window (a + 2)" "\<not> in_window (a + 3)"
  shows "ld32 a (ex_mem m) = Ret (phys32 m a) (ex_mem m)"
  using assms by (simp add: ld32_def kbind_def kret_def ex_ld8 phys32_def)

lemma ex_low:
  assumes "a < 0xFF000000"
  shows "\<not> in_window a"
  using assms by (simp add: in_window_def KERNEL_TEMP_START_def word_less_nat_alt word_le_nat_alt)

end
