(* ===== verification/Bit_Array.thy ===== *)
theory Bit_Array
  imports Prelude "HOL-Library.Monad_Syntax"
begin

text \<open>
  The bit arrays of the user-space library (\<^verbatim>\<open>lib/librust/src/types.rs\<close>, module \<^verbatim>\<open>bit_array\<close>) and
  the alignment functions of \<^verbatim>\<open>align.rs\<close>: a vector of 32-bit words with a number of bits, its
  word-wise operations and its iterators, compared with the set of indices whose bit is set. An
  index outside a vector panics; a panic is the value \<open>None\<close>. Indices are natural numbers: no
  index exceeds the number of bits by more than one word.
\<close>

section \<open>Alignment\<close>

definition is_aligned :: "nat \<Rightarrow> nat \<Rightarrow> bool" where
  "is_aligned x boundary \<longleftrightarrow> x mod boundary = 0"

definition align_next :: "nat \<Rightarrow> nat \<Rightarrow> nat" where
  "align_next x boundary = x + (boundary - x mod boundary)"

definition align :: "nat \<Rightarrow> nat \<Rightarrow> nat" where
  "align x boundary = (if \<not> is_aligned x boundary then align_next x boundary else x)"

definition align_trunc :: "nat \<Rightarrow> nat \<Rightarrow> nat" where
  "align_trunc x boundary = (if \<not> is_aligned x boundary then x - x mod boundary else x)"

section \<open>Vectors and words\<close>

definition vec_get :: "'a list \<Rightarrow> nat \<Rightarrow> 'a option" where
  "vec_get xs i = (if i < length xs then Some (xs ! i) else None)"

definition vec_set :: "'a list \<Rightarrow> nat \<Rightarrow> 'a \<Rightarrow> 'a list option" where
  "vec_set xs i v = (if i < length xs then Some (xs[i := v]) else None)"

definition word_ones :: "32 word \<Rightarrow> nat" where
  "word_ones w = length (filter (bit w) [0..<32])"

definition trailing_zeros :: "32 word \<Rightarrow> nat" where
  "trailing_zeros w = length (takeWhile (\<lambda>i. \<not> bit w i) [0..<32])"

definition trailing_ones :: "32 word \<Rightarrow> nat" where
  "trailing_ones w = trailing_zeros (NOT w)"

section \<open>Bit arrays\<close>

record BitArray =
  ba_data :: "32 word list"
  num_bits :: nat

definition bits_per_word :: nat where "bits_per_word = 32"

definition word_count :: "nat \<Rightarrow> nat" where
  "word_count n = n div 32 + (if n mod 32 \<noteq> 0 then 1 else 0)"

definition ba_new :: "nat \<Rightarrow> bool \<Rightarrow> BitArray" where
  "ba_new n dflt = \<lparr>ba_data = replicate (word_count n) (if dflt then - 1 else 0), num_bits = n\<rparr>"

definition set_to :: "BitArray \<Rightarrow> nat \<Rightarrow> bool \<Rightarrow> BitArray option" where
  "set_to b n v =
     (if n < num_bits b then do {
        w \<leftarrow> vec_get (ba_data b) (n div 32);
        d \<leftarrow> vec_set (ba_data b) (n div 32)
          (if v then w OR push_bit (n mod 32) 1 else w AND NOT (push_bit (n mod 32) 1));
        Some (b\<lparr>ba_data := d\<rparr>)
      } else Some b)"

definition ba_set :: "BitArray \<Rightarrow> nat \<Rightarrow> BitArray option" where
  "ba_set b n = set_to b n True"

definition ba_clear :: "BitArray \<Rightarrow> nat \<Rightarrow> BitArray option" where
  "ba_clear b n = set_to b n False"

definition is_set :: "BitArray \<Rightarrow> nat \<Rightarrow> bool option" where
  "is_set b n =
     (if n < num_bits b then do {
        w \<leftarrow> vec_get (ba_data b) (n div 32);
        Some (w AND push_bit (n mod 32) 1 \<noteq> 0)
      } else Some False)"

definition is_cleared :: "BitArray \<Rightarrow> nat \<Rightarrow> bool option" where
  "is_cleared b n = map_option Not (is_set b n)"

definition ba_toggle :: "BitArray \<Rightarrow> nat \<Rightarrow> BitArray option" where
  "ba_toggle b n = do { v \<leftarrow> is_set b n; set_to b n (\<not> v) }"

text \<open>\<^verbatim>\<open>for_each\<close> over \<open>n\<close> bits from \<open>s\<close> on.\<close>

primrec set_range :: "BitArray \<Rightarrow> nat \<Rightarrow> bool \<Rightarrow> nat \<Rightarrow> BitArray option" where
  "set_range b s v 0 = Some b"
| "set_range b s v (Suc n) = do { b \<leftarrow> set_to b s v; set_range b (Suc s) v n }"

text \<open>\<^verbatim>\<open>(s..e).step_by(32)\<close>, a word at a time.\<close>

function fill_words :: "BitArray \<Rightarrow> nat \<Rightarrow> nat \<Rightarrow> bool \<Rightarrow> BitArray option" where
  "fill_words b s e v =
     (if s < e then do {
        d \<leftarrow> vec_set (ba_data b) (s div 32) (if v then - 1 else 0);
        fill_words (b\<lparr>ba_data := d\<rparr>) (s + 32) e v
      } else Some b)"
  by pat_completeness auto
termination by (relation "measure (\<lambda>(b, s, e, v). e - s)") auto

definition set_bits_to :: "BitArray \<Rightarrow> nat \<Rightarrow> nat \<Rightarrow> bool \<Rightarrow> BitArray option" where
  "set_bits_to b s e v =
     (let ws = min (align s 32) e; we = max (align_trunc e 32) s in do {
        b \<leftarrow> set_range b s v (ws - s);
        b \<leftarrow> fill_words b ws we v;
        set_range b we v (e - we)
      })"

definition set_bits :: "BitArray \<Rightarrow> nat \<Rightarrow> nat \<Rightarrow> BitArray option" where
  "set_bits b s e = set_bits_to b s e True"

definition clear_bits :: "BitArray \<Rightarrow> nat \<Rightarrow> nat \<Rightarrow> BitArray option" where
  "clear_bits b s e = set_bits_to b s e False"

definition is_word_set :: "BitArray \<Rightarrow> nat \<Rightarrow> bool option" where
  "is_word_set b n =
     (if n < num_bits b then do {
        w \<leftarrow> vec_get (ba_data b) (n div 32);
        Some (if n div 32 = num_bits b div 32 then word_ones w = num_bits b mod 32 else w = - 1)
      } else Some False)"

definition is_word_cleared :: "BitArray \<Rightarrow> nat \<Rightarrow> bool option" where
  "is_word_cleared b n =
     (if n < num_bits b then do { w \<leftarrow> vec_get (ba_data b) (n div 32); Some (w = 0) }
      else Some False)"

fun first_from :: "32 word \<Rightarrow> (32 word \<Rightarrow> nat) \<Rightarrow> 32 word list \<Rightarrow> nat \<Rightarrow> nat option" where
  "first_from skip pos [] index = None"
| "first_from skip pos (w # ws) index =
     (if w \<noteq> skip then Some (index + pos w) else first_from skip pos ws (index + 32))"

definition first_set :: "BitArray \<Rightarrow> nat option" where
  "first_set b = first_from 0 trailing_zeros (ba_data b) 0"

definition first_cleared :: "BitArray \<Rightarrow> nat option" where
  "first_cleared b = first_from (- 1) trailing_ones (ba_data b) 0"

definition count_ones :: "BitArray \<Rightarrow> nat option" where
  "count_ones b =
     (let sum = sum_list (map word_ones (take (num_bits b div 32) (ba_data b))) in
      if num_bits b mod 32 \<noteq> 0 then do {
        w \<leftarrow> vec_get (ba_data b) (num_bits b div 32);
        Some (sum + word_ones (w AND (push_bit (num_bits b mod 32) 1 - 1)))
      } else Some sum)"

definition count_zeros :: "BitArray \<Rightarrow> nat option" where
  "count_zeros b =
     (let sum = sum_list (map (\<lambda>w. word_ones (NOT w)) (take (num_bits b div 32) (ba_data b))) in
      if num_bits b mod 32 \<noteq> 0 then do {
        w \<leftarrow> vec_get (ba_data b) (num_bits b div 32);
        Some (sum + word_ones (NOT w AND (push_bit (num_bits b mod 32) 1 - 1)))
      } else Some sum)"

section \<open>Iterators\<close>

datatype BitFilter = Zero | One | Any

record BitIterator =
  it_array :: BitArray
  it_index :: nat
  it_filter :: BitFilter

definition start_from :: "nat \<Rightarrow> BitArray \<Rightarrow> BitFilter \<Rightarrow> BitIterator" where
  "start_from index b f = \<lparr>it_array = b, it_index = min index (num_bits b), it_filter = f\<rparr>"

text \<open>The two loops of \<^verbatim>\<open>next\<close>: over whole words, then over bits.\<close>

function skip_words :: "(BitArray \<Rightarrow> nat \<Rightarrow> bool option) \<Rightarrow> BitArray \<Rightarrow> nat \<Rightarrow> nat option" where
  "skip_words test b i =
     (if num_bits b - i \<ge> 32 then do {
        t \<leftarrow> test b i;
        if t then skip_words test b (i + (32 - i mod 32)) else Some i
      } else Some i)"
  by pat_completeness auto
termination by (relation "measure (\<lambda>(test, b, i). num_bits b - i)") auto

function skip_bits :: "(BitArray \<Rightarrow> nat \<Rightarrow> bool option) \<Rightarrow> BitArray \<Rightarrow> nat \<Rightarrow> nat option" where
  "skip_bits test b i =
     (if i < num_bits b then do {
        t \<leftarrow> test b i;
        if t then skip_bits test b (i + 1) else Some i
      } else Some i)"
  by pat_completeness auto
termination by (relation "measure (\<lambda>(test, b, i). num_bits b - i)") auto

declare fill_words.simps [simp del] skip_words.simps [simp del] skip_bits.simps [simp del]

text \<open>The item and the index the iterator continues from.\<close>

definition it_next :: "BitIterator \<Rightarrow> (nat option \<times> BitIterator) option" where
  "it_next it =
     (let b = it_array it; i = it_index it in
      if i \<ge> num_bits b then Some (None, it)
      else if it_filter it = Any then Some (Some i, it\<lparr>it_index := i + 1\<rparr>)
      else do {
        i \<leftarrow> skip_words (if it_filter it = One then is_word_cleared else is_word_set) b i;
        i \<leftarrow> skip_bits (if it_filter it = One then is_cleared else is_set) b i;
        if i \<ge> num_bits b then Some (None, it\<lparr>it_index := i\<rparr>)
        else Some (Some i, it\<lparr>it_index := i + 1\<rparr>)
      })"

section \<open>Meaning\<close>

definition wf_ba :: "BitArray \<Rightarrow> bool" where
  "wf_ba b \<longleftrightarrow> length (ba_data b) = word_count (num_bits b)"

definition bits :: "BitArray \<Rightarrow> nat set" where
  "bits b = {n. n < num_bits b \<and> bit (ba_data b ! (n div 32)) (n mod 32)}"

lemma word_index: "wf_ba b \<Longrightarrow> n < num_bits b \<Longrightarrow> n div 32 < length (ba_data b)"
proof -
  assume "wf_ba b" and "n < num_bits b"
  moreover have "n div 32 < num_bits b div 32 + (if num_bits b mod 32 \<noteq> 0 then 1 else 0)"
    using \<open>n < num_bits b\<close> by auto
  ultimately show ?thesis by (simp add: wf_ba_def word_count_def)
qed

lemma is_set_eq: "wf_ba b \<Longrightarrow> is_set b n = Some (n \<in> bits b)"
  by (simp add: is_set_def vec_get_def bits_def and_exp_eq_0_iff_not_bit word_index)

lemma is_cleared_eq: "wf_ba b \<Longrightarrow> is_cleared b n = Some (n \<notin> bits b)"
  by (simp add: is_cleared_def is_set_eq)

section \<open>Writing\<close>

text \<open>\<open>put b X v b'\<close>: the bits of \<open>X\<close> have been set to \<open>v\<close>, as far as the array has them.\<close>

definition put :: "BitArray \<Rightarrow> nat set \<Rightarrow> bool \<Rightarrow> BitArray \<Rightarrow> bool" where
  "put b X v b' \<longleftrightarrow> wf_ba b' \<and> num_bits b' = num_bits b \<and>
     bits b' = (if v then bits b \<union> (X \<inter> {..<num_bits b}) else bits b - X)"

lemma put_empty: "wf_ba b \<Longrightarrow> put b {} v b"
  by (simp add: put_def)

lemma put_trans: "put b X v b1 \<Longrightarrow> put b1 Y v b2 \<Longrightarrow> put b (X \<union> Y) v b2"
  by (auto simp: put_def split: if_splits)

lemma put_wf: "put b X v b' \<Longrightarrow> wf_ba b'" "put b X v b' \<Longrightarrow> num_bits b' = num_bits b"
  by (auto simp: put_def)

lemma put_word:
  assumes "wf_ba b" and "i < length (ba_data b)"
    and "\<And>k. k < 32 \<Longrightarrow> bit w k = (if 32 * i + k \<in> X then v else bit (ba_data b ! i) k)"
    and "X \<subseteq> {32 * i..<32 * i + 32}"
  shows "put b X v (b\<lparr>ba_data := (ba_data b)[i := w]\<rparr>)"
proof -
  have "n \<in> bits (b\<lparr>ba_data := (ba_data b)[i := w]\<rparr>) \<longleftrightarrow>
      n < num_bits b \<and> (if n \<in> X then v else n \<in> bits b)" for n
  proof (cases "n div 32 = i")
    case True
    have "32 * (n div 32) + n mod 32 = n" by simp
    then have "bit w (n mod 32) = (if n \<in> X then v else bit (ba_data b ! i) (n mod 32))"
      using assms(3) [of "n mod 32"] True by simp
    then show ?thesis using assms(2) by (simp add: bits_def True)
  next
    case False
    then have "n \<notin> {32 * i..<32 * i + 32}" by auto
    then have "n \<notin> X" using assms(4) by blast
    then show ?thesis using False by (auto simp: bits_def)
  qed
  then show ?thesis using assms(1) by (auto simp: put_def wf_ba_def bits_def)
qed

lemma set_to_put:
  assumes "wf_ba b"
  shows "\<exists>b'. set_to b n v = Some b' \<and> put b {n} v b'"
proof (cases "n < num_bits b")
  case True
  define w where "w = ba_data b ! (n div 32)"
  define w' where "w' = (if v then w OR push_bit (n mod 32) 1 else w AND NOT (push_bit (n mod 32) 1))"
  have "bit w' k = (if 32 * (n div 32) + k \<in> {n} then v else bit w k)" if "k < 32" for k
  proof -
    have "32 * (n div 32) + k = n \<longleftrightarrow> k = n mod 32" by presburger
    then show ?thesis using that by (auto simp: w'_def bit_simps)
  qed
  then have "put b {n} v (b\<lparr>ba_data := (ba_data b)[n div 32 := w']\<rparr>)"
    unfolding w_def by (rule put_word [OF assms word_index [OF assms True]]) auto
  moreover have "set_to b n v = Some (b\<lparr>ba_data := (ba_data b)[n div 32 := w']\<rparr>)"
    using True word_index [OF assms True] by (simp add: set_to_def vec_get_def vec_set_def w'_def w_def)
  ultimately show ?thesis by blast
next
  case False
  then show ?thesis using assms by (auto simp: set_to_def put_def bits_def)
qed

lemma set_range_put:
  assumes "wf_ba b"
  shows "\<exists>b'. set_range b s v n = Some b' \<and> put b {s..<s + n} v b'"
  using assms
proof (induction n arbitrary: b s)
  case 0
  then show ?case by (simp add: put_empty)
next
  case (Suc n)
  obtain b1 where b1: "set_to b s v = Some b1" "put b {s} v b1" using set_to_put [OF Suc.prems] by blast
  obtain b2 where b2: "set_range b1 (Suc s) v n = Some b2" "put b1 {Suc s..<Suc s + n} v b2"
    using Suc.IH put_wf(1) [OF b1(2)] by blast
  have "{s} \<union> {Suc s..<Suc s + n} = {s..<s + Suc n}" by auto
  then show ?case using b1 b2 put_trans [OF b1(2) b2(2)] by simp
qed

lemma fill_words_put:
  assumes "wf_ba b" and "s < e \<Longrightarrow> s mod 32 = 0 \<and> e mod 32 = 0" and "e div 32 \<le> length (ba_data b)"
  shows "\<exists>b'. fill_words b s e v = Some b' \<and> put b {s..<e} v b'"
  using assms
proof (induction b s e v rule: fill_words.induct)
  case (1 b s e v)
  show ?case
  proof (cases "s < e")
    case True
    then have m: "s mod 32 = 0" "e mod 32 = 0" "s div 32 < length (ba_data b)"
      using "1.prems" by auto
    define b1 where "b1 = b\<lparr>ba_data := (ba_data b)[s div 32 := if v then - 1 else 0]\<rparr>"
    have p: "put b {s..<s + 32} v b1"
      unfolding b1_def by (rule put_word [OF "1.prems"(1) m(3)]) (use m(1) in auto)
    have l: "vec_set (ba_data b) (s div 32) (if v then - 1 else 0) =
        Some ((ba_data b)[s div 32 := if v then - 1 else 0])"
      using m(3) by (simp add: vec_set_def)
    have "\<exists>b'. fill_words b1 (s + 32) e v = Some b' \<and> put b1 {s + 32..<e} v b'"
      unfolding b1_def
      by (rule "1.IH" [OF True l])
        (use put_wf(1) [OF p] m "1.prems"(3) in \<open>auto simp: b1_def\<close>)
    then obtain b2 where b2: "fill_words b1 (s + 32) e v = Some b2" "put b1 {s + 32..<e} v b2"
      by blast
    have "s + 32 \<le> e" using True m(1,2) by presburger
    then have "{s..<s + 32} \<union> {s + 32..<e} = {s..<e}" by auto
    then show ?thesis
      using b2 put_trans [OF p b2(2)] True l by (subst fill_words.simps) (simp add: b1_def)
  next
    case False
    then show ?thesis using "1.prems"(1) by (subst fill_words.simps) (simp add: put_empty)
  qed
qed

lemma align_bounds: "x \<le> align x b" "align_trunc x b \<le> x"
  by (simp_all add: align_def align_next_def align_trunc_def)

lemma align_mod: "align x 32 mod 32 = 0" "align_trunc x 32 mod 32 = 0"
proof -
  have "(x + (32 - x mod 32)) mod 32 = 0" by presburger
  then show "align x 32 mod 32 = 0" by (simp add: align_def align_next_def is_aligned_def)
  show "align_trunc x 32 mod 32 = 0"
    by (simp add: align_trunc_def is_aligned_def minus_mod_eq_mult_div)
qed

text \<open>The word-wise loop is equivalent to setting the bits one by one.\<close>

lemma set_bits_to_put:
  assumes "wf_ba b" and "s \<le> e" and "e div 32 \<le> length (ba_data b)"
  shows "\<exists>b'. set_bits_to b s e v = Some b' \<and> put b {s..<e} v b'"
proof -
  define ws where "ws = min (align s 32) e"
  define we where "we = max (align_trunc e 32) s"
  have ws: "s \<le> ws" "ws \<le> e" "ws = e \<or> ws mod 32 = 0"
    using assms(2) align_bounds(1) [of s 32] align_mod(1) [of s] by (auto simp: ws_def min_def)
  have we: "s \<le> we" "we \<le> e" "we = s \<or> we mod 32 = 0"
    using assms(2) align_bounds(2) [of e 32] align_mod(2) [of e] by (auto simp: we_def max_def)
  obtain b1 where b1: "set_range b s v (ws - s) = Some b1" "put b {s..<ws} v b1"
    using set_range_put [OF assms(1), of s v "ws - s"] ws by auto
  have len: "length (ba_data b1) = length (ba_data b)"
    using b1(2) assms(1) by (auto simp: put_def wf_ba_def)
  have l: "we div 32 \<le> length (ba_data b1)"
    using div_le_mono [OF we(2), of 32] assms(3) len by simp
  have "ws < we \<Longrightarrow> ws mod 32 = 0 \<and> we mod 32 = 0" using ws we by auto
  from fill_words_put [OF put_wf(1) [OF b1(2)] this l, of v]
  obtain b2 where b2: "fill_words b1 ws we v = Some b2" "put b1 {ws..<we} v b2" by auto
  obtain b3 where b3: "set_range b2 we v (e - we) = Some b3" "put b2 {we..<e} v b3"
    using set_range_put [OF put_wf(1) [OF b2(2)], of we v "e - we"] we by auto
  have "{s..<ws} \<union> {ws..<we} \<union> {we..<e} = {s..<e}" using ws we by auto
  then have "put b {s..<e} v b3"
    using put_trans [OF put_trans [OF b1(2) b2(2)] b3(2)] by simp
  then show ?thesis
    using b1 b2 b3 by (simp add: set_bits_to_def ws_def [symmetric] we_def [symmetric] Let_def)
qed

section \<open>Searching\<close>

lemma all_bits_set: "w = - 1 \<longleftrightarrow> (\<forall>k<32. bit w k)" for w :: "32 word"
proof
  assume "\<forall>k<32. bit w k"
  then show "w = - 1" by (intro bit_word_eqI) simp
qed simp

lemma no_bit_set: "w = 0 \<longleftrightarrow> (\<forall>k<32. \<not> bit w k)" for w :: "32 word"
proof
  assume "\<forall>k<32. \<not> bit w k"
  then show "w = 0" by (intro bit_word_eqI) simp
qed simp

lemma whole_word:
  assumes "i + 32 \<le> num_bits b" and "n div 32 = i div 32"
  shows "n < num_bits b" and "i div 32 \<noteq> num_bits b div 32"
proof -
  have l: "i div 32 < num_bits b div 32" using div_le_mono [OF assms(1), of 32] by simp
  then show "i div 32 \<noteq> num_bits b div 32" by simp
  show "n < num_bits b" using l assms(2) by (metis div_le_mono not_less)
qed

lemma is_word_set_bits:
  assumes "wf_ba b" and "i + 32 \<le> num_bits b"
  shows "is_word_set b i = Some (\<forall>n. n div 32 = i div 32 \<longrightarrow> n \<in> bits b)"
proof -
  have "(\<forall>k<32. bit (ba_data b ! (i div 32)) k) \<longleftrightarrow> (\<forall>n. n div 32 = i div 32 \<longrightarrow> n \<in> bits b)"
  proof (intro iffI allI impI)
    fix n assume a: "\<forall>k<32. bit (ba_data b ! (i div 32)) k" and n: "n div 32 = i div 32"
    have "n mod 32 < 32" by simp
    then show "n \<in> bits b"
      using a whole_word(1) [OF assms(2) n] n unfolding bits_def by simp
  next
    fix k :: nat assume a: "\<forall>n. n div 32 = i div 32 \<longrightarrow> n \<in> bits b" and "k < 32"
    then have "(32 * (i div 32) + k) div 32 = i div 32" "(32 * (i div 32) + k) mod 32 = k" by simp_all
    then show "bit (ba_data b ! (i div 32)) k"
      using a [rule_format, of "32 * (i div 32) + k"] by (simp add: bits_def)
  qed
  then show ?thesis
    using whole_word [OF assms(2) refl] word_index [OF assms(1)]
    by (simp add: is_word_set_def vec_get_def all_bits_set)
qed

lemma is_word_cleared_bits:
  assumes "wf_ba b" and "i + 32 \<le> num_bits b"
  shows "is_word_cleared b i = Some (\<forall>n. n div 32 = i div 32 \<longrightarrow> n \<notin> bits b)"
proof -
  have "(\<forall>k<32. \<not> bit (ba_data b ! (i div 32)) k) \<longleftrightarrow> (\<forall>n. n div 32 = i div 32 \<longrightarrow> n \<notin> bits b)"
  proof (intro iffI allI impI)
    fix n assume "\<forall>k<32. \<not> bit (ba_data b ! (i div 32)) k" and "n div 32 = i div 32"
    then show "n \<notin> bits b" by (simp add: bits_def)
  next
    fix k :: nat assume a: "\<forall>n. n div 32 = i div 32 \<longrightarrow> n \<notin> bits b" and "k < 32"
    then have "(32 * (i div 32) + k) div 32 = i div 32" "(32 * (i div 32) + k) mod 32 = k" by simp_all
    then show "\<not> bit (ba_data b ! (i div 32)) k"
      using a [rule_format, of "32 * (i div 32) + k"]
        whole_word(1) [OF assms(2), of "32 * (i div 32) + k"] by (simp add: bits_def)
  qed
  then show ?thesis
    using whole_word(1) [OF assms(2) refl] word_index [OF assms(1)]
    by (simp add: is_word_cleared_def vec_get_def no_bit_set)
qed

lemma same_word:
  assumes "i \<le> n" and "n < i + (32 - i mod 32)"
  shows "n div 32 = i div (32 :: nat)"
proof -
  define q r where "q = i div 32" and "r = i mod 32"
  then have i: "i = 32 * q + r" "r < 32" by simp_all
  have "32 * q \<le> n" "n < 32 * q + 32" using assms i unfolding r_def [symmetric] by linarith+
  then have "n div 32 = q" by (intro div_nat_eqI) simp_all
  then show ?thesis by (simp add: q_def)
qed

text \<open>
  The search of \<^verbatim>\<open>next\<close> for the first index that is not to be skipped: what it needs of the two
  tests.
\<close>

locale bit_search =
  fixes test_word test_bit :: "BitArray \<Rightarrow> nat \<Rightarrow> bool option"
    and skip :: "BitArray \<Rightarrow> nat \<Rightarrow> bool"
  assumes word_test: "wf_ba b \<Longrightarrow> i + 32 \<le> num_bits b \<Longrightarrow>
      \<exists>t. test_word b i = Some t \<and> (t \<longrightarrow> (\<forall>n. n div 32 = i div 32 \<longrightarrow> skip b n))"
    and bit_test: "wf_ba b \<Longrightarrow> i < num_bits b \<Longrightarrow> test_bit b i = Some (skip b i)"
begin

lemma skip_words_sound:
  assumes "wf_ba b"
  shows "\<exists>j. skip_words test_word b i = Some j \<and> i \<le> j \<and> (\<forall>n. i \<le> n \<longrightarrow> n < j \<longrightarrow> skip b n)"
proof (induction "num_bits b - i" arbitrary: i rule: less_induct)
  case less
  show ?case
  proof (cases "32 \<le> num_bits b - i")
    case True
    then have "i + 32 \<le> num_bits b" by simp
    then obtain t where t: "test_word b i = Some t" "t \<longrightarrow> (\<forall>n. n div 32 = i div 32 \<longrightarrow> skip b n)"
      using word_test [OF assms] by blast
    show ?thesis
    proof (cases t)
      case True
      let ?k = "i + (32 - i mod 32)"
      have k: "i < ?k" by simp
      have "num_bits b - ?k < num_bits b - i" using \<open>32 \<le> num_bits b - i\<close> by simp
      from less [OF this] obtain j where j: "skip_words test_word b ?k = Some j" "?k \<le> j"
        "\<forall>n. ?k \<le> n \<longrightarrow> n < j \<longrightarrow> skip b n" by auto
      have "skip b n" if "i \<le> n" "n < j" for n
        using that j(3) t(2) True same_word [of i n] by (cases "n < ?k") auto
      then show ?thesis
        using j k t True \<open>32 \<le> num_bits b - i\<close> by (subst skip_words.simps) auto
    next
      case False
      then show ?thesis using t \<open>32 \<le> num_bits b - i\<close> by (subst skip_words.simps) auto
    qed
  next
    case False
    then show ?thesis by (subst skip_words.simps) auto
  qed
qed

lemma skip_bits_sound:
  assumes "wf_ba b"
  shows "\<exists>j. skip_bits test_bit b i = Some j \<and> i \<le> j \<and> (\<forall>n. i \<le> n \<longrightarrow> n < j \<longrightarrow> skip b n) \<and>
     (j < num_bits b \<longrightarrow> \<not> skip b j)"
proof (induction "num_bits b - i" arbitrary: i rule: less_induct)
  case less
  show ?case
  proof (cases "i < num_bits b \<and> skip b i")
    case True
    have "num_bits b - (i + 1) < num_bits b - i" using True by linarith
    from less [OF this] obtain j where j: "skip_bits test_bit b (i + 1) = Some j" "i + 1 \<le> j"
      "\<forall>n. i + 1 \<le> n \<longrightarrow> n < j \<longrightarrow> skip b n" "j < num_bits b \<longrightarrow> \<not> skip b j" by auto
    have "skip b n" if "i \<le> n" "n < j" for n using that j(3) True by (cases "n = i") auto
    then show ?thesis using j True bit_test [OF assms] by (subst skip_bits.simps) auto
  next
    case False
    then show ?thesis using bit_test [OF assms, of i] by (subst skip_bits.simps) auto
  qed
qed

text \<open>Both loops together are a linear search.\<close>

lemma search_is_find:
  assumes "wf_ba b"
  shows "\<exists>j. do { i \<leftarrow> skip_words test_word b i; skip_bits test_bit b i } = Some j \<and>
     find (\<lambda>n. \<not> skip b n) [i..<num_bits b] = (if j \<ge> num_bits b then None else Some j)"
proof -
  obtain k where k: "skip_words test_word b i = Some k" "i \<le> k" "\<forall>n. i \<le> n \<longrightarrow> n < k \<longrightarrow> skip b n"
    using skip_words_sound [OF assms] by blast
  obtain j where j: "skip_bits test_bit b k = Some j" "k \<le> j" "\<forall>n. k \<le> n \<longrightarrow> n < j \<longrightarrow> skip b n"
      "j < num_bits b \<longrightarrow> \<not> skip b j"
    using skip_bits_sound [OF assms] by blast
  have s: "skip b n" if "i \<le> n" "n < j" for n using that k(3) j(3) by (cases "n < k") auto
  have "find (\<lambda>n. \<not> skip b n) [i..<num_bits b] = (if j \<ge> num_bits b then None else Some j)"
  proof (cases "j \<ge> num_bits b")
    case True
    then show ?thesis using s by (auto simp: find_None_iff)
  next
    case False
    then have "[i..<num_bits b] = [i..<j] @ j # [Suc j..<num_bits b]"
      using k(2) j(2) upt_add_eq_append [of i j "num_bits b - j"] by (simp add: upt_conv_Cons)
    moreover have "find (\<lambda>n. \<not> skip b n) ([i..<j] @ xs) = find (\<lambda>n. \<not> skip b n) xs" for xs
      using s by (intro find_skip) auto
    ultimately show ?thesis using j(4) False by simp
  qed
  then show ?thesis using k(1) j(1) by auto
qed

end

interpretation zeros: bit_search is_word_set is_set "\<lambda>b n. n \<in> bits b"
  by unfold_locales (simp_all add: is_word_set_bits is_set_eq)

interpretation ones: bit_search is_word_cleared is_cleared "\<lambda>b n. n \<notin> bits b"
  by unfold_locales (simp_all add: is_word_cleared_bits is_cleared_eq)

text \<open>What an iterator looks for.\<close>

definition matches :: "BitFilter \<Rightarrow> BitArray \<Rightarrow> nat \<Rightarrow> bool" where
  "matches f b n = (case f of Zero \<Rightarrow> n \<notin> bits b | One \<Rightarrow> n \<in> bits b | Any \<Rightarrow> True)"

lemma matches_simps:
  "matches Zero b = (\<lambda>n. n \<notin> bits b)" "matches One b = (\<lambda>n. n \<in> bits b)"
  "matches Any b = (\<lambda>n. True)"
  by (simp_all add: fun_eq_iff matches_def)

lemma it_next_find:
  assumes "wf_ba (it_array it)"
  defines "r \<equiv> find (matches (it_filter it) (it_array it)) [it_index it..<num_bits (it_array it)]"
  shows "\<exists>i. it_next it = Some (r, it\<lparr>it_index := i\<rparr>) \<and>
     (case r of None \<Rightarrow> num_bits (it_array it) \<le> i | Some n \<Rightarrow> i = n + 1)"
proof (cases "it_index it < num_bits (it_array it)")
  case False
  then have "r = None" by (simp add: r_def)
  then show ?thesis using False by (intro exI [of _ "it_index it"]) (simp add: it_next_def Let_def)
next
  case True
  show ?thesis
  proof (cases "it_filter it")
    case Zero
    obtain j where j: "do { i \<leftarrow> skip_words is_word_set (it_array it) (it_index it);
          skip_bits is_set (it_array it) i } = Some j"
        "find (\<lambda>n. n \<notin> bits (it_array it)) [it_index it..<num_bits (it_array it)] =
          (if j \<ge> num_bits (it_array it) then None else Some j)"
      using zeros.search_is_find [OF assms(1)] by auto
    have "r = (if j \<ge> num_bits (it_array it) then None else Some j)"
      using j(2) by (simp add: r_def Zero matches_simps)
    then show ?thesis
      using j(1) True Zero by (auto simp: it_next_def Let_def split: option.splits bind_splits)
  next
    case One
    obtain j where j: "do { i \<leftarrow> skip_words is_word_cleared (it_array it) (it_index it);
          skip_bits is_cleared (it_array it) i } = Some j"
        "find (\<lambda>n. n \<in> bits (it_array it)) [it_index it..<num_bits (it_array it)] =
          (if j \<ge> num_bits (it_array it) then None else Some j)"
      using ones.search_is_find [OF assms(1)] by auto
    have "r = (if j \<ge> num_bits (it_array it) then None else Some j)"
      using j(2) by (simp add: r_def One matches_simps)
    then show ?thesis
      using j(1) True One by (auto simp: it_next_def Let_def split: option.splits bind_splits)
  next
    case Any
    have "r = Some (it_index it)" using True by (simp add: r_def Any matches_simps upt_conv_Cons)
    then show ?thesis using True Any by (auto simp: it_next_def Let_def)
  qed
qed

section \<open>Counting\<close>

lemma word_ones_card: "word_ones w = card {k. k < 32 \<and> bit w k}"
proof -
  have "{i. i < length [0..<32] \<and> bit w ([0..<32] ! i)} = {k. k < 32 \<and> bit w k}" by auto
  then show ?thesis by (simp add: word_ones_def length_filter_conv_card)
qed

lemma sum_word_ones:
  assumes "k \<le> length ws"
  shows "sum_list (map word_ones (take k ws)) = card {n. n < 32 * k \<and> bit (ws ! (n div 32)) (n mod 32)}"
  using assms
proof (induction k)
  case 0
  then show ?case by simp
next
  case (Suc k)
  let ?A = "{n. n < 32 * k \<and> bit (ws ! (n div 32)) (n mod 32)}"
  let ?B = "(\<lambda>j. 32 * k + j) ` {j. j < 32 \<and> bit (ws ! k) j}"
  have e: "{n. n < 32 * Suc k \<and> bit (ws ! (n div 32)) (n mod 32)} = ?A \<union> ?B"
  proof (intro equalityI subsetI)
    fix n assume n: "n \<in> {n. n < 32 * Suc k \<and> bit (ws ! (n div 32)) (n mod 32)}"
    show "n \<in> ?A \<union> ?B"
    proof (cases "n < 32 * k")
      case False
      then have "n div 32 = k" using n by (intro div_nat_eqI) simp_all
      then have "n = 32 * k + n mod 32" "n mod 32 < 32" "bit (ws ! k) (n mod 32)" using n by auto
      then show ?thesis by blast
    qed (use n in simp)
  qed auto
  have "card ?B = word_ones (ws ! k)"
    unfolding word_ones_card by (rule card_image) (simp add: inj_on_def)
  moreover have "card (?A \<union> ?B) = card ?A + card ?B" by (rule card_Un_disjoint) auto
  ultimately show ?case
    using Suc unfolding e by (simp add: take_Suc_conv_app_nth)
qed

lemma count_ones_card:
  assumes "wf_ba b"
  shows "count_ones b = Some (card (bits b))"
proof -
  define q r where "q = num_bits b div 32" and "r = num_bits b mod 32"
  have nb: "num_bits b = 32 * q + r" "r < 32" by (simp_all add: q_def r_def)
  let ?A = "{n. n < 32 * q \<and> bit (ba_data b ! (n div 32)) (n mod 32)}"
  have q: "q \<le> length (ba_data b)" using assms by (simp add: wf_ba_def word_count_def q_def)
  show ?thesis
  proof (cases "r = 0")
    case True
    then have "bits b = ?A" using nb by (auto simp: bits_def)
    then show ?thesis
      using True sum_word_ones [OF q] by (simp add: count_ones_def Let_def q_def r_def)
  next
    case False
    let ?w = "ba_data b ! q"
    let ?B = "(\<lambda>j. 32 * q + j) ` {j. j < r \<and> bit ?w j}"
    have "q < length (ba_data b)" using assms False by (simp add: wf_ba_def word_count_def q_def r_def)
    moreover have e: "bits b = ?A \<union> ?B"
    proof (intro equalityI subsetI)
      fix n assume n: "n \<in> bits b"
      show "n \<in> ?A \<union> ?B"
      proof (cases "n < 32 * q")
        case True
        then show ?thesis using n by (simp add: bits_def)
      next
        case False
        then have d: "n div 32 = q" using n nb by (intro div_nat_eqI) (auto simp: bits_def)
        then have "n = 32 * q + n mod 32" by (metis mult_div_mod_eq)
        moreover have "n mod 32 < r" using n nb calculation by (simp add: bits_def)
        moreover have "bit ?w (n mod 32)" using n d by (simp add: bits_def)
        ultimately show ?thesis by blast
      qed
    qed (use nb in \<open>auto simp: bits_def\<close>)
    moreover have "card ?B = word_ones (?w AND (push_bit r 1 - 1))"
    proof -
      have "{k. k < 32 \<and> bit (?w AND (push_bit r 1 - 1)) k} = {j. j < r \<and> bit ?w j}"
        using nb(2) by (auto simp: bit_simps mask_eq_exp_minus_1 [symmetric])
      then show ?thesis unfolding word_ones_card by (subst card_image) (simp_all add: inj_on_def)
    qed
    moreover have "card (?A \<union> ?B) = card ?A + card ?B" by (rule card_Un_disjoint) auto
    ultimately show ?thesis
      using False sum_word_ones [OF q]
      by (simp add: count_ones_def Let_def q_def [symmetric] r_def [symmetric] vec_get_def)
  qed
qed

lemma count_zeros_card:
  assumes "wf_ba b"
  shows "count_zeros b = Some (num_bits b - card (bits b))"
proof -
  let ?b = "b\<lparr>ba_data := map NOT (ba_data b)\<rparr>"
  have w: "wf_ba ?b" using assms by (simp add: wf_ba_def)
  have "bits ?b = {..<num_bits b} - bits b"
    using word_index [OF assms] by (auto simp: bits_def bit_simps)
  then have "card (bits ?b) = num_bits b - card (bits b)"
    by (simp add: card_Diff_subset bits_def subset_iff)
  moreover have "count_zeros b = count_ones ?b"
    by (simp add: count_zeros_def count_ones_def Let_def vec_get_def take_map comp_def)
  ultimately show ?thesis using count_ones_card [OF w] by simp
qed

lemma ba_new_bits: "wf_ba (ba_new n v)" "bits (ba_new n v) = (if v then {..<n} else {})"
  "num_bits (ba_new n v) = n"
proof -
  show w: "wf_ba (ba_new n v)" by (simp add: wf_ba_def ba_new_def)
  show "bits (ba_new n v) = (if v then {..<n} else {})"
    using word_index [OF w] by (auto simp: bits_def ba_new_def)
  show "num_bits (ba_new n v) = n" by (simp add: ba_new_def)
qed

section \<open>Properties\<close>

lemma set_bits_to_bits:
  assumes "wf_ba b" and "s \<le> e" and "e \<le> num_bits b"
  shows "\<exists>b'. set_bits_to b s e v = Some b' \<and> wf_ba b' \<and> num_bits b' = num_bits b \<and>
     bits b' = (if v then bits b \<union> {s..<e} else bits b - {s..<e})"
proof -
  have "e div 32 \<le> num_bits b div 32" using assms(3) by (rule div_le_mono)
  then have "e div 32 \<le> length (ba_data b)" using assms(1) by (simp add: wf_ba_def word_count_def)
  then obtain b' where b': "set_bits_to b s e v = Some b'" "put b {s..<e} v b'"
    using set_bits_to_put [OF assms(1,2)] by blast
  have "{s..<e} \<inter> {..<num_bits b} = {s..<e}" using assms(3) by auto
  then show ?thesis using b' by (auto simp: put_def)
qed

lemma set_to_bits:
  assumes "wf_ba b"
  shows "\<exists>b'. set_to b n v = Some b' \<and> wf_ba b' \<and> num_bits b' = num_bits b \<and>
     bits b' = (if v then bits b \<union> ({n} \<inter> {..<num_bits b}) else bits b - {n})"
  using set_to_put [OF assms, of n v] unfolding put_def .

text \<open>
  C17. Bit arrays implement sets of indices: a new array is the full or the empty set; setting,
  clearing and toggling a bit adds, removes or changes that index when the array has it, and nothing
  else; a range of bits is set or cleared exactly as if bit by bit, although whole words are stored
  at once; a bit is read as it was written; the two counts are the numbers of elements and of
  missing elements.
\<close>

theorem bit_array_implements_set:
  assumes "wf_ba b" and "s \<le> e" and "e \<le> num_bits b"
  shows "wf_ba (ba_new n v) \<and> num_bits (ba_new n v) = n \<and> bits (ba_new n v) = (if v then {..<n} else {}) \<and>
    (\<exists>b'. ba_set b n = Some b' \<and> wf_ba b' \<and> num_bits b' = num_bits b \<and>
       bits b' = (if n < num_bits b then insert n (bits b) else bits b)) \<and>
    (\<exists>b'. ba_clear b n = Some b' \<and> wf_ba b' \<and> num_bits b' = num_bits b \<and> bits b' = bits b - {n}) \<and>
    (\<exists>b'. ba_toggle b n = Some b' \<and> wf_ba b' \<and> num_bits b' = num_bits b \<and>
       bits b' = (if n < num_bits b \<and> n \<notin> bits b then insert n (bits b) else bits b - {n})) \<and>
    (\<exists>b'. set_bits b s e = Some b' \<and> wf_ba b' \<and> num_bits b' = num_bits b \<and> bits b' = bits b \<union> {s..<e}) \<and>
    (\<exists>b'. clear_bits b s e = Some b' \<and> wf_ba b' \<and> num_bits b' = num_bits b \<and> bits b' = bits b - {s..<e}) \<and>
    is_set b n = Some (n \<in> bits b) \<and> is_cleared b n = Some (n \<notin> bits b) \<and>
    count_ones b = Some (card (bits b)) \<and> count_zeros b = Some (num_bits b - card (bits b))"
proof (intro conjI)
  show "\<exists>b'. ba_toggle b n = Some b' \<and> wf_ba b' \<and> num_bits b' = num_bits b \<and>
       bits b' = (if n < num_bits b \<and> n \<notin> bits b then insert n (bits b) else bits b - {n})"
    using set_to_bits [OF assms(1), of n "n \<notin> bits b"] by (auto simp: ba_toggle_def is_set_eq [OF assms(1)])
qed (use set_to_bits [OF assms(1), of n True] set_to_bits [OF assms(1), of n False]
      set_bits_to_bits [OF assms, of True] set_bits_to_bits [OF assms, of False] assms(1)
    in \<open>auto simp: ba_set_def ba_clear_def set_bits_def clear_bits_def ba_new_bits is_set_eq is_cleared_eq
      count_ones_card count_zeros_card\<close>)

theorem bit_array_implements_set_witness:
  "wf_ba (ba_new 100 False) \<and>
   (\<exists>b'. set_bits (ba_new 100 False) 5 70 = Some b' \<and> wf_ba b' \<and> bits b' = {5..<70} \<and>
      is_set b' 69 = Some True \<and> is_set b' 70 = Some False \<and>
      count_ones b' = Some 65 \<and> count_zeros b' = Some 35 \<and>
      (\<exists>c. ba_clear b' 69 = Some c \<and> bits c = {5..<70} - {69}))"
proof -
  have n: "num_bits (ba_new 100 False) = 100" "wf_ba (ba_new 100 False)" "bits (ba_new 100 False) = {}"
    by (simp_all add: ba_new_bits)
  obtain b' where b': "set_bits (ba_new 100 False) 5 70 = Some b'" "wf_ba b'" "num_bits b' = 100" "bits b' = {5..<70}"
    using bit_array_implements_set [OF n(2), of 5 70 0 False] unfolding n by auto
  have "\<exists>c. ba_clear b' 69 = Some c \<and> bits c = {5..<70} - {69}"
    "is_set b' 69 = Some True" "count_ones b' = Some 65" "count_zeros b' = Some 35"
    using bit_array_implements_set [OF b'(2), of 0 0 69 False] unfolding b' by auto
  moreover have "is_set b' 70 = Some False"
    using bit_array_implements_set [OF b'(2), of 0 0 70 False] unfolding b' by auto
  ultimately show ?thesis using n b' by auto
qed

text \<open>
  C18. An iterator returns the next index with the wanted bit, the same as a linear search from its
  position, although it passes over whole words, and continues behind that index; it ends, without a
  panic, when there is none.
\<close>

theorem bit_iterator_is_linear_search:
  assumes "wf_ba (it_array it)"
    and "r = find (matches (it_filter it) (it_array it)) [it_index it..<num_bits (it_array it)]"
  shows "\<exists>i. it_next it = Some (r, it\<lparr>it_index := i\<rparr>) \<and>
     (case r of None \<Rightarrow> num_bits (it_array it) \<le> i | Some n \<Rightarrow> i = n + 1)"
  using it_next_find [OF assms(1)] unfolding assms(2) .

theorem bit_iterator_is_linear_search_witness:
  "\<exists>i. it_next (start_from 3 (ba_new 70 True) Zero) =
       Some (None, (start_from 3 (ba_new 70 True) Zero)\<lparr>it_index := i\<rparr>) \<and>
   (\<exists>i. it_next (start_from 3 (ba_new 70 True) One) =
       Some (Some 3, (start_from 3 (ba_new 70 True) One)\<lparr>it_index := i\<rparr>))"
proof -
  have "find (matches Zero (ba_new 70 True)) [3..<70] = None"
    by (auto simp: find_None_iff matches_simps ba_new_bits)
  moreover have "find (matches One (ba_new 70 True)) [3..<70] = Some 3"
    by (simp add: upt_conv_Cons matches_simps ba_new_bits)
  moreover have "num_bits (ba_new 70 True) = 70" by (simp add: ba_new_def)
  ultimately show ?thesis
    using bit_iterator_is_linear_search [of "start_from 3 (ba_new 70 True) Zero" None]
      bit_iterator_is_linear_search [of "start_from 3 (ba_new 70 True) One" "Some 3"]
    by (auto simp: start_from_def ba_new_bits(1))
qed

end
