(* ===== verification/Rust_Std.thy ===== *)
theory Rust_Std
  imports Prelude "HOL-Library.Monad_Syntax"
begin

text \<open>
  What the Rust sources use of the standard library: the result of a comparison, checked arithmetic
  on machine words (\<^verbatim>\<open>usize\<close> has 32 bits on the target), and the ordered collections \<^verbatim>\<open>BTreeSet\<close> and
  \<^verbatim>\<open>BTreeMap\<close>. A collection is the list of its elements in the order of iteration. The programs
  are built without optimisation, so that an arithmetic overflow panics; a panic is \<open>None\<close>.
\<close>

datatype Ordering = Less | Equal | Greater

definition checked_add :: "'a::len word \<Rightarrow> 'a word \<Rightarrow> 'a word option" where
  "checked_add a b = (if unat a + unat b < 2 ^ LENGTH('a) then Some (a + b) else None)"

definition checked_sub :: "'a::len word \<Rightarrow> 'a word \<Rightarrow> 'a word option" where
  "checked_sub a b = (if b \<le> a then Some (a - b) else None)"

definition word_cmp :: "'a::len word \<Rightarrow> 'a word \<Rightarrow> Ordering" where
  "word_cmp a b = (if a < b then Less else if b < a then Greater else Equal)"

section \<open>Ordered collections\<close>

fun bt_insert :: "('a \<Rightarrow> 'a \<Rightarrow> Ordering) \<Rightarrow> 'a \<Rightarrow> 'a list \<Rightarrow> 'a list" where
  "bt_insert cmp x [] = [x]"
| "bt_insert cmp x (y # ys) =
     (case cmp x y of Less \<Rightarrow> x # y # ys | Equal \<Rightarrow> y # ys | Greater \<Rightarrow> y # bt_insert cmp x ys)"

fun bt_remove :: "('a \<Rightarrow> 'a \<Rightarrow> Ordering) \<Rightarrow> 'a \<Rightarrow> 'a list \<Rightarrow> 'a list" where
  "bt_remove cmp x [] = []"
| "bt_remove cmp x (y # ys) =
     (case cmp x y of Less \<Rightarrow> y # ys | Equal \<Rightarrow> ys | Greater \<Rightarrow> y # bt_remove cmp x ys)"

definition bt_get :: "('a \<Rightarrow> 'a \<Rightarrow> Ordering) \<Rightarrow> 'a \<Rightarrow> 'a list \<Rightarrow> 'a option" where
  "bt_get cmp x ys = find (\<lambda>y. cmp x y = Equal) ys"

definition bt_contains :: "('a \<Rightarrow> 'a \<Rightarrow> Ordering) \<Rightarrow> 'a \<Rightarrow> 'a list \<Rightarrow> bool" where
  "bt_contains cmp x ys \<longleftrightarrow> list_ex (\<lambda>y. cmp x y = Equal) ys"

text \<open>The elements come in ascending order of their keys, and no two have the same key.\<close>

definition ordered :: "('a \<Rightarrow> 'k::linorder) \<Rightarrow> 'a list \<Rightarrow> bool" where
  "ordered key xs \<longleftrightarrow> sorted_wrt (<) (map key xs)"

lemma ordered_simps [simp]:
  "ordered key []"
  "ordered key (x # xs) \<longleftrightarrow> (\<forall>y\<in>set xs. key x < key y) \<and> ordered key xs"
  by (auto simp: ordered_def)

lemma ordered_inj: "ordered key xs \<Longrightarrow> inj_on key (set xs)"
proof (induction xs)
  case (Cons x xs)
  then have "key x \<noteq> key y" if "y \<in> set xs" for y using that by fastforce
  then show ?case using Cons by (simp add: image_iff)
qed simp

locale keyed =
  fixes cmp :: "'a \<Rightarrow> 'a \<Rightarrow> Ordering" and key :: "'a \<Rightarrow> 'k::linorder"
  assumes cmp_key:
    "cmp x y = (if key x < key y then Less else if key y < key x then Greater else Equal)"
begin

lemma cmp_Equal: "cmp x y = Equal \<longleftrightarrow> key x = key y"
  by (auto simp: cmp_key)

lemma cmp_simps:
  "key x < key y \<Longrightarrow> cmp x y = Less" "key y < key x \<Longrightarrow> cmp x y = Greater"
  "key x = key y \<Longrightarrow> cmp x y = Equal"
  by (simp_all add: cmp_key)

lemma set_insert:
  "ordered key xs \<Longrightarrow>
   set (bt_insert cmp x xs) = (if key x \<in> key ` set xs then set xs else insert x (set xs))"
proof (induction xs)
  case (Cons y ys)
  then show ?case
    by (cases rule: linorder_cases [of "key x" "key y"]) (auto simp: cmp_simps)
qed simp

lemma ordered_insert: "ordered key xs \<Longrightarrow> ordered key (bt_insert cmp x xs)"
proof (induction xs)
  case (Cons y ys)
  then have "\<forall>z\<in>set (bt_insert cmp x ys). z = x \<or> z \<in> set ys" by (auto simp: set_insert)
  then show ?case
    using Cons by (cases rule: linorder_cases [of "key x" "key y"]) (auto simp: cmp_simps)
qed simp

lemma set_remove: "ordered key xs \<Longrightarrow> set (bt_remove cmp x xs) = {y \<in> set xs. key y \<noteq> key x}"
proof (induction xs)
  case (Cons y ys)
  then show ?case
    by (cases rule: linorder_cases [of "key x" "key y"]) (auto simp: cmp_simps)
qed simp

lemma ordered_remove: "ordered key xs \<Longrightarrow> ordered key (bt_remove cmp x xs)"
proof (induction xs)
  case (Cons y ys)
  then have "\<forall>z\<in>set (bt_remove cmp x ys). z \<in> set ys" by (auto simp: set_remove)
  then show ?case
    using Cons by (cases rule: linorder_cases [of "key x" "key y"]) (auto simp: cmp_simps)
qed simp

lemma contains_key: "bt_contains cmp x xs \<longleftrightarrow> key x \<in> key ` set xs"
  by (auto simp: bt_contains_def list_ex_iff cmp_Equal)

lemma get_iff:
  assumes "ordered key xs"
  shows "bt_get cmp x xs = Some y \<longleftrightarrow> y \<in> set xs \<and> key y = key x"
proof
  assume "bt_get cmp x xs = Some y"
  then show "y \<in> set xs \<and> key y = key x"
    by (auto simp: bt_get_def find_Some_iff cmp_Equal)
next
  assume y: "y \<in> set xs \<and> key y = key x"
  then obtain z where z: "bt_get cmp x xs = Some z"
    by (cases "bt_get cmp x xs") (auto simp: bt_get_def find_None_iff cmp_Equal)
  then have "z \<in> set xs" "key z = key x" by (auto simp: bt_get_def find_Some_iff cmp_Equal)
  then show "bt_get cmp x xs = Some y" using z y inj_onD [OF ordered_inj [OF assms]] by simp
qed

lemma get_None: "bt_get cmp x xs = None \<longleftrightarrow> key x \<notin> key ` set xs"
  by (auto simp: bt_get_def find_None_iff cmp_Equal)

end

text \<open>Maps: the elements are pairs of a key and a value; inserting a present key replaces its value.\<close>

fun btm_insert :: "('k \<Rightarrow> 'k \<Rightarrow> Ordering) \<Rightarrow> 'k \<Rightarrow> 'v \<Rightarrow> ('k \<times> 'v) list \<Rightarrow> ('k \<times> 'v) list" where
  "btm_insert cmp k v [] = [(k, v)]"
| "btm_insert cmp k v ((k', v') # m) =
     (case cmp k k' of Less \<Rightarrow> (k, v) # (k', v') # m | Equal \<Rightarrow> (k', v) # m
      | Greater \<Rightarrow> (k', v') # btm_insert cmp k v m)"

fun btm_remove :: "('k \<Rightarrow> 'k \<Rightarrow> Ordering) \<Rightarrow> 'k \<Rightarrow> ('k \<times> 'v) list \<Rightarrow> ('k \<times> 'v) list" where
  "btm_remove cmp k [] = []"
| "btm_remove cmp k ((k', v') # m) =
     (case cmp k k' of Less \<Rightarrow> (k', v') # m | Equal \<Rightarrow> m | Greater \<Rightarrow> (k', v') # btm_remove cmp k m)"

fun btm_get :: "('k \<Rightarrow> 'k \<Rightarrow> Ordering) \<Rightarrow> 'k \<Rightarrow> ('k \<times> 'v) list \<Rightarrow> 'v option" where
  "btm_get cmp k [] = None"
| "btm_get cmp k ((k', v') # m) = (if cmp k k' = Equal then Some v' else btm_get cmp k m)"

locale ordered_keys =
  fixes cmp :: "'k::linorder \<Rightarrow> 'k \<Rightarrow> Ordering"
  assumes cmp_order: "cmp x y = (if x < y then Less else if y < x then Greater else Equal)"
begin

lemma order_simps: "x < y \<Longrightarrow> cmp x y = Less" "y < x \<Longrightarrow> cmp x y = Greater" "cmp x x = Equal"
  by (simp_all add: cmp_order)

lemma get_map_of: "btm_get cmp k m = map_of m k"
proof (induction m)
  case (Cons a m)
  then show ?case
    by (cases rule: linorder_cases [of k "fst a"]) (cases a, auto simp: order_simps)+
qed simp

lemma map_of_insert: "ordered fst m \<Longrightarrow> map_of (btm_insert cmp k v m) = (map_of m)(k \<mapsto> v)"
proof (induction m)
  case (Cons a m)
  then show ?case
    by (cases rule: linorder_cases [of k "fst a"]) (cases a, auto simp: order_simps fun_eq_iff)+
qed auto

lemma keys_insert: "fst ` set (btm_insert cmp k v m) = insert k (fst ` set m)"
proof (induction m)
  case (Cons a m)
  obtain k' v' where [simp]: "a = (k', v')" by (cases a)
  show ?case
    by (cases rule: linorder_cases [of k k']) (simp_all add: order_simps Cons.IH insert_commute)
qed simp

lemma set_btm_insert: "set (btm_insert cmp k v m) \<subseteq> insert (k, v) (set m)"
proof (induction m)
  case (Cons a m)
  obtain k' v' where [simp]: "a = (k', v')" by (cases a)
  show ?case
    using Cons.IH by (cases rule: linorder_cases [of k k']) (auto simp: order_simps)
qed simp

lemma ordered_fst_insert: "ordered fst m \<Longrightarrow> ordered fst (btm_insert cmp k v m)"
proof (induction m)
  case (Cons a m)
  obtain k' v' where [simp]: "a = (k', v')" by (cases a)
  have "k' < fst y" if "k' < k" "y \<in> set (btm_insert cmp k v m)" for y
  proof -
    have "fst y \<in> insert k (fst ` set m)" using keys_insert [of k v m] that(2) by blast
    then show ?thesis using Cons.prems that(1) by auto
  qed
  then show ?case
    using Cons by (cases rule: linorder_cases [of k k']) (auto simp: order_simps)
qed simp

lemma map_of_remove: "ordered fst m \<Longrightarrow> map_of (btm_remove cmp k m) = (map_of m)(k := None)"
proof (induction m)
  case (Cons a m)
  have "k \<le> fst a \<Longrightarrow> map_of m k = None"
    using Cons.prems by (auto simp: map_of_eq_None_iff)
  with Cons show ?case
    by (cases rule: linorder_cases [of k "fst a"]) (cases a, auto simp: order_simps fun_eq_iff)+
qed auto

lemma set_btm_remove: "set (btm_remove cmp k m) \<subseteq> set m"
proof (induction m)
  case (Cons a m)
  then show ?case
    by (cases rule: linorder_cases [of k "fst a"]) (cases a, auto simp: order_simps)+
qed simp

lemma ordered_fst_remove: "ordered fst m \<Longrightarrow> ordered fst (btm_remove cmp k m)"
proof (induction m)
  case (Cons a m)
  have "\<forall>y\<in>set (btm_remove cmp k m). y \<in> set m" using set_btm_remove [of k m] by blast
  then show ?case
    using Cons by (cases rule: linorder_cases [of k "fst a"]) (cases a, auto simp: order_simps)+
qed simp

end

sublocale ordered_keys \<subseteq> keyed cmp "\<lambda>k. k"
  by unfold_locales (rule cmp_order)

interpretation words: ordered_keys "word_cmp :: 'a::len word \<Rightarrow> 'a word \<Rightarrow> Ordering"
  by unfold_locales (simp add: word_cmp_def)

end
