(* ===== verification/Region.thy ===== *)
theory Region
  imports Rust_Std "HOL-Library.Product_Lexorder"
begin

text \<open>
  Memory regions and sets of regions of the init server
  (\<^verbatim>\<open>servers/init_server/src/region.rs\<close>), for machine words of any width: physical addresses have
  64 bits, virtual ones 32. The end of a region is exclusive and 0 stands for the end of memory, so
  that the region from 0 to 0 is the whole memory. Each operation is compared with the operation on
  sets of addresses; a panic (an \<^verbatim>\<open>unwrap\<close> of \<^verbatim>\<open>None\<close>) is the value \<open>None\<close>.
\<close>

record 'a MemoryRegion =
  reg_start :: 'a
  reg_end :: 'a

type_synonym 'a region = "'a word MemoryRegion"

section \<open>Regions\<close>

definition memory_start :: "'a::len word" where "memory_start = 0"
definition memory_end :: "'a::len word" where "memory_end = 0"

definition region_new :: "'a::len word \<Rightarrow> 'a::len word \<Rightarrow> 'a::len region" where
  "region_new s e = \<lparr>reg_start = s, reg_end = (if e < s \<and> e \<noteq> memory_end then s else e)\<rparr>"

definition region_cmp :: "'a::len region \<Rightarrow> 'a::len region \<Rightarrow> Ordering" where
  "region_cmp a b =
     (if reg_start a < reg_start b then Less
      else if reg_start a > reg_start b then Greater
      else if reg_end a < reg_end b then if reg_end a \<noteq> memory_end then Less else Greater
      else if reg_end a > reg_end b then if reg_end b \<noteq> memory_end then Greater else Less
      else Equal)"

definition region_clone :: "'a::len region \<Rightarrow> 'a::len region" where
  "region_clone r = region_new (reg_start r) (reg_end r)"

definition full_region :: "'a::len region" where
  "full_region = region_new memory_start memory_end"

definition is_full_region :: "'a::len region \<Rightarrow> bool" where
  "is_full_region r \<longleftrightarrow> reg_start r = memory_start \<and> reg_end r = memory_end"

text \<open>\<open>None\<close> is \<^verbatim>\<open>Err(Error::Overflow)\<close>.\<close>

definition region_length :: "'a::len region \<Rightarrow> 'a::len word option" where
  "region_length r =
     (if is_full_region r then None
      else if reg_end r = memory_end then Some (NOT (reg_start r) + 1)
      else Some (reg_end r - reg_start r))"

definition is_adjacent :: "'a::len region \<Rightarrow> 'a::len region \<Rightarrow> bool" where
  "is_adjacent a b \<longleftrightarrow> (reg_end a = reg_start b \<or> reg_end b = reg_start a) \<and>
     \<not> is_full_region a \<and> \<not> is_full_region b"

definition overlaps :: "'a::len region \<Rightarrow> 'a::len region \<Rightarrow> bool" where
  "overlaps a b \<longleftrightarrow> is_full_region a \<or> is_full_region b \<or>
     (reg_start b \<ge> reg_start a \<and> (reg_start b < reg_end a \<or> reg_end a = memory_end)) \<or>
     (reg_start a \<ge> reg_start b \<and> (reg_start a < reg_end b \<or> reg_end b = memory_end))"

definition region_contains :: "'a::len region \<Rightarrow> 'a::len word \<Rightarrow> bool" where
  "region_contains r a \<longleftrightarrow> is_full_region r \<or>
     (a \<ge> reg_start r \<and> (a < reg_end r \<or> reg_end r = memory_end))"

definition region_union :: "'a::len region \<Rightarrow> 'a::len region \<Rightarrow> 'a::len region list" where
  "region_union a b =
     (let s = min (reg_start a) (reg_start b);
          e = (if reg_end a = memory_end \<or> reg_end b = memory_end then memory_end
               else max (reg_end a) (reg_end b))
      in if is_adjacent a b \<or> overlaps a b then [region_new s e]
         else [region_clone a, region_clone b])"

definition region_join :: "'a::len region \<Rightarrow> 'a::len region \<Rightarrow> 'a::len region option" where
  "region_join a b =
     (let rs = region_union a b in if length rs = 1 then Some (rs ! 0) else None)"

definition region_complement :: "'a::len region \<Rightarrow> 'a::len region list" where
  "region_complement r =
     (if reg_start r \<noteq> memory_start then
        if reg_end r \<noteq> memory_end then
          [region_new memory_start (reg_start r), region_new (reg_end r) memory_end]
        else [region_new memory_start (reg_start r)]
      else if reg_end r \<noteq> memory_end then [region_new (reg_end r) memory_end]
      else [])"

definition region_intersection :: "'a::len region \<Rightarrow> 'a::len region \<Rightarrow> 'a::len region list" where
  "region_intersection a b =
     (if \<not> overlaps a b then []
      else
        let s = max (reg_start a) (reg_start b);
            e = (if reg_end a = memory_end then reg_end b
                 else if reg_end b = memory_end then reg_end a
                 else min (reg_end a) (reg_end b))
        in [region_new s e])"

text \<open>The last case is the panic for a complement of more than two regions.\<close>

definition region_difference :: "'a::len region \<Rightarrow> 'a::len region \<Rightarrow> 'a::len region list option" where
  "region_difference a b =
     (let c = region_complement b in
      if length c = 0 then Some c
      else if length c = 1 then Some (region_intersection a (c ! 0))
      else if length c = 2 then Some (region_intersection a (c ! 0) @ region_intersection a (c ! 1))
      else None)"

section \<open>Sets of regions\<close>

type_synonym 'a RegionSet = "'a region list"

definition rs_intersection :: "'a::len RegionSet \<Rightarrow> 'a::len RegionSet \<Rightarrow> 'a::len RegionSet" where
  "rs_intersection rs qs =
     concat (map (\<lambda>r. List.map_filter (\<lambda>q.
       let x = region_intersection r q in if length x = 1 then Some (x ! 0) else None) qs) rs)"

text \<open>\<^verbatim>\<open>fold(region, |acc, region2| acc.join(region2).unwrap())\<close>\<close>

fun join_all :: "'a::len region \<Rightarrow> 'a::len region list \<Rightarrow> 'a::len region option" where
  "join_all acc [] = Some acc"
| "join_all acc (r # rs) =
     (case region_join acc r of None \<Rightarrow> None | Some acc' \<Rightarrow> join_all acc' rs)"

definition touches :: "'a::len region \<Rightarrow> 'a::len region \<Rightarrow> bool" where
  "touches a b \<longleftrightarrow> overlaps a b \<or> is_adjacent a b"

text \<open>The loop over \<^verbatim>\<open>new_regions\<close>; the second component is what is left of \<^verbatim>\<open>other_regions\<close>.\<close>

fun union_loop :: "'a::len RegionSet \<Rightarrow> 'a::len RegionSet \<Rightarrow> ('a::len RegionSet \<times> 'a::len RegionSet) option" where
  "union_loop [] qs = Some ([], qs)"
| "union_loop (r # rs) qs =
     (if length qs = 0 then Some (r # rs, qs)
      else
        let (cs, ds) = partition (touches r) qs in
        case join_all r cs of
          None \<Rightarrow> None
        | Some r' \<Rightarrow>
            (case union_loop rs ds of
               None \<Rightarrow> None
             | Some (rs', qs') \<Rightarrow> Some (r' # rs', qs')))"

definition rs_union :: "'a::len RegionSet \<Rightarrow> 'a::len RegionSet \<Rightarrow> 'a::len RegionSet option" where
  "rs_union rs qs =
     map_option (\<lambda>(rs', qs'). rs' @ qs') (union_loop (map region_clone rs) (map region_clone qs))"

definition rs_new :: "'a::len region list \<Rightarrow> 'a::len RegionSet option" where
  "rs_new rs = foldl (\<lambda>acc r. Option.bind acc (\<lambda>x. rs_union x [r])) (Some []) rs"

definition rs_complement :: "'a::len RegionSet \<Rightarrow> 'a::len RegionSet" where
  "rs_complement rs = foldl rs_intersection [full_region] (map region_complement rs)"

definition rs_insert :: "'a::len RegionSet \<Rightarrow> 'a::len region \<Rightarrow> 'a::len RegionSet option" where
  "rs_insert rs r =
     (let (cs, ds) = partition (touches r) rs in
      case join_all r cs of None \<Rightarrow> None | Some r' \<Rightarrow> Some (ds @ [r']))"

section \<open>Meaning\<close>

lemmas region_defs = region_new_def region_clone_def memory_start_def memory_end_def
  is_full_region_def is_adjacent_def overlaps_def

text \<open>What every region made by \<^verbatim>\<open>new\<close> satisfies.\<close>

definition wf_region :: "'a::len region \<Rightarrow> bool" where
  "wf_region r \<longleftrightarrow> reg_end r = 0 \<or> reg_start r \<le> reg_end r"

definition addrs :: "'a::len region \<Rightarrow> 'a::len word set" where
  "addrs r = {a. region_contains r a}"

definition set_addrs :: "'a::len RegionSet \<Rightarrow> 'a::len word set" where
  "set_addrs rs = (\<Union>r\<in>set rs. addrs r)"

lemma addrs_eq: "addrs r = {a. reg_start r \<le> a \<and> (a < reg_end r \<or> reg_end r = 0)}"
  by (auto simp: addrs_def region_contains_def region_defs)

lemma set_addrs_simps [simp]:
  "set_addrs [] = {}" "set_addrs (r # rs) = addrs r \<union> set_addrs rs"
  "set_addrs (rs @ qs) = set_addrs rs \<union> set_addrs qs"
  by (auto simp: set_addrs_def)

lemma wf_region_new [simp]: "wf_region (region_new s e)"
  by (auto simp: wf_region_def region_defs)

lemma region_clone_wf [simp]: "wf_region r \<Longrightarrow> region_clone r = r"
  by (cases r) (auto simp: wf_region_def region_defs)

lemma addrs_full [simp]: "addrs full_region = UNIV"
  by (auto simp: addrs_eq full_region_def region_defs)

lemma region_complement_addrs:
  assumes "wf_region r"
  shows "set_addrs (region_complement r) = - addrs r"
  using assms
  by (auto simp: region_complement_def addrs_eq region_defs wf_region_def not_less not_le
      dest: order_trans less_le_trans)

lemma region_complement_wf: "\<forall>q\<in>set (region_complement r). wf_region q"
  by (simp add: region_complement_def)

lemma addrs_new: "addrs (region_new s e) = {a. s \<le> a \<and> (a < e \<or> e = 0)}"
  by (auto simp: addrs_eq region_defs)

lemma overlaps_common:
  assumes "x \<in> addrs a" and "x \<in> addrs b"
  shows "overlaps a b"
proof (cases "reg_start a \<le> reg_start b")
  case True
  then show ?thesis using assms by (auto simp: addrs_eq overlaps_def memory_end_def)
next
  case False
  then show ?thesis using assms by (auto simp: addrs_eq overlaps_def memory_end_def)
qed

lemma region_intersection_addrs: "set_addrs (region_intersection a b) = addrs a \<inter> addrs b"
proof (cases "overlaps a b")
  case True
  have "min (reg_end a) (reg_end b) = 0 \<longleftrightarrow> reg_end a = 0 \<or> reg_end b = 0"
    by (auto simp: min_def)
  then show ?thesis
    using True unfolding region_intersection_def Let_def
    by (simp add: addrs_new) (auto simp: addrs_eq memory_end_def)
next
  case False
  then show ?thesis by (auto simp: region_intersection_def dest: overlaps_common)
qed

section \<open>Joining\<close>

text \<open>
  Two regions can be joined without regard to the end of memory when not one of them reaches
  the end and the other starts at 0: these count as adjacent.
\<close>

definition no_wrap :: "'a::len region set \<Rightarrow> bool" where
  "no_wrap R \<longleftrightarrow> (\<forall>r\<in>R. reg_end r \<noteq> 0) \<or> (\<forall>r\<in>R. reg_start r \<noteq> 0)"

lemma no_wrap_mono: "no_wrap R \<Longrightarrow> S \<subseteq> R \<Longrightarrow> no_wrap S"
  by (auto simp: no_wrap_def)

lemma region_join_eq:
  assumes "touches a b"
  shows "region_join a b = Some (region_new (min (reg_start a) (reg_start b))
     (if reg_end a = 0 \<or> reg_end b = 0 then 0 else max (reg_end a) (reg_end b)))"
  using assms by (auto simp: region_join_def region_union_def Let_def touches_def memory_end_def)

lemma touching_gap:
  assumes "wf_region a" and "touches a b" and "no_wrap {a, b}"
    and "x < reg_start a" and "reg_start b \<le> x" and "reg_end b \<le> x" and "reg_end b \<noteq> 0"
  shows False
proof -
  have "\<not> overlaps a b" using assms(4-7) by (auto simp: overlaps_def region_defs)
  then have "reg_end a = reg_start b \<or> reg_end b = reg_start a"
    using assms(2) by (auto simp: touches_def is_adjacent_def)
  then have "reg_end a = reg_start b" using assms(4,6) by auto
  then have "reg_end a = 0" using assms(1,4,5) by (auto simp: wf_region_def)
  moreover have "reg_start b = 0" using \<open>reg_end a = 0\<close> \<open>reg_end a = reg_start b\<close> by simp
  ultimately show False using assms(3) by (auto simp: no_wrap_def)
qed

lemma touches_sym: "touches a b \<longleftrightarrow> touches b a"
  by (auto simp: touches_def overlaps_def is_adjacent_def)

lemma region_join_addrs:
  assumes "wf_region a" and "wf_region b" and "touches a b" and "no_wrap {a, b}"
  shows "\<exists>c. region_join a b = Some c \<and> addrs c = addrs a \<union> addrs b"
proof -
  let ?s = "min (reg_start a) (reg_start b)"
  let ?e = "if reg_end a = 0 \<or> reg_end b = 0 then 0 else max (reg_end a) (reg_end b)"
  have "x \<in> addrs (region_new ?s ?e) \<longleftrightarrow> x \<in> addrs a \<union> addrs b" for x
  proof
    assume "x \<in> addrs a \<union> addrs b"
    then show "x \<in> addrs (region_new ?s ?e)"
      unfolding addrs_new by (auto simp: addrs_eq min_le_iff_disj less_max_iff_disj)
  next
    assume "x \<in> addrs (region_new ?s ?e)"
    then have x: "?s \<le> x \<and> (x < ?e \<or> ?e = 0)" by (simp only: addrs_new mem_Collect_eq)
    show "x \<in> addrs a \<union> addrs b"
    proof (rule ccontr)
      assume n: "x \<notin> addrs a \<union> addrs b"
      have "\<not> x < reg_start a"
      proof
        assume *: "x < reg_start a"
        then have "reg_start b \<le> x" using x by (auto simp: min_le_iff_disj)
        moreover from this have "reg_end b \<le> x" "reg_end b \<noteq> 0" using n by (auto simp: addrs_eq)
        ultimately show False using touching_gap [OF assms(1,3,4) *] by simp
      qed
      moreover have "\<not> x < reg_start b"
      proof
        assume *: "x < reg_start b"
        then have "reg_start a \<le> x" using x by (auto simp: min_le_iff_disj)
        moreover from this have "reg_end a \<le> x" "reg_end a \<noteq> 0" using n by (auto simp: addrs_eq)
        moreover have "touches b a" "no_wrap {b, a}"
          using assms(3,4) by (simp_all add: touches_sym insert_commute)
        ultimately show False using touching_gap [OF assms(2) _ _ *, of a] by simp
      qed
      ultimately show False using x n by (auto simp: addrs_eq max_def split: if_splits)
    qed
  qed
  then show ?thesis using region_join_eq [OF assms(3)] by (auto simp: set_eq_iff)
qed

text \<open>A region that covers one which touches \<open>q\<close> touches \<open>q\<close>.\<close>

definition covers :: "'a::len region \<Rightarrow> 'a::len region \<Rightarrow> bool" where
  "covers c r \<longleftrightarrow> reg_start c \<le> reg_start r \<and>
     (reg_end c = 0 \<or> reg_end r \<noteq> 0 \<and> reg_end r \<le> reg_end c)"

lemma touches_mono:
  assumes "touches r q" and "covers c r" and "wf_region r" and "wf_region q" and "no_wrap {r, q}"
  shows "touches c q"
proof (cases "is_full_region q \<or> is_full_region c")
  case True
  then show ?thesis by (auto simp: touches_def overlaps_def)
next
  case False
  have nf: "\<not> is_full_region r"
    using assms(2) False by (auto simp: covers_def region_defs)
  show ?thesis
  proof (cases "reg_start c \<le> reg_start q")
    case True
    have "reg_end c = 0 \<or> reg_start q \<le> reg_end c"
      using assms nf False True
      by (auto simp: touches_def covers_def overlaps_def is_adjacent_def wf_region_def no_wrap_def
          memory_end_def)
    then show ?thesis
      using True False by (auto simp: touches_def overlaps_def is_adjacent_def memory_end_def)
  next
    case less: False
    have "reg_end q = 0 \<or> reg_start c \<le> reg_end q"
      using assms nf False less
      by (auto simp: touches_def covers_def overlaps_def is_adjacent_def wf_region_def no_wrap_def
          memory_end_def)
    then show ?thesis
      using less False by (auto simp: touches_def overlaps_def is_adjacent_def memory_end_def)
  qed
qed

lemma region_join_covers:
  assumes "region_join a b = Some c" and "touches a b"
  shows "wf_region c" and "covers c a" and "reg_end a \<noteq> 0 \<Longrightarrow> reg_end b \<noteq> 0 \<Longrightarrow> reg_end c \<noteq> 0"
    and "reg_start a \<noteq> 0 \<Longrightarrow> reg_start b \<noteq> 0 \<Longrightarrow> reg_start c \<noteq> 0"
proof -
  have c: "c = region_new (min (reg_start a) (reg_start b))
      (if reg_end a = 0 \<or> reg_end b = 0 then 0 else max (reg_end a) (reg_end b))"
    using assms region_join_eq [of a b] by simp
  show "wf_region c" unfolding c by simp
  show "covers c a" unfolding c by (auto simp: covers_def region_defs)
  show "reg_end c \<noteq> 0" if "reg_end a \<noteq> 0" "reg_end b \<noteq> 0"
    using that unfolding c by (auto simp: region_defs max_def min_def split: if_splits)
  show "reg_start c \<noteq> 0" if "reg_start a \<noteq> 0" "reg_start b \<noteq> 0"
    using that unfolding c by (auto simp: region_defs min_def)
qed

text \<open>An operation on regions introduces no region that ends at the end of memory or starts at 0.\<close>

definition keeps :: "'a::len region set \<Rightarrow> 'a::len region set \<Rightarrow> bool" where
  "keeps A B \<longleftrightarrow> ((\<forall>r\<in>A. reg_end r \<noteq> 0) \<longrightarrow> (\<forall>r\<in>B. reg_end r \<noteq> 0)) \<and>
     ((\<forall>r\<in>A. reg_start r \<noteq> 0) \<longrightarrow> (\<forall>r\<in>B. reg_start r \<noteq> 0))"

lemma keeps_no_wrap: "keeps A B \<Longrightarrow> no_wrap A \<Longrightarrow> no_wrap B"
  by (auto simp: keeps_def no_wrap_def)

lemma join_all_addrs:
  assumes "wf_region r" and "\<forall>q\<in>set qs. touches r q \<and> wf_region q" and "no_wrap (insert r (set qs))"
  shows "\<exists>c. join_all r qs = Some c \<and> wf_region c \<and> addrs c = addrs r \<union> set_addrs qs \<and>
     keeps (insert r (set qs)) {c}"
  using assms
proof (induction qs arbitrary: r)
  case Nil
  then show ?case by (simp add: keeps_def)
next
  case (Cons q qs)
  have q: "touches r q" "wf_region q" "no_wrap {r, q}"
    using Cons.prems by (auto intro: no_wrap_mono)
  obtain c where c: "region_join r q = Some c" "addrs c = addrs r \<union> addrs q"
    using region_join_addrs [OF Cons.prems(1) q(2,1,3)] by blast
  note j = region_join_covers [OF c(1) q(1)]
  have "touches c x \<and> wf_region x" if "x \<in> set qs" for x
  proof -
    have "touches r x" "wf_region x" "no_wrap {r, x}"
      using that Cons.prems by (auto intro: no_wrap_mono)
    then show ?thesis using touches_mono [OF _ j(2) Cons.prems(1)] by blast
  qed
  moreover have k: "keeps (insert r (set (q # qs))) (insert c (set qs))"
    using j(3,4) by (auto simp: keeps_def)
  ultimately obtain d where d: "join_all c qs = Some d" "wf_region d"
      "addrs d = addrs c \<union> set_addrs qs" "keeps (insert c (set qs)) {d}"
    using Cons.IH [OF j(1)] keeps_no_wrap [OF k Cons.prems(3)] by blast
  have "keeps (insert r (set (q # qs))) {d}" using d(4) k by (simp add: keeps_def)
  then show ?case using c d by (auto simp: Un_assoc)
qed

lemma set_addrs_partition:
  assumes "partition P qs = (cs, ds)"
  shows "set_addrs qs = set_addrs cs \<union> set_addrs ds"
proof -
  have "set qs = set cs \<union> set ds" using assms by auto
  then show ?thesis by (simp add: set_addrs_def)
qed

lemma rs_insert_addrs:
  assumes "\<forall>q\<in>set rs. wf_region q" and "wf_region r" and "no_wrap (insert r (set rs))"
  shows "\<exists>rs'. rs_insert rs r = Some rs' \<and> (\<forall>q\<in>set rs'. wf_region q) \<and>
     set_addrs rs' = set_addrs rs \<union> addrs r \<and> keeps (insert r (set rs)) (set rs')"
proof -
  obtain cs ds where p: "partition (touches r) rs = (cs, ds)" by (meson surj_pair)
  have "\<forall>q\<in>set cs. touches r q \<and> wf_region q" "no_wrap (insert r (set cs))"
    using p assms(1) by (auto intro: no_wrap_mono [OF assms(3)])
  then obtain c where c: "join_all r cs = Some c" "wf_region c" "addrs c = addrs r \<union> set_addrs cs"
      "keeps (insert r (set cs)) {c}"
    using join_all_addrs [OF assms(2)] by blast
  have "keeps (insert r (set rs)) (set (ds @ [c]))" using c(4) p by (auto simp: keeps_def)
  then show ?thesis
    using c set_addrs_partition [OF p] p assms(1) by (auto simp: rs_insert_def)
qed

lemma union_loop_addrs:
  assumes "\<forall>q\<in>set rs \<union> set qs. wf_region q" and "no_wrap (set rs \<union> set qs)"
  shows "\<exists>rs' qs'. union_loop rs qs = Some (rs', qs') \<and> (\<forall>q\<in>set rs' \<union> set qs'. wf_region q) \<and>
     set_addrs rs' \<union> set_addrs qs' = set_addrs rs \<union> set_addrs qs \<and>
     keeps (set rs \<union> set qs) (set rs' \<union> set qs')"
  using assms
proof (induction rs arbitrary: qs)
  case Nil
  then show ?case by (simp add: keeps_def)
next
  case (Cons r rs)
  show ?case
  proof (cases "qs = []")
    case True
    then show ?thesis using Cons.prems by (simp add: keeps_def)
  next
    case False
    obtain cs ds where p: "partition (touches r) qs = (cs, ds)" by (meson surj_pair)
    have "\<forall>q\<in>set cs. touches r q \<and> wf_region q" "no_wrap (insert r (set cs))"
      using p Cons.prems(1) by (auto intro: no_wrap_mono [OF Cons.prems(2)])
    then obtain c where c: "join_all r cs = Some c" "wf_region c" "addrs c = addrs r \<union> set_addrs cs"
        "keeps (insert r (set cs)) {c}"
      using join_all_addrs [of r cs] Cons.prems(1) by auto
    have "\<forall>q\<in>set rs \<union> set ds. wf_region q" "no_wrap (set rs \<union> set ds)"
      using p Cons.prems(1) by (auto intro: no_wrap_mono [OF Cons.prems(2)])
    then obtain rs' qs' where u: "union_loop rs ds = Some (rs', qs')"
        "\<forall>q\<in>set rs' \<union> set qs'. wf_region q"
        "set_addrs rs' \<union> set_addrs qs' = set_addrs rs \<union> set_addrs ds"
        "keeps (set rs \<union> set ds) (set rs' \<union> set qs')"
      using Cons.IH by blast
    have "keeps (set (r # rs) \<union> set qs) (set (c # rs') \<union> set qs')"
      using c(4) u(4) p by (auto simp: keeps_def)
    moreover have "set_addrs (c # rs') \<union> set_addrs qs' = set_addrs (r # rs) \<union> set_addrs qs"
      using u(3) c(3) set_addrs_partition [OF p] by auto
    ultimately show ?thesis using False p c u by auto
  qed
qed

lemma rs_union_addrs:
  assumes "\<forall>q\<in>set rs \<union> set qs. wf_region q" and "no_wrap (set rs \<union> set qs)"
  shows "\<exists>us. rs_union rs qs = Some us \<and> (\<forall>q\<in>set us. wf_region q) \<and>
     set_addrs us = set_addrs rs \<union> set_addrs qs \<and> keeps (set rs \<union> set qs) (set us)"
proof -
  have "map region_clone rs = rs" "map region_clone qs = qs"
    using assms(1) by (auto intro: map_idI)
  then show ?thesis using union_loop_addrs [OF assms] by (auto simp: rs_union_def)
qed

section \<open>Intersection and complement\<close>

lemma set_addrs_concat: "set_addrs (concat xss) = (\<Union>xs\<in>set xss. set_addrs xs)"
  by (auto simp: set_addrs_def)

lemma map_filter_single:
  assumes "\<And>x. length (f x) \<le> 1"
  shows "List.map_filter (\<lambda>x. let y = f x in if length y = 1 then Some (y ! 0) else None) xs =
     concat (map f xs)"
proof (induction xs)
  case Nil
  then show ?case by (simp add: List.map_filter_def)
next
  case (Cons x xs)
  have "f x = [] \<or> (\<exists>y. f x = [y])" using assms [of x] by (cases "f x") auto
  then show ?case using Cons.IH by (auto simp: List.map_filter_def Let_def)
qed

lemma rs_intersection_concat:
  "rs_intersection rs qs = concat (map (\<lambda>r. concat (map (region_intersection r) qs)) rs)"
  unfolding rs_intersection_def
  by (subst map_filter_single) (simp_all add: region_intersection_def Let_def)

lemma rs_intersection_addrs: "set_addrs (rs_intersection rs qs) = set_addrs rs \<inter> set_addrs qs"
  by (simp add: rs_intersection_concat set_addrs_concat region_intersection_addrs)
    (auto simp: set_addrs_def)

lemma rs_intersection_wf: "\<forall>r\<in>set (rs_intersection rs qs). wf_region r"
  by (auto simp: rs_intersection_concat region_intersection_def Let_def)

text \<open>
  The folds with which complements are accumulated depend only on what intersection and
  complement mean.
\<close>

locale region_algebra =
  fixes wf :: "'r \<Rightarrow> bool" and meaning :: "'r list \<Rightarrow> 'a set"
    and inter :: "'r list \<Rightarrow> 'r list \<Rightarrow> 'r list" and compl :: "'r \<Rightarrow> 'r list"
  assumes meaning_Nil: "meaning [] = {}"
    and meaning_Cons: "meaning (r # rs) = meaning [r] \<union> meaning rs"
    and meaning_inter: "meaning (inter rs qs) = meaning rs \<inter> meaning qs"
    and meaning_compl: "wf r \<Longrightarrow> meaning (compl r) = - meaning [r]"
begin

lemma meaning_fold_right:
  "\<forall>r\<in>set rs. wf r \<Longrightarrow> meaning (foldl inter init (map compl rs)) = meaning init - meaning rs"
proof (induction rs arbitrary: init)
  case Nil
  then show ?case by (simp add: meaning_Nil)
next
  case (Cons r rs)
  then show ?case using meaning_Cons [of r rs] by (auto simp: meaning_inter meaning_compl)
qed

lemma meaning_fold_left:
  assumes "\<forall>r\<in>set rs. wf r" and "\<And>r. wf r \<Longrightarrow> meaning (c r) = - meaning [r]"
  shows "meaning (foldl (\<lambda>acc r. inter (c r) acc) init rs) = meaning init - meaning rs"
  using assms(1)
proof (induction rs arbitrary: init)
  case Nil
  then show ?case by (simp add: meaning_Nil)
next
  case (Cons r rs)
  then show ?case using meaning_Cons [of r rs] by (auto simp: meaning_inter assms(2))
qed

end

interpretation region_set: region_algebra wf_region set_addrs rs_intersection region_complement
  by unfold_locales (simp_all add: rs_intersection_addrs region_complement_addrs)

lemma rs_complement_addrs:
  "\<forall>r\<in>set rs. wf_region r \<Longrightarrow> set_addrs (rs_complement rs) = - set_addrs rs"
  unfolding rs_complement_def by (subst region_set.meaning_fold_right) auto

lemma region_difference_addrs:
  assumes "wf_region b"
  shows "\<exists>ds. region_difference a b = Some ds \<and> set_addrs ds = addrs a - addrs b"
proof -
  define c where "c = region_complement b"
  have u: "set_addrs c = - addrs b" unfolding c_def by (rule region_complement_addrs [OF assms])
  have "length c \<le> 2" by (simp add: c_def region_complement_def)
  then consider "c = []" | q where "c = [q]" | q q' where "c = [q, q']"
    by (cases c rule: remdups_adj.cases) auto
  then show ?thesis
    by cases (use u in \<open>auto simp: region_difference_def c_def [symmetric] Let_def
      region_intersection_addrs\<close>)
qed

section \<open>Order and length\<close>

text \<open>Regions are ordered by start, then by end, with 0 as the greatest end.\<close>

definition region_key :: "'a::len region \<Rightarrow> 'a::len word \<times> 'a::len word" where
  "region_key r = (reg_start r, reg_end r - 1)"

lemma last_address_less:
  fixes a b :: "'a::len word"
  assumes "a \<noteq> 0" and "b \<noteq> 0"
  shows "a - 1 < b - 1 \<longleftrightarrow> a < b"
proof -
  have "0 < unat a" "0 < unat b" using assms by (simp_all add: unat_gt_0)
  then show ?thesis using assms by (auto simp: word_less_nat_alt unat_minus_one)
qed

lemma region_cmp_key:
  "region_cmp a b = (if region_key a < region_key b then Less
     else if region_key b < region_key a then Greater else Equal)"
proof -
  have m: "(x :: 'a::len word) - 1 < - 1 \<longleftrightarrow> x \<noteq> 0" "\<not> - 1 < (x :: 'a word)" for x
    by (simp_all add: word_order.not_eq_extremum [symmetric] not_less word_order.extremum)
  show ?thesis
    by (auto simp: region_cmp_def region_key_def memory_end_def last_address_less m less_prod_def')
qed

lemma card_addrs:
  fixes r :: "'a::len region"
  assumes "wf_region r"
  shows "card (addrs r) = (if reg_end r = 0 then 2 ^ LENGTH('a) else unat (reg_end r)) - unat (reg_start r)"
    (is "_ = ?e - ?s")
proof -
  have "unat ` addrs r = {?s..<?e}"
  proof
    show "unat ` addrs r \<subseteq> {?s..<?e}"
      by (auto simp: addrs_eq word_le_nat_alt word_less_nat_alt intro: unsigned_less)
    show "{?s..<?e} \<subseteq> unat ` addrs r"
    proof
      fix n assume n: "n \<in> {?s..<?e}"
      then have "n < 2 ^ LENGTH('a)"
        using less_trans [OF _ unsigned_less [of "reg_end r"]] by (auto split: if_splits)
      then have u: "unat (of_nat n :: 'a word) = n" by (simp add: unat_of_nat)
      then have "of_nat n \<in> addrs r"
        using n by (auto simp: addrs_eq word_le_nat_alt word_less_nat_alt split: if_splits)
      then show "n \<in> unat ` addrs r" using u by force
    qed
  qed
  then have "card (unat ` addrs r) = ?e - ?s" by simp
  moreover have "card (unat ` addrs r) = card (addrs r)"
    by (rule card_image) (auto simp: inj_on_def word_unat_eq_iff)
  ultimately show ?thesis by simp
qed

lemma region_length_card:
  fixes r :: "'a::len region"
  assumes "wf_region r"
  shows "region_length r = (if addrs r = UNIV then None else Some (of_nat (card (addrs r))))"
proof -
  have full: "addrs r = UNIV \<longleftrightarrow> is_full_region r"
  proof
    assume u: "addrs r = UNIV"
    then have "0 \<in> addrs r" "- 1 \<in> addrs r" by auto
    then show "is_full_region r"
      by (auto simp: addrs_eq region_defs word_order.extremum_strict)
  qed (auto simp: addrs_eq region_defs)
  show ?thesis
  proof (cases "is_full_region r")
    case False
    have "of_nat (card (addrs r)) = (if reg_end r = 0 then - reg_start r else reg_end r - reg_start r)"
    proof (cases "reg_end r = 0")
      case True
      have "of_nat (2 ^ LENGTH('a) - unat (reg_start r)) = (of_nat (2 ^ LENGTH('a)) - reg_start r :: 'a word)"
        using less_imp_le [OF unsigned_less [of "reg_start r"]] by (subst of_nat_diff) auto
      then show ?thesis using True by (simp add: card_addrs [OF assms])
    next
      case False
      then have "reg_start r \<le> reg_end r" using assms by (simp add: wf_region_def)
      then show ?thesis using False by (simp add: card_addrs [OF assms] word_le_nat_alt of_nat_diff)
    qed
    then show ?thesis
      using False full by (simp add: region_length_def memory_end_def minus_eq_not_plus_1)
  qed (simp add: full region_length_def)
qed

section \<open>Properties\<close>

text \<open>
  C19. The region operations compute set operations: intersection and complement of region sets and
  the difference of two regions denote the intersection, complement and difference of the sets of
  addresses, and the difference does not panic. The length of a region is its number of addresses,
  with an overflow error exactly for the whole memory.
\<close>

theorem region_operations_are_set_operations:
  assumes "\<forall>r\<in>set rs. wf_region r" and "wf_region a" and "wf_region b"
  shows "set_addrs (rs_intersection rs qs) = set_addrs rs \<inter> set_addrs qs \<and>
    set_addrs (rs_complement rs) = - set_addrs rs \<and>
    (\<exists>ds. region_difference a b = Some ds \<and> set_addrs ds = addrs a - addrs b) \<and>
    region_length a = (if addrs a = UNIV then None else Some (of_nat (card (addrs a))))"
  using rs_intersection_addrs rs_complement_addrs [OF assms(1)] region_difference_addrs [OF assms(3)]
    region_length_card [OF assms(2)] by simp

theorem region_operations_are_set_operations_witness:
  "let r = region_new 0x1000 (0x2000 :: 64 word) in
   set_addrs (rs_complement [r]) = - set_addrs [r] \<and>
   (\<exists>ds. region_difference full_region r = Some ds \<and> set_addrs ds = addrs full_region - addrs r)"
  using region_operations_are_set_operations [of "[region_new 0x1000 (0x2000 :: 64 word)]" full_region
      "region_new 0x1000 0x2000" "[]"]
  by (auto simp: full_region_def Let_def)

text \<open>
  C20. Inserting a region into a set and joining two sets never panics and yields the union of the
  addresses, with well-formed regions, provided no region reaches the end of memory or none starts
  at address 0.
\<close>

theorem region_insert_and_union:
  assumes "\<forall>q\<in>insert r (set rs \<union> set qs). wf_region q" and "no_wrap (insert r (set rs \<union> set qs))"
  shows "(\<exists>us. rs_insert rs r = Some us \<and> (\<forall>q\<in>set us. wf_region q) \<and>
      set_addrs us = set_addrs rs \<union> addrs r) \<and>
    (\<exists>us. rs_union rs qs = Some us \<and> (\<forall>q\<in>set us. wf_region q) \<and>
      set_addrs us = set_addrs rs \<union> set_addrs qs)"
proof -
  have "no_wrap (insert r (set rs))" "no_wrap (set rs \<union> set qs)"
    by (auto intro: no_wrap_mono [OF assms(2)])
  then show ?thesis
    using rs_insert_addrs [of rs r] rs_union_addrs [of rs qs] assms(1) by blast
qed

theorem region_insert_and_union_witness:
  "rs_insert [region_new 0x100000 (0x300000 :: 64 word)] (region_new 0x200000 0x500000) =
     Some [region_new 0x100000 0x500000] \<and>
   set_addrs [region_new 0x100000 0x500000] =
     set_addrs [region_new 0x100000 0x300000] \<union> addrs (region_new 0x200000 (0x500000 :: 64 word))"
proof -
  let ?a = "region_new 0x100000 (0x300000 :: 64 word)"
  let ?b = "region_new 0x200000 (0x500000 :: 64 word)"
  have i: "rs_insert [?a] ?b = Some [region_new 0x100000 0x500000]"
    by (simp add: rs_insert_def touches_def region_defs region_join_def region_union_def Let_def
        min_def max_def)
  have "no_wrap {?b, ?a}" by (simp add: no_wrap_def region_defs)
  then show ?thesis
    using region_insert_and_union [of ?b "[?a]" "[]"] i by auto
qed

text \<open>
  A region that reaches the end of memory and one that starts at address 0 count as adjacent,
  since the end of memory is written as 0: joining them yields the whole memory, whatever lies
  between them.
\<close>

theorem region_join_wraps_around:
  assumes "reg_end a = 0" and "reg_start b = 0" and "reg_end b \<noteq> 0" and "reg_start a \<noteq> 0"
  shows "region_join a b = Some full_region"
  using assms
  by (simp add: region_join_def region_union_def Let_def is_adjacent_def is_full_region_def
      memory_start_def memory_end_def full_region_def region_new_def)

theorem region_join_wraps_around_witness:
  "region_join (region_new 0x80000000 (0 :: 64 word)) (region_new 0 0x1000) = Some full_region \<and>
   0x2000 \<notin> addrs (region_new 0x80000000 (0 :: 64 word)) \<union> addrs (region_new 0 0x1000)"
  using region_join_wraps_around [of "region_new 0x80000000 (0 :: 64 word)" "region_new 0 0x1000"]
  by (simp add: region_new_def addrs_eq memory_end_def)

end
