(* ===== verification/Phys_Alloc.thy ===== *)
theory Phys_Alloc
  imports Bit_Array Region
begin

text \<open>
  The physical page allocator of the init server (\<^verbatim>\<open>servers/init_server/src/phys_alloc.rs\<close>): block
  sizes of 4 KiB, 128 KiB, 4 MiB and 128 MiB, each 32 times the previous one, with one bit array
  per size for blocks in which something is used and one for blocks that are used up. Addresses are
  natural numbers: they are below \<^verbatim>\<open>MAX_PHYS_ADDR\<close>, \<open>2 ^ 40\<close>. A panic is the value \<open>None\<close>.
\<close>

section \<open>Block sizes\<close>

definition MAX_PHYS_ADDR :: nat where "MAX_PHYS_ADDR = 2 ^ 40"
definition MAX_PHYS_ADDR_4K :: nat where "MAX_PHYS_ADDR_4K = 2 ^ 32"

datatype AllocError = TooBig | OutOfMemory

datatype BlockSize = Block4k | Block128k | Block4M | Block128M

definition bs_new :: "nat \<Rightarrow> BlockSize option" where
  "bs_new level =
     (if level = 0 then Some Block4k else if level = 1 then Some Block128k
      else if level = 2 then Some Block4M else if level = 3 then Some Block128M else None)"

definition total_sizes :: nat where "total_sizes = 4"

fun bs_level :: "BlockSize \<Rightarrow> nat" where
  "bs_level Block4k = 0"
| "bs_level Block128k = 1"
| "bs_level Block4M = 2"
| "bs_level Block128M = 3"

fun bs_bytes :: "BlockSize \<Rightarrow> nat" where
  "bs_bytes Block4k = 4 * 1024"
| "bs_bytes Block128k = 128 * 1024"
| "bs_bytes Block4M = 4 * 1024 * 1024"
| "bs_bytes Block128M = 128 * 1024 * 1024"

section \<open>The allocator\<close>

record PhysPageAllocator =
  memory_size :: nat
  occupied_status :: "BitArray list"
  filled_bits :: "BitArray list"
  occupied_status_upper :: "BitArray list"
  filled_bits_upper :: "BitArray list"
  resd_regions :: "64 RegionSet"

definition vec_upd :: "'a list \<Rightarrow> nat \<Rightarrow> ('a \<Rightarrow> 'a option) \<Rightarrow> 'a list option" where
  "vec_upd xs i f = do { x \<leftarrow> vec_get xs i; y \<leftarrow> f x; vec_set xs i y }"

definition filled_status :: "PhysPageAllocator \<Rightarrow> BlockSize \<Rightarrow> BitArray option" where
  "filled_status a block = (case block of Block4k \<Rightarrow> vec_get (occupied_status a) 0
     | b \<Rightarrow> vec_get (filled_bits a) (bs_level b - 1))"

text \<open>An update through \<^verbatim>\<open>filled_status_mut\<close>.\<close>

definition filled_status_mut ::
    "PhysPageAllocator \<Rightarrow> BlockSize \<Rightarrow> (BitArray \<Rightarrow> BitArray option) \<Rightarrow> PhysPageAllocator option" where
  "filled_status_mut a block f = (case block of
       Block4k \<Rightarrow> do { v \<leftarrow> vec_upd (occupied_status a) 0 f; Some (a\<lparr>occupied_status := v\<rparr>) }
     | b \<Rightarrow> do { v \<leftarrow> vec_upd (filled_bits a) (bs_level b - 1) f; Some (a\<lparr>filled_bits := v\<rparr>) })"

definition filled_status_upper :: "PhysPageAllocator \<Rightarrow> BlockSize \<Rightarrow> BitArray option" where
  "filled_status_upper a block =
     (if block = Block4M then vec_get (occupied_status_upper a) 0
      else if bs_level block < bs_level Block4M then None
      else vec_get (filled_bits_upper a) (bs_level block - bs_level Block4M - 1))"

definition filled_status_upper_mut ::
    "PhysPageAllocator \<Rightarrow> BlockSize \<Rightarrow> (BitArray \<Rightarrow> BitArray option) \<Rightarrow> PhysPageAllocator option" where
  "filled_status_upper_mut a block f =
     (if block = Block4M then
        do { v \<leftarrow> vec_upd (occupied_status_upper a) 0 f; Some (a\<lparr>occupied_status_upper := v\<rparr>) }
      else if bs_level block < bs_level Block4M then None
      else do {
        v \<leftarrow> vec_upd (filled_bits_upper a) (bs_level block - bs_level Block4M - 1) f;
        Some (a\<lparr>filled_bits_upper := v\<rparr>) })"

text \<open>\<^verbatim>\<open>self.occupied_status[level]\<close> and the upper one, updated.\<close>

definition occupied_mut ::
    "bool \<Rightarrow> PhysPageAllocator \<Rightarrow> nat \<Rightarrow> (BitArray \<Rightarrow> BitArray option) \<Rightarrow> PhysPageAllocator option" where
  "occupied_mut upper a level f =
     (if upper then do { v \<leftarrow> vec_upd (occupied_status_upper a) (level - bs_level Block4M) f;
                         Some (a\<lparr>occupied_status_upper := v\<rparr>) }
      else do { v \<leftarrow> vec_upd (occupied_status a) level f; Some (a\<lparr>occupied_status := v\<rparr>) })"

definition is_block_free :: "PhysPageAllocator \<Rightarrow> nat \<Rightarrow> BlockSize \<Rightarrow> bool option" where
  "is_block_free a address sz =
     (if address \<ge> MAX_PHYS_ADDR_4K then
        if bs_level sz < bs_level Block4M then None
        else do { b \<leftarrow> vec_get (occupied_status_upper a) (bs_level sz - bs_level Block4M);
                  is_cleared b ((address - MAX_PHYS_ADDR_4K) div bs_bytes sz) }
      else do { b \<leftarrow> vec_get (occupied_status a) (bs_level sz);
                is_cleared b (address div bs_bytes sz) })"

definition is_block_partially_used :: "PhysPageAllocator \<Rightarrow> nat \<Rightarrow> BlockSize \<Rightarrow> bool option" where
  "is_block_partially_used a address sz =
     (if address \<ge> MAX_PHYS_ADDR_4K then
        if bs_level sz < bs_level Block4M then None
        else
          let bit_index = (address - MAX_PHYS_ADDR_4K) div bs_bytes sz in do {
            b \<leftarrow> vec_get (occupied_status_upper a) (bs_level sz - bs_level Block4M);
            s \<leftarrow> is_set b bit_index;
            if s then do { f \<leftarrow> filled_status_upper a sz; is_cleared f bit_index } else Some False }
      else
        let bit_index = address div bs_bytes sz in do {
          b \<leftarrow> vec_get (occupied_status a) (bs_level sz);
          s \<leftarrow> is_set b bit_index;
          if s then do { f \<leftarrow> filled_status a sz; is_cleared f bit_index } else Some False })"

definition is_block_used :: "PhysPageAllocator \<Rightarrow> nat \<Rightarrow> BlockSize \<Rightarrow> bool option" where
  "is_block_used a address sz =
     (if address \<ge> MAX_PHYS_ADDR_4K then
        if bs_level sz < bs_level Block4M then None
        else do { f \<leftarrow> filled_status_upper a sz;
                  is_set f ((address - MAX_PHYS_ADDR_4K) div bs_bytes sz) }
      else do { f \<leftarrow> filled_status a sz; is_set f (address div bs_bytes sz) })"

section \<open>Marking\<close>

text \<open>
  The loop over a block and its sub-blocks, from level \<open>n - 1\<close> down to 0, that sets (\<open>v\<close>) or
  clears their bits in \<^verbatim>\<open>mark_used\<close> and \<^verbatim>\<open>mark_free\<close>.
\<close>

primrec mark_levels ::
    "bool \<Rightarrow> bool \<Rightarrow> nat \<Rightarrow> PhysPageAllocator \<Rightarrow> nat \<Rightarrow> nat \<Rightarrow> PhysPageAllocator option" where
  "mark_levels upper v 0 a bit_start bit_end = Some a"
| "mark_levels upper v (Suc level) a bit_start bit_end =
     (if upper \<and> level < bs_level Block4M then mark_levels upper v level a bit_start bit_end
      else do {
        a \<leftarrow> occupied_mut upper a level (\<lambda>b. set_bits_to b bit_start bit_end v);
        a \<leftarrow> (if level > (if upper then bs_level Block4M else 0) then do {
               bs \<leftarrow> bs_new level;
               (if upper then filled_status_upper_mut else filled_status_mut) a bs
                 (\<lambda>b. set_bits_to b bit_start bit_end v) }
             else Some a);
        mark_levels upper v level a (bit_start * bits_per_word) (bit_end * bits_per_word) })"

definition block_index :: "nat \<Rightarrow> nat \<Rightarrow> nat" where
  "block_index address bytes =
     (if address \<ge> MAX_PHYS_ADDR_4K then (address - MAX_PHYS_ADDR_4K) div bytes else address div bytes)"

text \<open>One iteration of the loop over the super-blocks.\<close>

definition mark_super :: "nat \<Rightarrow> BlockSize \<Rightarrow> nat \<Rightarrow> PhysPageAllocator \<Rightarrow> PhysPageAllocator option" where
  "mark_super address sz level a =
     (let upper = address \<ge> MAX_PHYS_ADDR_4K in do {
        bs \<leftarrow> bs_new level;
        let bit_index = block_index address (bs_bytes bs);
        a \<leftarrow> (if level > bs_level sz then occupied_mut upper a level (\<lambda>b. ba_set b bit_index)
             else Some a);
        f \<leftarrow> (if upper then filled_status_upper else filled_status) a bs;
        full \<leftarrow> is_word_set f bit_index;
        if full \<and> level + 1 < total_sizes then do {
          bs' \<leftarrow> bs_new (level + 1);
          (if upper then filled_status_upper_mut else filled_status_mut) a bs'
            (\<lambda>b. ba_set b (block_index address (bs_bytes bs'))) }
        else Some a })"

primrec mark_supers :: "nat \<Rightarrow> BlockSize \<Rightarrow> nat \<Rightarrow> nat \<Rightarrow> PhysPageAllocator \<Rightarrow> PhysPageAllocator option" where
  "mark_supers address sz level 0 a = Some a"
| "mark_supers address sz level (Suc n) a = do {
     a \<leftarrow> mark_super address sz level a;
     mark_supers address sz (Suc level) n a }"

definition mark_used :: "PhysPageAllocator \<Rightarrow> nat \<Rightarrow> BlockSize \<Rightarrow> PhysPageAllocator option" where
  "mark_used a address sz =
     (if address \<ge> MAX_PHYS_ADDR_4K \<and> bs_level sz < bs_level Block4M then None
      else
        let bit_start = block_index address (bs_bytes sz) in do {
          a \<leftarrow> mark_levels (address \<ge> MAX_PHYS_ADDR_4K) True (bs_level sz + 1) a bit_start (bit_start + 1);
          mark_supers address sz (bs_level sz) (total_sizes - bs_level sz) a })"

definition mark_free :: "PhysPageAllocator \<Rightarrow> nat \<Rightarrow> BlockSize \<Rightarrow> PhysPageAllocator option" where
  "mark_free a address sz =
     (let bit_start = block_index address (bs_bytes sz) in
      mark_levels (address \<ge> MAX_PHYS_ADDR_4K) False (bs_level sz + 1) a bit_start (bit_start + 1))"

definition mark_reserved :: "PhysPageAllocator \<Rightarrow> 64 region \<Rightarrow> PhysPageAllocator option" where
  "mark_reserved a region = do { rs \<leftarrow> rs_insert (resd_regions a) region; Some (a\<lparr>resd_regions := rs\<rparr>) }"

section \<open>Searching and allocating\<close>

text \<open>
  The loop over the blocks that are not used up. The fuel \<open>n\<close> is one more than the number of
  bits, which bounds the number of items of an iterator.
\<close>

primrec try_blocks ::
    "(nat \<Rightarrow> nat option option) \<Rightarrow> nat \<Rightarrow> nat \<Rightarrow> BitIterator \<Rightarrow> nat option option" where
  "try_blocks search base 0 it = None"
| "try_blocks search base (Suc n) it = do {
     (r, it') \<leftarrow> it_next it;
     case r of
       None \<Rightarrow> Some None
     | Some b \<Rightarrow> do {
         x \<leftarrow> search (base + b);
         (case x of None \<Rightarrow> try_blocks search base n it' | Some y \<Rightarrow> Some (Some y)) } }"

primrec find_block_from :: "PhysPageAllocator \<Rightarrow> BlockSize \<Rightarrow> nat \<Rightarrow> nat \<Rightarrow> nat option option" where
  "find_block_from a sz 0 start_index =
     (if bs_level sz = 0 then do {
        b \<leftarrow> vec_get (occupied_status a) 0;
        (r, it) \<leftarrow> it_next (start_from start_index b Zero);
        Some (map_option (\<lambda>i. i * bs_bytes sz) r) }
      else None)"
| "find_block_from a sz (Suc level) start_index =
     (if bs_level sz = Suc level then do {
        b \<leftarrow> vec_get (occupied_status a) (Suc level);
        (r, it) \<leftarrow> it_next (start_from start_index b Zero);
        Some (map_option (\<lambda>i. i * bs_bytes sz) r) }
      else do {
        bs \<leftarrow> bs_new (Suc level);
        f \<leftarrow> filled_status a bs;
        try_blocks (find_block_from a sz level) (bits_per_word * start_index) (num_bits f + 1)
          (start_from start_index f Zero) })"

definition find_block :: "PhysPageAllocator \<Rightarrow> BlockSize \<Rightarrow> nat option option" where
  "find_block a sz = find_block_from a sz (total_sizes - 1) 0"

definition pa_alloc ::
    "PhysPageAllocator \<Rightarrow> BlockSize \<Rightarrow> ((AllocError + nat \<times> BlockSize) \<times> PhysPageAllocator) option" where
  "pa_alloc a sz = do {
     r \<leftarrow> find_block a sz;
     case r of
       Some addr \<Rightarrow> do { a' \<leftarrow> mark_used a addr sz; Some (Inr (addr, sz), a') }
     | None \<Rightarrow> do {
         bs \<leftarrow> bs_new (total_sizes - 1);
         f \<leftarrow> (if bs_level sz \<ge> bs_level Block4M then filled_status_upper else filled_status) a bs;
         n \<leftarrow> count_ones f;
         Some (Inl (if n = num_bits f then OutOfMemory else TooBig), a) } }"

definition pa_release :: "PhysPageAllocator \<Rightarrow> nat \<Rightarrow> BlockSize \<Rightarrow> PhysPageAllocator option" where
  "pa_release a address sz = do {
     free \<leftarrow> is_block_free a address sz;
     if free then None else mark_free a address sz }"

definition is_free :: "PhysPageAllocator \<Rightarrow> nat \<Rightarrow> bool option" where
  "is_free a address = is_block_free a address Block4k"

definition is_used :: "PhysPageAllocator \<Rightarrow> nat \<Rightarrow> bool option" where
  "is_used a address = is_block_used a address Block4k"

definition is_reserved :: "PhysPageAllocator \<Rightarrow> nat \<Rightarrow> bool" where
  "is_reserved a address \<longleftrightarrow> list_ex (\<lambda>r. region_contains r (of_nat address)) (resd_regions a)"

definition pa_contains :: "PhysPageAllocator \<Rightarrow> nat \<Rightarrow> bool" where
  "pa_contains a address \<longleftrightarrow> address < memory_size a \<and> \<not> is_reserved a address"

text \<open>The index \<^verbatim>\<open>size.level() - size.level()\<close> is 0 for every size.\<close>

definition free_count :: "PhysPageAllocator \<Rightarrow> BlockSize \<Rightarrow> nat option" where
  "free_count a sz = do {
     b \<leftarrow> vec_get (occupied_status a) (bs_level sz);
     n \<leftarrow> count_zeros b;
     if bs_level sz \<ge> bs_level Block4M then do {
       u \<leftarrow> vec_get (occupied_status_upper a) (bs_level sz - bs_level sz);
       m \<leftarrow> count_zeros u;
       Some (n + m) }
     else Some n }"

definition used_count :: "PhysPageAllocator \<Rightarrow> BlockSize \<Rightarrow> nat option" where
  "used_count a sz = do {
     b \<leftarrow> filled_status a sz;
     n \<leftarrow> count_ones b;
     if bs_level sz \<ge> bs_level Block4M then do {
       u \<leftarrow> filled_status_upper a sz;
       m \<leftarrow> count_ones u;
       Some (n + m) }
     else Some n }"

definition total_count :: "PhysPageAllocator \<Rightarrow> BlockSize \<Rightarrow> nat option" where
  "total_count a sz = do {
     b \<leftarrow> vec_get (occupied_status a) (bs_level sz);
     if bs_level sz \<ge> bs_level Block4M then do {
       u \<leftarrow> vec_get (occupied_status_upper a) (bs_level sz - bs_level sz);
       Some (num_bits b + num_bits u) }
     else Some (num_bits b) }"

text \<open>The allocator \<^verbatim>\<open>init\<close> starts with: all blocks free, the arrays sized for the memory.\<close>

definition blocks_of :: "nat \<Rightarrow> BlockSize \<Rightarrow> nat" where
  "blocks_of bytes sz = align bytes (bs_bytes sz) div bs_bytes sz"

definition new_allocator :: "nat \<Rightarrow> PhysPageAllocator" where
  "new_allocator mem_end =
     (let lower = (\<lambda>sz. ba_new (blocks_of (min mem_end MAX_PHYS_ADDR_4K) sz) False);
          upper = (\<lambda>sz. ba_new (blocks_of (min mem_end MAX_PHYS_ADDR - MAX_PHYS_ADDR_4K) sz) False);
          high = mem_end > MAX_PHYS_ADDR_4K in
      \<lparr>memory_size = mem_end,
       occupied_status = map lower [Block4k, Block128k, Block4M, Block128M],
       filled_bits = map lower [Block128k, Block4M, Block128M],
       occupied_status_upper = (if high then map upper [Block4M, Block128M] else []),
       filled_bits_upper = (if high then map upper [Block128M] else []),
       resd_regions = []\<rparr>)"

text \<open>Examples: a machine with 128 MiB, all of it free or all of it used.\<close>

definition small_allocator :: PhysPageAllocator where
  "small_allocator = new_allocator (2 ^ 27)"

definition full_allocator :: PhysPageAllocator where
  "full_allocator = small_allocator
     \<lparr>occupied_status := map (\<lambda>l. ba_new (32 ^ (3 - l)) True) [0, 1, 2, 3],
      filled_bits := map (\<lambda>l. ba_new (32 ^ (2 - l)) True) [0, 1, 2]\<rparr>"

section \<open>The global allocators\<close>

record BootstrapAllocator =
  boot_start :: nat
  boot_end :: nat

record phys_state =
  PAGE_ALLOCATOR :: "PhysPageAllocator option"
  BOOTSTRAP_MEM :: "BootstrapAllocator option"

definition extend :: "BootstrapAllocator \<Rightarrow> BlockSize \<Rightarrow> nat \<times> BootstrapAllocator" where
  "extend b sz = (boot_end b, b\<lparr>boot_end := boot_end b + bs_bytes sz\<rparr>)"

definition alloc_phys ::
    "phys_state \<Rightarrow> BlockSize \<Rightarrow> ((AllocError + nat \<times> BlockSize) \<times> phys_state) option" where
  "alloc_phys s sz = (case PAGE_ALLOCATOR s of
       Some a \<Rightarrow> do { (r, a') \<leftarrow> pa_alloc a sz; Some (r, s\<lparr>PAGE_ALLOCATOR := Some a'\<rparr>) }
     | None \<Rightarrow> (case BOOTSTRAP_MEM s of
           Some b \<Rightarrow> (let (addr, b') = extend b sz in
             Some (Inr (addr, sz), s\<lparr>BOOTSTRAP_MEM := Some b'\<rparr>))
         | None \<Rightarrow> None))"

definition release_phys :: "phys_state \<Rightarrow> nat \<Rightarrow> BlockSize \<Rightarrow> phys_state option" where
  "release_phys s address sz = (case PAGE_ALLOCATOR s of
       Some a \<Rightarrow> do { a' \<leftarrow> pa_release a address sz; Some (s\<lparr>PAGE_ALLOCATOR := Some a'\<rparr>) }
     | None \<Rightarrow> Some s)"

definition init_bootstrap :: "phys_state \<Rightarrow> nat \<Rightarrow> phys_state option" where
  "init_bootstrap s first_free_page =
     (if PAGE_ALLOCATOR s \<noteq> None then None
      else if BOOTSTRAP_MEM s \<noteq> None then None
      else Some (s\<lparr>BOOTSTRAP_MEM := Some \<lparr>boot_start = first_free_page, boot_end = first_free_page\<rparr>\<rparr>))"

section \<open>Initialisation\<close>

record RawMemoryMap =
  base_addr :: nat
  map_length :: nat
  map_type :: "32 word"

definition AVAILABLE :: "32 word" where "AVAILABLE = 1"

text \<open>Addition of 64-bit addresses; an overflow panics, as in the default build profile.\<close>

definition add_u64 :: "nat \<Rightarrow> nat \<Rightarrow> nat option" where
  "add_u64 x y = (if x + y < 2 ^ 64 then Some (x + y) else None)"

primrec last_available :: "RawMemoryMap list \<Rightarrow> nat \<Rightarrow> nat option" where
  "last_available [] e = Some e"
| "last_available (m # ms) e =
     (if map_type m = AVAILABLE then do {
        x \<leftarrow> add_u64 (base_addr m) (map_length m);
        last_available ms (max e x) }
      else last_available ms e)"

definition memory_end_of :: "RawMemoryMap list \<Rightarrow> nat option" where
  "memory_end_of ms = do {
     e \<leftarrow> last_available ms 0;
     Some (if e = 0 then MAX_PHYS_ADDR else min (max (align e 4096) 1) MAX_PHYS_ADDR) }"

text \<open>\<^verbatim>\<open>for address in (s..e).step_by(bytes)\<close>\<close>

function mark_steps :: "PhysPageAllocator \<Rightarrow> nat \<Rightarrow> nat \<Rightarrow> BlockSize \<Rightarrow> PhysPageAllocator option" where
  "mark_steps a s e sz =
     (if s < e then do { a \<leftarrow> mark_used a s sz; mark_steps a (s + bs_bytes sz) e sz } else Some a)"
  by pat_completeness auto
termination
proof (relation "measure (\<lambda>(a, s, e, sz). e - s)")
  fix a x :: PhysPageAllocator and s e :: nat and sz assume "s < e"
  moreover have "0 < bs_bytes sz" by (cases sz) simp_all
  ultimately show "((x, s + bs_bytes sz, e, sz), (a, s, e, sz)) \<in> measure (\<lambda>(a, s, e, sz). e - s)" by simp
qed simp

declare mark_steps.simps [simp del]

text \<open>The three loops that mark the pages from \<open>s\<close> to \<open>e\<close>; \<open>t\<close> is the end that is truncated.\<close>

definition mark_region :: "PhysPageAllocator \<Rightarrow> nat \<Rightarrow> nat \<Rightarrow> nat \<Rightarrow> PhysPageAllocator option" where
  "mark_region a s t e =
     (let block128k_start = align s (bs_bytes Block128k);
          block128k_end = align_trunc t (bs_bytes Block128k) in do {
        a \<leftarrow> mark_steps a s block128k_start Block4k;
        a \<leftarrow> mark_steps a block128k_start block128k_end Block128k;
        mark_steps a block128k_end e Block4k })"

definition mark_map ::
    "nat \<Rightarrow> BootstrapAllocator \<Rightarrow> RawMemoryMap \<Rightarrow> PhysPageAllocator \<Rightarrow> PhysPageAllocator option" where
  "mark_map mem_end boot m a =
     (if map_type m = AVAILABLE \<and> base_addr m \<ge> boot_end boot then Some a
      else do {
        x \<leftarrow> add_u64 (base_addr m) (map_length m);
        let e = (if x > boot_end boot \<and> map_type m = AVAILABLE then boot_end boot else x);
        a \<leftarrow> (if base_addr m < mem_end
              then mark_region a (base_addr m) (min e mem_end) (min e mem_end) else Some a);
        if map_type m = AVAILABLE \<and> e > boot_end boot then Some a
        else mark_reserved a (region_new (of_nat (base_addr m)) (of_nat e)) })"

primrec mark_maps ::
    "nat \<Rightarrow> BootstrapAllocator \<Rightarrow> RawMemoryMap list \<Rightarrow> PhysPageAllocator \<Rightarrow> PhysPageAllocator option" where
  "mark_maps mem_end boot [] a = Some a"
| "mark_maps mem_end boot (m # ms) a = do { a \<leftarrow> mark_map mem_end boot m a; mark_maps mem_end boot ms a }"

definition map_region :: "RawMemoryMap \<Rightarrow> 64 region" where
  "map_region m = region_new (of_nat (base_addr m)) (of_nat (base_addr m + map_length m))"

definition hole_regions :: "nat \<Rightarrow> RawMemoryMap list \<Rightarrow> 64 RegionSet" where
  "hole_regions mem_end ms =
     foldl (\<lambda>acc r. rs_intersection (rs_complement [r]) acc) [region_new 0 (of_nat mem_end)]
       (map map_region ms)"

primrec mark_holes :: "nat \<Rightarrow> 64 region list \<Rightarrow> PhysPageAllocator \<Rightarrow> PhysPageAllocator option" where
  "mark_holes mem_end [] a = Some a"
| "mark_holes mem_end (r # rs) a = do {
     a \<leftarrow> mark_region a (unat (reg_start r)) (unat (reg_end r)) (min (unat (reg_end r)) mem_end);
     a \<leftarrow> mark_reserved a r;
     mark_holes mem_end rs a }"

text \<open>
  The additions of the holes cannot overflow: \<open>last_available\<close> and \<open>mark_maps\<close> have performed them
  before.
\<close>

definition pa_init :: "phys_state \<Rightarrow> RawMemoryMap list \<Rightarrow> phys_state option" where
  "pa_init s ms =
     (if PAGE_ALLOCATOR s \<noteq> None then None
      else do {
        mem_end \<leftarrow> memory_end_of ms;
        boot \<leftarrow> BOOTSTRAP_MEM s;
        a \<leftarrow> mark_maps mem_end boot ms (new_allocator mem_end);
        a \<leftarrow> mark_steps a (boot_start boot) (boot_end boot) Block4k;
        a \<leftarrow> mark_holes mem_end (hole_regions mem_end ms) a;
        Some (s\<lparr>PAGE_ALLOCATOR := Some a, BOOTSTRAP_MEM := None\<rparr>) })"

section \<open>Well-formed allocators\<close>

text \<open>
  The arrays of an allocator for \<open>n\<close> blocks of 128 MiB below 4 GiB. An address below 4 GiB is in
  the lower arrays, so \<open>n\<close> is at most 32.
\<close>

definition wf_alloc :: "PhysPageAllocator \<Rightarrow> nat \<Rightarrow> bool" where
  "wf_alloc a n \<longleftrightarrow> n \<le> 32 \<and> length (occupied_status a) = 4 \<and> length (filled_bits a) = 3 \<and>
     (\<forall>l<4. wf_ba (occupied_status a ! l) \<and> num_bits (occupied_status a ! l) = n * 32 ^ (3 - l)) \<and>
     (\<forall>l<3. wf_ba (filled_bits a ! l) \<and> num_bits (filled_bits a ! l) = n * 32 ^ (2 - l))"

text \<open>The indices of the blocks of a level in which something is used.\<close>

abbreviation occ :: "PhysPageAllocator \<Rightarrow> nat \<Rightarrow> nat set" where
  "occ a l \<equiv> bits (occupied_status a ! l)"

text \<open>A block in which something is used is inside a block in which something is used.\<close>

definition super_closed :: "PhysPageAllocator \<Rightarrow> bool" where
  "super_closed a \<longleftrightarrow> (\<forall>l<3. \<forall>i\<in>occ a l. i div 32 \<in> occ a (Suc l))"

lemma wf_allocD:
  assumes "wf_alloc a n"
  shows "length (occupied_status a) = 4" "length (filled_bits a) = 3"
    and "l < 4 \<Longrightarrow> wf_ba (occupied_status a ! l)"
    and "l < 4 \<Longrightarrow> num_bits (occupied_status a ! l) = n * 32 ^ (3 - l)"
    and "l < 3 \<Longrightarrow> wf_ba (filled_bits a ! l)"
    and "l < 3 \<Longrightarrow> num_bits (filled_bits a ! l) = n * 32 ^ (2 - l)"
  using assms by (auto simp: wf_alloc_def)

lemma wf_alloc_occ:
  "wf_alloc a n \<Longrightarrow> l < 4 \<Longrightarrow> put (occupied_status a ! l) X v b \<Longrightarrow>
   wf_alloc (a\<lparr>occupied_status := (occupied_status a)[l := b]\<rparr>) n"
  by (auto simp: wf_alloc_def nth_list_update put_def)

lemma wf_alloc_filled:
  "wf_alloc a n \<Longrightarrow> l < 3 \<Longrightarrow> put (filled_bits a ! l) X v b \<Longrightarrow>
   wf_alloc (a\<lparr>filled_bits := (filled_bits a)[l := b]\<rparr>) n"
  by (auto simp: wf_alloc_def nth_list_update put_def)

lemma vec_upd_eq:
  "i < length xs \<Longrightarrow> f (xs ! i) = Some y \<Longrightarrow> vec_upd xs i f = Some (xs[i := y])"
  by (simp add: vec_upd_def vec_get_def vec_set_def)

lemma bs_new_level:
  assumes "l < 4"
  shows "\<exists>bs. bs_new l = Some bs \<and> bs_level bs = l"
proof -
  consider "l = 0" | "l = 1" | "l = 2" | "l = 3" using assms by linarith
  then show ?thesis by cases (simp_all add: bs_new_def)
qed

lemma bs_bytes_level: "bs_bytes bs = 4096 * 32 ^ bs_level bs"
  by (cases bs) simp_all

lemma bs_level_less: "bs_level bs < 4"
  by (cases bs) simp_all

lemma filled_status_mut_pos:
  "bs_level bs = Suc l \<Longrightarrow> filled_status_mut a bs f =
     do { v \<leftarrow> vec_upd (filled_bits a) l f; Some (a\<lparr>filled_bits := v\<rparr>) }"
  by (cases bs) (auto simp: filled_status_mut_def)

text \<open>Bits at the sub-levels of a block range.\<close>

definition upd_set :: "bool \<Rightarrow> nat set \<Rightarrow> nat set \<Rightarrow> nat set" where
  "upd_set v X A = (if v then A \<union> X else A - X)"

lemma put_range:
  assumes "wf_ba b" and "s \<le> e" and "e \<le> num_bits b"
  shows "\<exists>b'. set_bits_to b s e v = Some b' \<and> put b {s..<e} v b' \<and> bits b' = upd_set v {s..<e} (bits b)"
proof -
  have "e div 32 \<le> num_bits b div 32" using assms(3) by (rule div_le_mono)
  then have "e div 32 \<le> length (ba_data b)" using assms(1) by (simp add: wf_ba_def word_count_def)
  then obtain b' where "set_bits_to b s e v = Some b'" "put b {s..<e} v b'"
    using set_bits_to_put [OF assms(1,2)] by blast
  moreover have "{s..<e} \<inter> {..<num_bits b} = {s..<e}" using assms(3) by auto
  ultimately show ?thesis by (auto simp: put_def upd_set_def)
qed

lemma mark_levels_step:
  assumes "wf_alloc a n" and "l < 4" and "s \<le> e" and "e \<le> n * 32 ^ (3 - l)"
  shows "\<exists>a1. mark_levels False v (Suc l) a s e = mark_levels False v l a1 (s * 32) (e * 32) \<and>
     wf_alloc a1 n \<and> (\<forall>k<4. occ a1 k = (if k = l then upd_set v {s..<e} (occ a l) else occ a k)) \<and>
     (\<forall>k. k < 3 \<longrightarrow> l < Suc k \<longrightarrow> filled_bits a1 ! k = filled_bits a ! k)"
proof -
  note w = wf_allocD [OF assms(1)]
  obtain b where b: "set_bits_to (occupied_status a ! l) s e v = Some b"
      "put (occupied_status a ! l) {s..<e} v b" "bits b = upd_set v {s..<e} (occ a l)"
    using put_range [OF w(3) [OF assms(2)] assms(3)] w(4) [OF assms(2)] assms(4) by auto
  let ?a = "a\<lparr>occupied_status := (occupied_status a)[l := b]\<rparr>"
  have wa: "wf_alloc ?a n" by (rule wf_alloc_occ [OF assms(1,2) b(2)])
  have o: "occupied_mut False a l (\<lambda>x. set_bits_to x s e v) = Some ?a"
    using w(1) assms(2) b(1) by (simp add: occupied_mut_def vec_upd_eq)
  have oc: "\<forall>k<4. occ ?a k = (if k = l then upd_set v {s..<e} (occ a l) else occ a k)"
    using w(1) assms(2) b(3) by (auto simp: nth_list_update)
  show ?thesis
  proof (cases l)
    case 0
    then show ?thesis
      using o wa oc by (intro exI [of _ ?a]) (simp add: bits_per_word_def)
  next
    case (Suc m)
    then have m: "m < 3" "3 - l = 2 - m" using assms(2) by auto
    obtain f where f: "set_bits_to (filled_bits a ! m) s e v = Some f" "put (filled_bits a ! m) {s..<e} v f"
      using put_range [OF w(5) [OF m(1)] assms(3)] w(6) [OF m(1)] assms(4) m(2) by auto
    let ?a1 = "?a\<lparr>filled_bits := (filled_bits a)[m := f]\<rparr>"
    obtain bs where bs: "bs_new l = Some bs" "bs_level bs = Suc m"
      using bs_new_level [OF assms(2)] Suc by auto
    have "filled_status_mut ?a bs (\<lambda>x. set_bits_to x s e v) = Some ?a1"
      using w(2) m(1) f(1) by (simp add: filled_status_mut_pos [OF bs(2)] vec_upd_eq)
    moreover have "wf_alloc ?a1 n" using wf_alloc_filled [OF wa m(1), of "{s..<e}" v f] f(2) by simp
    ultimately show ?thesis
      using o oc bs(1) Suc by (intro exI [of _ ?a1]) (auto simp: bits_per_word_def)
  qed
qed

declare mark_levels.simps(2) [simp del]

lemma mark_levels_lower:
  assumes "wf_alloc a n" and "l < 4" and "s \<le> e" and "e \<le> n * 32 ^ (3 - l)"
  shows "\<exists>a'. mark_levels False v (Suc l) a s e = Some a' \<and> wf_alloc a' n \<and>
     (\<forall>k<4. occ a' k = (if k \<le> l then upd_set v {s * 32 ^ (l - k)..<e * 32 ^ (l - k)} (occ a k)
       else occ a k)) \<and>
     (\<forall>k. k < 3 \<longrightarrow> l < Suc k \<longrightarrow> filled_bits a' ! k = filled_bits a ! k)"
  using assms
proof (induction l arbitrary: a s e)
  case 0
  then show ?case using mark_levels_step [of a n 0 s e v] by auto
next
  case (Suc l)
  obtain a1 where a1: "mark_levels False v (Suc (Suc l)) a s e = mark_levels False v (Suc l) a1 (s * 32) (e * 32)"
      "wf_alloc a1 n"
      "\<forall>k<4. occ a1 k = (if k = Suc l then upd_set v {s..<e} (occ a (Suc l)) else occ a k)"
      "\<forall>k. k < 3 \<longrightarrow> Suc l < Suc k \<longrightarrow> filled_bits a1 ! k = filled_bits a ! k"
    using mark_levels_step [OF Suc.prems] by blast
  have "3 - l = Suc (3 - Suc l)" using Suc.prems(2) by simp
  then have e: "e * 32 \<le> n * 32 ^ (3 - l)" using Suc.prems(4) by simp
  have "l < 4" "s * 32 \<le> e * 32" using Suc.prems(2,3) by auto
  from Suc.IH [OF a1(2) this e] obtain a' where a': "mark_levels False v (Suc l) a1 (s * 32) (e * 32) = Some a'" "wf_alloc a' n"
      "\<forall>k<4. occ a' k = (if k \<le> l then
         upd_set v {s * 32 * 32 ^ (l - k)..<e * 32 * 32 ^ (l - k)} (occ a1 k) else occ a1 k)"
      "\<forall>k. k < 3 \<longrightarrow> l < Suc k \<longrightarrow> filled_bits a' ! k = filled_bits a1 ! k"
    by blast
  have "occ a' k = (if k \<le> Suc l then
      upd_set v {s * 32 ^ (Suc l - k)..<e * 32 ^ (Suc l - k)} (occ a k) else occ a k)" if "k < 4" for k
  proof (cases "k \<le> l")
    case True
    then have "(32 :: nat) ^ (Suc l - k) = 32 * 32 ^ (l - k)" by (simp add: Suc_diff_le)
    then show ?thesis using True a'(3) a1(3) that by (simp add: mult.assoc)
  next
    case False
    then show ?thesis using a'(3) a1(3) that by (cases "k = Suc l") auto
  qed
  then show ?case using a1(1,4) a'(1,2,4) by auto
qed

lemma is_word_set_total: "wf_ba b \<Longrightarrow> \<exists>t. is_word_set b i = Some t"
  by (cases "i < num_bits b") (auto simp: is_word_set_def vec_get_def word_index)

lemma put_single:
  assumes "wf_ba b" and "i < num_bits b"
  shows "\<exists>b'. ba_set b i = Some b' \<and> put b {i} True b' \<and> bits b' = insert i (bits b)"
proof -
  have "{i} \<inter> {..<num_bits b} = {i}" using assms(2) by auto
  then show ?thesis using set_to_put [OF assms(1), of i True] by (auto simp: ba_set_def put_def)
qed

lemma filled_status_total:
  assumes "wf_alloc a n"
  shows "\<exists>f. filled_status a bs = Some f \<and> wf_ba f"
  using wf_allocD [OF assms] by (cases bs) (auto simp: filled_status_def vec_get_def)

lemma mark_super_lower:
  assumes "wf_alloc a n" and "level < 4" and "addr < MAX_PHYS_ADDR_4K" and "addr < n * 2 ^ 27"
  shows "\<exists>a'. mark_super addr sz level a = Some a' \<and> wf_alloc a' n \<and>
     (\<forall>k<4. occ a' k = (if k = level \<and> bs_level sz < level then insert (addr div (4096 * 32 ^ k)) (occ a k)
       else occ a k))"
proof -
  note w = wf_allocD [OF assms(1)]
  obtain bs where bs: "bs_new level = Some bs" "bs_level bs = level"
    using bs_new_level [OF assms(2)] by blast
  have in_range: "addr div (4096 * 32 ^ l) < n * 32 ^ (3 - l)" if "l < 4" for l
  proof -
    have p: "(32 :: nat) ^ l * 32 ^ (3 - l) = 32768"
      using that by (simp add: power_add [symmetric])
    have "n * 32 ^ (3 - l) * (4096 * 32 ^ l) = n * (4096 * (32 ^ l * 32 ^ (3 - l)))"
      by (simp only: ac_simps)
    then have "addr < n * 32 ^ (3 - l) * (4096 * 32 ^ l)" using assms(4) by (simp only: p) simp
    then show ?thesis by (rule less_mult_imp_div_less)
  qed
  let ?i = "addr div (4096 * 32 ^ level)"
  have ix: "block_index addr (bs_bytes bs) = ?i"
    using assms(3) by (simp add: block_index_def bs_bytes_level bs)
  obtain b where b: "ba_set (occupied_status a ! level) ?i = Some b"
      "put (occupied_status a ! level) {?i} True b" "bits b = insert ?i (occ a level)"
    using put_single [OF w(3) [OF assms(2)], of ?i] w(4) in_range assms(2) by auto
  define a1 where "a1 = (if level > bs_level sz then
      a\<lparr>occupied_status := (occupied_status a)[level := b]\<rparr> else a)"
  have s1: "(if level > bs_level sz then occupied_mut False a level
      (\<lambda>b. ba_set b (block_index addr (bs_bytes bs))) else Some a) = Some a1"
    using w(1) assms(2) b(1) by (simp add: a1_def occupied_mut_def vec_upd_eq ix)
  have w1: "wf_alloc a1 n" using assms(1) wf_alloc_occ [OF assms(1,2) b(2)] by (simp add: a1_def)
  have o1: "\<forall>k<4. occ a1 k = (if k = level \<and> bs_level sz < level
      then insert (addr div (4096 * 32 ^ k)) (occ a k) else occ a k)"
    using w(1) assms(2) b(3) by (auto simp: a1_def nth_list_update)
  obtain f t where f: "filled_status a1 bs = Some f"
      "is_word_set f (block_index addr (bs_bytes bs)) = Some t"
    using filled_status_total [OF w1, of bs] is_word_set_total by blast
  show ?thesis
  proof (cases "t \<and> level + 1 < total_sizes")
    case True
    then have l: "level < 3" "Suc level < 4" by (simp_all add: total_sizes_def)
    obtain bs' where bs': "bs_new (Suc level) = Some bs'" "bs_level bs' = Suc level"
      using bs_new_level [OF l(2)] by blast
    let ?j = "addr div (4096 * 32 ^ Suc level)"
    have jx: "block_index addr (bs_bytes bs') = ?j"
      using assms(3) by (simp add: block_index_def bs_bytes_level bs')
    note w1d = wf_allocD [OF w1]
    have "?j < num_bits (filled_bits a1 ! level)"
      using in_range [OF l(2)] w1d(6) [OF l(1)] by simp
    then obtain g where g: "ba_set (filled_bits a1 ! level) ?j = Some g"
        "put (filled_bits a1 ! level) {?j} True g"
      using put_single [OF w1d(5) [OF l(1)]] by blast
    let ?a' = "a1\<lparr>filled_bits := (filled_bits a1)[level := g]\<rparr>"
    have "filled_status_mut a1 bs' (\<lambda>b. ba_set b ?j) = Some ?a'"
      using w1d(2) l(1) g(1) by (simp add: filled_status_mut_pos [OF bs'(2)] vec_upd_eq)
    then have "mark_super addr sz level a = Some ?a'"
      using True s1 f bs(1) bs'(1) assms(3) by (simp add: mark_super_def Let_def jx)
    then show ?thesis using wf_alloc_filled [OF w1 l(1) g(2)] o1 by auto
  next
    case False
    then have "mark_super addr sz level a = Some a1"
      using s1 f bs(1) assms(3) by (auto simp: mark_super_def Let_def)
    then show ?thesis using w1 o1 by auto
  qed
qed

lemma mark_supers_lower:
  assumes "wf_alloc a n" and "level + m \<le> 4" and "addr < MAX_PHYS_ADDR_4K" and "addr < n * 2 ^ 27"
  shows "\<exists>a'. mark_supers addr sz level m a = Some a' \<and> wf_alloc a' n \<and>
     (\<forall>k<4. occ a' k = (if level \<le> k \<and> k < level + m \<and> bs_level sz < k
       then insert (addr div (4096 * 32 ^ k)) (occ a k) else occ a k))"
  using assms(1,2)
proof (induction m arbitrary: a level)
  case 0
  then show ?case by (intro exI [of _ a]) auto
next
  case (Suc m)
  have "level < 4" using Suc.prems(2) by simp
  then obtain a1 where a1: "mark_super addr sz level a = Some a1" "wf_alloc a1 n"
      "\<forall>k<4. occ a1 k = (if k = level \<and> bs_level sz < level then insert (addr div (4096 * 32 ^ k)) (occ a k)
         else occ a k)"
    using mark_super_lower [OF Suc.prems(1) _ assms(3,4)] by blast
  have "Suc level + m \<le> 4" using Suc.prems(2) by simp
  from Suc.IH [OF a1(2) this] obtain a' where a': "mark_supers addr sz (Suc level) m a1 = Some a'"
      "wf_alloc a' n"
      "\<forall>k<4. occ a' k = (if Suc level \<le> k \<and> k < Suc level + m \<and> bs_level sz < k
         then insert (addr div (4096 * 32 ^ k)) (occ a1 k) else occ a1 k)"
    by blast
  have "occ a' k = (if level \<le> k \<and> k < level + Suc m \<and> bs_level sz < k
      then insert (addr div (4096 * 32 ^ k)) (occ a k) else occ a k)" if "k < 4" for k
    using a'(3) [rule_format, OF that] a1(3) [rule_format, OF that]
    by (cases "k = level") auto
  then show ?case using a1(1) a'(1,2) by auto
qed

text \<open>The bits that stand for block \<open>i\<close> of level \<open>l\<close> at level \<open>k\<close>.\<close>

definition span :: "nat \<Rightarrow> nat \<Rightarrow> nat \<Rightarrow> nat set" where
  "span l i k = (if k \<le> l then {i * 32 ^ (l - k)..<Suc i * 32 ^ (l - k)} else {i div 32 ^ (k - l)})"

lemma block_address:
  assumes "l < 4" and "i < n * 32 ^ (3 - l)"
  shows "i * (4096 * 32 ^ l) < n * 2 ^ 27"
    and "(Suc i) * (4096 * 32 ^ l) \<le> n * 2 ^ 27"
proof -
  have p: "(32 :: nat) ^ l * 32 ^ (3 - l) = 32768" using assms(1) by (simp add: power_add [symmetric])
  have e: "n * 32 ^ (3 - l) * (4096 * 32 ^ l) = n * (4096 * (32 ^ l * 32 ^ (3 - l)))"
    by (simp only: ac_simps)
  have "Suc i * (4096 * 32 ^ l) \<le> n * 32 ^ (3 - l) * (4096 * 32 ^ l)"
    by (rule mult_right_mono) (use assms(2) in simp_all)
  then show "(Suc i) * (4096 * 32 ^ l) \<le> n * 2 ^ 27" using e by (simp only: p) simp
  moreover have "i * (4096 * 32 ^ l) < Suc i * (4096 * 32 ^ l)" by simp
  ultimately show "i * (4096 * 32 ^ l) < n * 2 ^ 27" by (rule less_le_trans [rotated])
qed

lemma mark_used_lower:
  assumes "wf_alloc a n" and "i < n * 32 ^ (3 - bs_level sz)"
  shows "\<exists>a'. mark_used a (i * bs_bytes sz) sz = Some a' \<and> wf_alloc a' n \<and>
     (\<forall>k<4. occ a' k = occ a k \<union> span (bs_level sz) i k)"
proof -
  let ?l = "bs_level sz" and ?ad = "i * bs_bytes sz"
  have l: "?l < 4" by (rule bs_level_less)
  have ad: "?ad < n * 2 ^ 27" using block_address(1) [OF l assms(2)] by (simp add: bs_bytes_level)
  moreover have "n * 2 ^ 27 \<le> 32 * 2 ^ 27" using assms(1) by (simp add: wf_alloc_def)
  ultimately have lo: "?ad < MAX_PHYS_ADDR_4K" by (simp add: MAX_PHYS_ADDR_4K_def)
  have ix: "block_index ?ad (bs_bytes sz) = i"
    using lo by (simp add: block_index_def bs_bytes_level)
  have "Suc i \<le> n * 32 ^ (3 - ?l)" using assms(2) by simp
  from mark_levels_lower [OF assms(1) l _ this, of i True] obtain a1 where
    a1: "mark_levels False True (Suc ?l) a i (Suc i) = Some a1" "wf_alloc a1 n"
      "\<forall>k<4. occ a1 k = (if k \<le> ?l then upd_set True {i * 32 ^ (?l - k)..<Suc i * 32 ^ (?l - k)} (occ a k)
         else occ a k)"
    by auto
  have "?l + (4 - ?l) \<le> 4" using l by simp
  from mark_supers_lower [OF a1(2) this lo ad, of sz] obtain a' where
    a': "mark_supers ?ad sz ?l (4 - ?l) a1 = Some a'" "wf_alloc a' n"
      "\<forall>k<4. occ a' k = (if ?l \<le> k \<and> k < ?l + (4 - ?l) \<and> ?l < k
         then insert (?ad div (4096 * 32 ^ k)) (occ a1 k) else occ a1 k)"
    by blast
  have "occ a' k = occ a k \<union> span ?l i k" if "k < 4" for k
  proof (cases "k \<le> ?l")
    case True
    then show ?thesis
      using a'(3) a1(3) that by (simp add: span_def upd_set_def)
  next
    case False
    then have "(4096 :: nat) * 32 ^ k = 32 ^ (k - ?l) * (4096 * 32 ^ ?l)"
      by (simp add: power_add [symmetric])
    then have "?ad div (4096 * 32 ^ k) = i div 32 ^ (k - ?l)"
      by (simp only: bs_bytes_level) simp
    then show ?thesis using False a'(3) a1(3) that by (simp add: span_def)
  qed
  moreover have "mark_used a ?ad sz = Some a'"
    using lo a1(1) a'(1) ix by (simp add: mark_used_def Let_def total_sizes_def)
  ultimately show ?thesis using a'(2) by blast
qed

lemma mark_free_lower:
  assumes "wf_alloc a n" and "i < n * 32 ^ (3 - bs_level sz)"
  shows "\<exists>a'. mark_free a (i * bs_bytes sz) sz = Some a' \<and> wf_alloc a' n \<and>
     (\<forall>k<4. occ a' k = (if k \<le> bs_level sz then occ a k - span (bs_level sz) i k else occ a k)) \<and>
     (\<forall>k. k < 3 \<longrightarrow> bs_level sz < Suc k \<longrightarrow> filled_bits a' ! k = filled_bits a ! k)"
proof -
  let ?l = "bs_level sz" and ?ad = "i * bs_bytes sz"
  have l: "?l < 4" by (rule bs_level_less)
  have "?ad < n * 2 ^ 27" using block_address(1) [OF l assms(2)] by (simp add: bs_bytes_level)
  moreover have "n * 2 ^ 27 \<le> 32 * 2 ^ 27" using assms(1) by (simp add: wf_alloc_def)
  ultimately have lo: "?ad < MAX_PHYS_ADDR_4K" by (simp add: MAX_PHYS_ADDR_4K_def)
  have ix: "block_index ?ad (bs_bytes sz) = i"
    using lo by (simp add: block_index_def bs_bytes_level)
  have "Suc i \<le> n * 32 ^ (3 - ?l)" using assms(2) by simp
  from mark_levels_lower [OF assms(1) l _ this, of i False] obtain a' where
    a': "mark_levels False False (Suc ?l) a i (Suc i) = Some a'" "wf_alloc a' n"
      "\<forall>k<4. occ a' k = (if k \<le> ?l then upd_set False {i * 32 ^ (?l - k)..<Suc i * 32 ^ (?l - k)} (occ a k)
         else occ a k)"
      "\<forall>k. k < 3 \<longrightarrow> ?l < Suc k \<longrightarrow> filled_bits a' ! k = filled_bits a ! k"
    by auto
  have "mark_free a ?ad sz = Some a'" using lo a'(1) ix by (simp add: mark_free_def Let_def)
  then show ?thesis using a'(2-4) by (auto simp: upd_set_def span_def)
qed

section \<open>Nesting of blocks\<close>

lemma div_range: "x div 32 \<in> {i * p..<Suc i * p} \<longleftrightarrow> x \<in> {i * (32 * p)..<Suc i * (32 * p)}" for x :: nat
proof -
  have "i * p \<le> x div 32 \<longleftrightarrow> i * p * 32 \<le> x" by (rule less_eq_div_iff_mult_less_eq) simp
  moreover have "x div 32 < Suc i * p \<longleftrightarrow> x < Suc i * p * 32" by (rule div_less_iff_less_mult) simp
  ultimately show ?thesis by (simp only: atLeastLessThan_iff mult.assoc mult.commute [of p 32])
qed

lemma span_super:
  assumes "Suc k \<le> l"
  shows "x div 32 \<in> span l i (Suc k) \<longleftrightarrow> x \<in> span l i k"
proof -
  have "(32 :: nat) ^ (l - k) = 32 * 32 ^ (l - Suc k)"
    using assms by (simp add: Suc_diff_le power_Suc [symmetric] del: power_Suc)
  then show ?thesis using assms div_range [of x i "32 ^ (l - Suc k)"] by (simp add: span_def)
qed

lemma span_up:
  assumes "x \<in> span l i k"
  shows "x div 32 \<in> span l i (Suc k)"
proof (cases "Suc k \<le> l")
  case True
  then show ?thesis using assms by (simp add: span_super)
next
  case False
  then show ?thesis
    using assms by (auto simp: span_def div_mult2_eq [symmetric] Suc_diff_le mult.commute split: if_splits)
qed

lemma super_closed_used:
  assumes "super_closed a" and "\<forall>k<4. occ a' k = occ a k \<union> span l i k"
  shows "super_closed a'"
  unfolding super_closed_def
proof (intro allI impI ballI)
  fix k x assume k: "k < 3" and x: "x \<in> occ a' k"
  then have "x div 32 \<in> occ a (Suc k) \<union> span l i (Suc k)"
    using assms by (auto simp: super_closed_def dest: span_up)
  then show "x div 32 \<in> occ a' (Suc k)" using assms(2) k by simp
qed

lemma super_closed_free:
  assumes "super_closed a"
    and "\<forall>k<4. occ a' k = (if k \<le> l then occ a k - span l i k else occ a k)"
  shows "super_closed a'"
  unfolding super_closed_def
proof (intro allI impI ballI)
  fix k x assume k: "k < 3" and x: "x \<in> occ a' k"
  then have "x \<in> occ a k" "k \<le> l \<longrightarrow> x \<notin> span l i k" using assms(2) by (auto split: if_splits)
  moreover from this have "x div 32 \<in> occ a (Suc k)" using assms(1) k by (simp add: super_closed_def)
  ultimately show "x div 32 \<in> occ a' (Suc k)" using assms(2) k span_super [of k l x i] by auto
qed

lemma occ_up:
  assumes "super_closed a" and "x \<in> occ a 0"
  shows "l < 4 \<Longrightarrow> x div 32 ^ l \<in> occ a l"
proof (induction l)
  case 0
  then show ?case using assms(2) by simp
next
  case (Suc l)
  then have "x div 32 ^ l div 32 \<in> occ a (Suc l)" using assms(1) by (simp add: super_closed_def)
  then show ?case by (simp add: div_mult2_eq [symmetric] mult.commute)
qed

lemma free_block_free_frames:
  assumes "super_closed a" and "l < 4" and "i \<notin> occ a l"
  shows "span l i 0 \<inter> occ a 0 = {}"
proof -
  have "x div 32 ^ l = i" if "x \<in> span l i 0" for x
    using that by (intro div_nat_eqI) (auto simp: span_def mult.commute)
  then show ?thesis using occ_up [OF assms(1) _ assms(2)] assms(3) by auto
qed

section \<open>The search\<close>

lemma try_blocks_total:
  assumes "wf_ba (it_array it)" and "num_bits (it_array it) - it_index it < m"
    and "\<And>i. \<exists>x. search i = Some x \<and> (\<forall>y. x = Some y \<longrightarrow> Q y)"
  shows "\<exists>x. try_blocks search base m it = Some x \<and> (\<forall>y. x = Some y \<longrightarrow> Q y)"
  using assms(1,2)
proof (induction m arbitrary: it)
  case 0
  then show ?case by simp
next
  case (Suc m)
  let ?r = "find (matches (it_filter it) (it_array it)) [it_index it..<num_bits (it_array it)]"
  obtain i where i: "it_next it = Some (?r, it\<lparr>it_index := i\<rparr>)"
      "case ?r of None \<Rightarrow> num_bits (it_array it) \<le> i | Some n \<Rightarrow> i = n + 1"
    using it_next_find [OF Suc.prems(1)] by blast
  show ?case
  proof (cases ?r)
    case None
    then show ?thesis using i(1) by auto
  next
    case (Some b)
    obtain x where x: "search (base + b) = Some x" "\<forall>y. x = Some y \<longrightarrow> Q y" using assms(3) by blast
    have "b \<in> set [it_index it..<num_bits (it_array it)]" using Some by (auto simp: find_Some_iff)
    then have "num_bits (it_array it) - i < m" using Suc.prems(2) i(2) Some by auto
    then obtain x' where "try_blocks search base m (it\<lparr>it_index := i\<rparr>) = Some x'" "\<forall>y. x' = Some y \<longrightarrow> Q y"
      using Suc.IH [of "it\<lparr>it_index := i\<rparr>"] Suc.prems(1) by auto
    then show ?thesis using i(1) Some x by (cases x) auto
  qed
qed

lemma it_next_zero:
  assumes "wf_ba b"
  shows "\<exists>it r. it_next (start_from s b Zero) = Some (r, it) \<and>
     (\<forall>i. r = Some i \<longrightarrow> i < num_bits b \<and> i \<notin> bits b)"
proof -
  let ?it = "start_from s b Zero"
  have w: "wf_ba (it_array ?it)" using assms by (simp add: start_from_def)
  let ?r = "find (matches Zero b) [min s (num_bits b)..<num_bits b]"
  obtain i where "it_next ?it = Some (?r, ?it\<lparr>it_index := i\<rparr>)"
    using it_next_find [OF w] by (auto simp: start_from_def)
  moreover have "i < num_bits b \<and> i \<notin> bits b" if "?r = Some i" for i
  proof -
    have "matches Zero b i" "i \<in> set [min s (num_bits b)..<num_bits b]"
      using that by (auto simp: find_Some_iff)
    then show ?thesis by (simp add: matches_simps)
  qed
  ultimately show ?thesis by blast
qed

text \<open>The search returns, and what it finds is a free block.\<close>

definition free_block :: "PhysPageAllocator \<Rightarrow> BlockSize \<Rightarrow> nat \<Rightarrow> bool" where
  "free_block a sz addr \<longleftrightarrow> (\<exists>i < num_bits (occupied_status a ! bs_level sz).
     addr = i * bs_bytes sz \<and> i \<notin> occ a (bs_level sz))"

lemma find_block_from_total:
  assumes "wf_alloc a n" and "level < 4" and "bs_level sz \<le> level"
  shows "\<exists>x. find_block_from a sz level s = Some x \<and> (\<forall>y. x = Some y \<longrightarrow> free_block a sz y)"
  using assms(2,3)
proof (induction level arbitrary: s)
  case 0
  note w = wf_allocD [OF assms(1)]
  obtain it r where r: "it_next (start_from s (occupied_status a ! 0) Zero) = Some (r, it)"
      "\<forall>i. r = Some i \<longrightarrow> i < num_bits (occupied_status a ! 0) \<and> i \<notin> occ a 0"
    using it_next_zero [OF w(3) [of 0], of s] by auto
  then show ?case using 0 w(1) by (auto simp: vec_get_def free_block_def)
next
  case (Suc level)
  note w = wf_allocD [OF assms(1)]
  show ?case
  proof (cases "bs_level sz = Suc level")
    case True
    obtain it r where r: "it_next (start_from s (occupied_status a ! Suc level) Zero) = Some (r, it)"
        "\<forall>i. r = Some i \<longrightarrow> i < num_bits (occupied_status a ! Suc level) \<and> i \<notin> occ a (Suc level)"
      using it_next_zero [OF w(3) [OF Suc.prems(1)]] by blast
    then show ?thesis using True Suc.prems w(1) by (auto simp: vec_get_def free_block_def)
  next
    case False
    obtain bs where bs: "bs_new (Suc level) = Some bs" using bs_new_level [OF Suc.prems(1)] by blast
    obtain f where f: "filled_status a bs = Some f" "wf_ba f"
      using filled_status_total [OF assms(1)] by blast
    have "\<exists>x. find_block_from a sz level i = Some x \<and> (\<forall>y. x = Some y \<longrightarrow> free_block a sz y)" for i
      using Suc.IH False Suc.prems by simp
    then have "\<exists>x. try_blocks (find_block_from a sz level) (bits_per_word * s) (num_bits f + 1)
        (start_from s f Zero) = Some x \<and> (\<forall>y. x = Some y \<longrightarrow> free_block a sz y)"
      by (intro try_blocks_total) (auto simp: start_from_def f(2))
    then show ?thesis using False bs f(1) by simp
  qed
qed

section \<open>Properties\<close>

text \<open>The invariant of the allocator, and the 4 KiB frames that are used or belong to a block.\<close>

definition alloc_inv :: "PhysPageAllocator \<Rightarrow> nat \<Rightarrow> bool" where
  "alloc_inv a n \<longleftrightarrow> wf_alloc a n \<and> super_closed a"

definition used_frames :: "PhysPageAllocator \<Rightarrow> nat set" where
  "used_frames a = occ a 0"



lemma free_blockD:
  assumes "alloc_inv a n" and "free_block a sz addr"
  obtains i where "addr = i * bs_bytes sz" "i < n * 32 ^ (3 - bs_level sz)" "i \<notin> occ a (bs_level sz)"
  using assms wf_allocD(4) [of a n "bs_level sz"] bs_level_less [of sz]
  by (auto simp: free_block_def alloc_inv_def)

lemma blocks_of_whole:
  "blocks_of (n * 2 ^ 27) sz = n * 32 ^ (3 - bs_level sz)"
proof -
  have e: "n * 2 ^ 27 = n * 32 ^ (3 - bs_level sz) * bs_bytes sz" by (cases sz) simp_all
  have "0 < bs_bytes sz" by (cases sz) simp_all
  then show ?thesis unfolding blocks_of_def align_def is_aligned_def e by simp
qed

lemma all_less_numeral:
  "(\<forall>l<4. P l) \<longleftrightarrow> P 0 \<and> P 1 \<and> P 2 \<and> P (3 :: nat)" "(\<forall>l<3. P l) \<longleftrightarrow> P 0 \<and> P 1 \<and> P (2 :: nat)"
  by (auto simp: less_Suc_eq numeral_eq_Suc)

text \<open>A memory of \<open>n\<close> times 128 MiB in which all blocks or none are used.\<close>

lemma uniform_alloc_inv:
  assumes "n \<le> 32" and "length (occupied_status a) = 4" and "length (filled_bits a) = 3"
    and "\<forall>l<4. occupied_status a ! l = ba_new (n * 32 ^ (3 - l)) v"
    and "\<forall>l<3. filled_bits a ! l = ba_new (n * 32 ^ (2 - l)) v"
  shows "alloc_inv a n" and "used_frames a = (if v then {..<n * 32 ^ 3} else {})"
proof -
  have "wf_alloc a n"
    using assms by (simp add: wf_alloc_def ba_new_bits)
  moreover have "super_closed a"
    unfolding super_closed_def
  proof (intro allI impI ballI)
    fix l i assume l: "l < 3" and i: "i \<in> occ a l"
    have "3 - l = Suc (2 - l)" using l by simp
    then have "v \<and> i < n * 32 ^ (2 - l) * 32"
      using assms(4) l i by (simp add: ba_new_bits split: if_splits)
    then show "i div 32 \<in> occ a (Suc l)"
      using assms(4) l by (simp add: ba_new_bits less_mult_imp_div_less)
  qed
  ultimately show "alloc_inv a n" by (simp add: alloc_inv_def)
  show "used_frames a = (if v then {..<n * 32 ^ 3} else {})"
    using assms(4) by (simp add: used_frames_def ba_new_bits)
qed

lemma new_allocator_inv:
  assumes "n \<le> 32"
  shows "alloc_inv (new_allocator (n * 2 ^ 27)) n" and "used_frames (new_allocator (n * 2 ^ 27)) = {}"
proof -
  have "n * 2 ^ 27 \<le> 32 * 2 ^ 27" using assms by simp
  then have m: "min (n * 2 ^ 27) MAX_PHYS_ADDR_4K = n * 2 ^ 27" by (simp add: MAX_PHYS_ADDR_4K_def)
  have "\<forall>l<4. occupied_status (new_allocator (n * 2 ^ 27)) ! l = ba_new (n * 32 ^ (3 - l)) False"
    "\<forall>l<3. filled_bits (new_allocator (n * 2 ^ 27)) ! l = ba_new (n * 32 ^ (2 - l)) False"
    unfolding all_less_numeral new_allocator_def Let_def m PhysPageAllocator.simps list.map blocks_of_whole
    by simp_all
  from uniform_alloc_inv [OF assms _ _ this]
  show "alloc_inv (new_allocator (n * 2 ^ 27)) n" "used_frames (new_allocator (n * 2 ^ 27)) = {}"
    by (simp_all add: new_allocator_def Let_def)
qed


lemma it_next_fresh:
  assumes "0 < n"
  shows "\<exists>it. it_next (start_from 0 (ba_new n False) Zero) = Some (Some 0, it)"
proof -
  have "find (matches Zero (ba_new n False)) [0..<n] = Some 0"
    using assms by (simp add: upt_conv_Cons matches_simps ba_new_bits)
  then show ?thesis
    using it_next_find [of "start_from 0 (ba_new n False) Zero"]
    by (auto simp: start_from_def ba_new_bits(1)) (auto simp: ba_new_def)
qed

lemma small_allocator_inv: "alloc_inv small_allocator 1" "used_frames small_allocator = {}"
  using new_allocator_inv [of 1] by (simp_all add: small_allocator_def)

lemma find_block_fresh: "find_block small_allocator Block4k = Some (Some 0)"
proof -
  have m: "min (2 ^ 27) MAX_PHYS_ADDR_4K = 1 * 2 ^ 27" by (simp add: MAX_PHYS_ADDR_4K_def)
  have b: "occupied_status small_allocator = map (\<lambda>l. ba_new (32 ^ (3 - l)) False) [0, 1, 2, 3]"
    "filled_bits small_allocator = map (\<lambda>l. ba_new (32 ^ (2 - l)) False) [0, 1, 2]"
    unfolding small_allocator_def new_allocator_def Let_def m PhysPageAllocator.simps list.map
      blocks_of_whole by simp_all
  obtain i0 i1 i2 i3 where "it_next (start_from 0 (ba_new 1 False) Zero) = Some (Some 0, i0)"
    "it_next (start_from 0 (ba_new 32 False) Zero) = Some (Some 0, i1)"
    "it_next (start_from 0 (ba_new 1024 False) Zero) = Some (Some 0, i2)"
    "it_next (start_from 0 (ba_new 32768 False) Zero) = Some (Some 0, i3)"
    using it_next_fresh [of 1] it_next_fresh [of 32] it_next_fresh [of 1024] it_next_fresh [of 32768]
    by auto
  then show ?thesis
    by (simp add: find_block_def total_sizes_def numeral_3_eq_3 bs_new_def filled_status_def vec_get_def b)
qed


text \<open>
  C16. A block that was allocated and is released is free again, the rest of the memory is as it was:
  the frames in use are the same as before the allocation. Releasing it twice panics.
\<close>

theorem phys_release_roundtrip:
  assumes "alloc_inv a n" and "pa_alloc a sz = Some (Inr (addr, sz), a1)"
  shows "\<exists>a2. pa_release a1 addr sz = Some a2 \<and> alloc_inv a2 n \<and> used_frames a2 = used_frames a \<and>
     is_block_free a2 addr sz = Some True \<and> pa_release a2 addr sz = None"
proof -
  have wf: "wf_alloc a n" and sc: "super_closed a" using assms(1) by (auto simp: alloc_inv_def)
  have l: "bs_level sz < 4" by (rule bs_level_less)
  obtain x where x: "find_block a sz = Some x" "\<forall>y. x = Some y \<longrightarrow> free_block a sz y"
    using find_block_from_total [OF wf, of "total_sizes - 1" sz 0] l
    by (auto simp: find_block_def total_sizes_def)
  have "x = Some addr" using assms(2) x(1) by (auto simp: pa_alloc_def split: option.splits bind_splits)
  then obtain i where i: "addr = i * bs_bytes sz" "i < n * 32 ^ (3 - bs_level sz)"
      "i \<notin> occ a (bs_level sz)"
    using x(2) free_blockD [OF assms(1)] by blast
  have a1: "mark_used a addr sz = Some a1"
    using assms(2) x(1) \<open>x = Some addr\<close> by (auto simp: pa_alloc_def split: bind_splits)
  then have w1: "wf_alloc a1 n" and o1: "\<forall>k<4. occ a1 k = occ a k \<union> span (bs_level sz) i k"
    using mark_used_lower [OF wf i(2)] i(1) by auto
  obtain a2 where a2: "mark_free a1 addr sz = Some a2" "wf_alloc a2 n"
      "\<forall>k<4. occ a2 k = (if k \<le> bs_level sz then occ a1 k - span (bs_level sz) i k else occ a1 k)"
    using mark_free_lower [OF w1 i(2)] i(1) by blast
  have self: "i \<in> span (bs_level sz) i (bs_level sz)" by (simp add: span_def)
  have "addr < n * 2 ^ 27" using block_address(1) [OF l i(2)] by (simp add: i(1) bs_bytes_level)
  moreover have "n * 2 ^ 27 \<le> 32 * 2 ^ 27" using wf by (simp add: wf_alloc_def)
  ultimately have lo: "addr < MAX_PHYS_ADDR_4K" by (simp add: MAX_PHYS_ADDR_4K_def)
  have ib: "is_block_free b addr sz = Some (i \<notin> occ b (bs_level sz))" if "wf_alloc b n" for b
    using lo i(1) l wf_allocD [OF that]
    by (simp add: is_block_free_def vec_get_def is_cleared_eq bs_bytes_level)
  have "is_block_free a1 addr sz = Some False" "is_block_free a2 addr sz = Some True"
    using ib [OF w1] ib [OF a2(2)] o1 a2(3) l self by auto
  moreover have "used_frames a2 = used_frames a"
    using a2(3) o1 free_block_free_frames [OF sc l i(3)] by (auto simp: used_frames_def)
  moreover have "super_closed a2"
    using super_closed_free [OF super_closed_used [OF sc o1] a2(3)] .
  ultimately show ?thesis
    using a2(1,2) by (auto simp: pa_release_def alloc_inv_def)
qed

theorem phys_release_roundtrip_witness:
  "\<exists>a1 a2. pa_alloc small_allocator Block4k = Some (Inr (0, Block4k), a1) \<and>
     pa_release a1 0 Block4k = Some a2 \<and> used_frames a2 = {} \<and> pa_release a2 0 Block4k = None"
proof -
  obtain a1 where a1: "pa_alloc small_allocator Block4k = Some (Inr (0, Block4k), a1)"
    using mark_used_lower [of small_allocator 1 0 Block4k] small_allocator_inv(1)
    by (auto simp: pa_alloc_def find_block_fresh alloc_inv_def)
  then show ?thesis
    using phys_release_roundtrip [OF small_allocator_inv(1) a1] small_allocator_inv(2) by auto
qed

text \<open>
  C32. Freed memory can be lost: releasing a frame does not clear the used-up marks of the blocks
  around it. Once every 128 MiB block is marked as used up, an allocation of a frame fails with
  \<^verbatim>\<open>OutOfMemory\<close> even though a frame has just been released.
\<close>

theorem released_frame_is_lost:
  assumes "alloc_inv a n" and "\<forall>j<n. j \<in> bits (filled_bits a ! 2)" and "i \<in> used_frames a"
  shows "\<exists>a'. pa_release a (i * 4096) Block4k = Some a' \<and> i \<notin> used_frames a' \<and>
     is_free a' (i * 4096) = Some True \<and> pa_alloc a' Block4k = Some (Inl OutOfMemory, a')"
proof -
  have wf: "wf_alloc a n" using assms(1) by (simp add: alloc_inv_def)
  note w = wf_allocD [OF wf]
  have "i < n * 32 ^ 3" using assms(3) w(4) [of 0] by (auto simp: used_frames_def bits_def)
  then obtain a' where a': "mark_free a (i * 4096) Block4k = Some a'" "wf_alloc a' n"
      "\<forall>k<4. occ a' k = (if k \<le> 0 then occ a k - span 0 i k else occ a k)"
      "\<forall>k. k < 3 \<longrightarrow> 0 < Suc k \<longrightarrow> filled_bits a' ! k = filled_bits a ! k"
    using mark_free_lower [OF wf, of i Block4k] by auto
  note w' = wf_allocD [OF a'(2)]
  have "i * 4096 < n * 2 ^ 27" using block_address(1) [of 0 i n] \<open>i < n * 32 ^ 3\<close> by simp
  moreover have "n * 2 ^ 27 \<le> 32 * 2 ^ 27" using wf by (simp add: wf_alloc_def)
  ultimately have lo: "i * 4096 < MAX_PHYS_ADDR_4K" by (simp add: MAX_PHYS_ADDR_4K_def)
  have out: "i \<notin> occ a' 0" using a'(3) by (simp add: span_def)
  have free: "is_block_free b (i * 4096) Block4k = Some (i \<notin> occ b 0)" if "wf_alloc b n" for b
    using lo wf_allocD [OF that] by (simp add: is_block_free_def vec_get_def is_cleared_eq)
  let ?f = "filled_bits a' ! 2"
  have f: "filled_status a' Block128M = Some ?f" using w'(2) by (simp add: filled_status_def vec_get_def)
  have fb: "wf_ba ?f" "num_bits ?f = n" "bits ?f = {..<n}"
    using w'(5,6) [of 2] a'(4) assms(2) by (auto simp: bits_def)
  have "find (matches Zero ?f) [0..<n] = None" by (auto simp: find_None_iff matches_simps fb(3))
  then have "\<exists>it. it_next (start_from 0 ?f Zero) = Some (None, it)"
    using it_next_find [of "start_from 0 ?f Zero"] fb by (auto simp: start_from_def)
  then have "find_block a' Block4k = Some None"
    using f by (auto simp: find_block_def total_sizes_def numeral_3_eq_3 bs_new_def)
  then have "pa_alloc a' Block4k = Some (Inl OutOfMemory, a')"
    using f fb by (simp add: pa_alloc_def total_sizes_def bs_new_def count_ones_card)
  then show ?thesis
    using a'(1) out free [OF wf] free [OF a'(2)] assms(3)
    by (auto simp: pa_release_def used_frames_def is_free_def)
qed

lemma full_allocator_inv: "alloc_inv full_allocator 1" "used_frames full_allocator = {..<32 ^ 3}"
proof -
  have "\<forall>l<4. occupied_status full_allocator ! l = ba_new (1 * 32 ^ (3 - l)) True"
    "\<forall>l<3. filled_bits full_allocator ! l = ba_new (1 * 32 ^ (2 - l)) True"
    unfolding all_less_numeral by (simp_all add: full_allocator_def numeral_3_eq_3)
  from uniform_alloc_inv [OF _ _ _ this]
  show "alloc_inv full_allocator 1" "used_frames full_allocator = {..<32 ^ 3}"
    by (simp_all add: full_allocator_def)
qed

theorem released_frame_is_lost_witness:
  "\<exists>a'. pa_release full_allocator (5 * 4096) Block4k = Some a' \<and> 5 \<notin> used_frames a' \<and>
     is_free a' (5 * 4096) = Some True \<and> pa_alloc a' Block4k = Some (Inl OutOfMemory, a')"
proof -
  have "filled_bits full_allocator ! 2 = ba_new 1 True" by (simp add: full_allocator_def)
  then show ?thesis
    using released_frame_is_lost [OF full_allocator_inv(1), of 5]
    by (simp add: full_allocator_inv(2) ba_new_bits)
qed

text \<open>
  On a machine with at most 4 GiB the failing allocation of a large block does not report an
  error but panics: the error is chosen from the marks of the memory above 4 GiB, which do not exist.
\<close>

theorem failed_large_alloc_panics:
  assumes "alloc_inv a n" and "filled_bits_upper a = []" and "2 \<le> bs_level sz"
    and "\<forall>i < n * 32 ^ (3 - bs_level sz). i \<in> occ a (bs_level sz)"
  shows "pa_alloc a sz = None"
proof -
  have wf: "wf_alloc a n" using assms(1) by (simp add: alloc_inv_def)
  have l: "bs_level sz < 4" by (rule bs_level_less)
  obtain x where x: "find_block a sz = Some x" "\<forall>y. x = Some y \<longrightarrow> free_block a sz y"
    using find_block_from_total [OF wf, of "total_sizes - 1" sz 0] l
    by (auto simp: find_block_def total_sizes_def)
  have "x = None" using x(2) free_blockD [OF assms(1)] assms(4) by (cases x) auto
  then show ?thesis
    using x(1) assms(2,3)
    by (simp add: pa_alloc_def total_sizes_def bs_new_def filled_status_upper_def vec_get_def)
qed

theorem failed_large_alloc_panics_witness: "pa_alloc full_allocator Block4M = None"
proof -
  have "filled_bits_upper full_allocator = []"
    by (simp add: full_allocator_def small_allocator_def new_allocator_def Let_def MAX_PHYS_ADDR_4K_def)
  moreover have "occ full_allocator 2 = {..<32}" by (simp add: full_allocator_def ba_new_bits)
  ultimately show ?thesis
    using failed_large_alloc_panics [OF full_allocator_inv(1), of Block4M] by simp
qed

end
