(* ===== verification/Server_Error.thy ===== *)
theory Server_Error
  imports Rust_Std
begin

text \<open>
  The error codes of the init server (\<^verbatim>\<open>servers/init_server/src/error.rs\<close>), which its managers and
  handlers return.
\<close>

datatype Error =
  Ok | BadArgument | Interrupted | Failed | NotImplemented | NotReady | NotPermitted |
  InvalidSyscall | BadRequest | KernelAccess | IllegalMemoryAccess | OutOfMemory | TooLong |
  AlreadyRegistered | NotRegistered | InvalidName | InvalidAddress | ZeroLength | InvalidPort |
  InvalidId | Overflow | DoesntExist | EndOfFile | ParseError | WouldBlock | Incomplete

end
