(* ===== verification/Addr_Space.thy ===== *)
theory Addr_Space
  imports Region Bit_Array Server_Error
begin

text \<open>
  Virtual memory of the init server: devices (\<^verbatim>\<open>device.rs\<close>), page frames and virtual pages
  (\<^verbatim>\<open>page.rs\<close>), and the address spaces with the regions mapped in them (\<^verbatim>\<open>mapping.rs\<close>), all under
  \<^verbatim>\<open>servers/init_server/src\<close>. Virtual addresses have 32 bits. A panic is \<open>None\<close>.
\<close>

section \<open>Devices\<close>

record DeviceId =
  dev_major :: "16 word"
  dev_minor :: "16 word"

definition mem_MAJOR :: "16 word" where "mem_MAJOR = 1"
definition PMEM_MINOR :: "16 word" where "PMEM_MINOR = 0"
definition pseudo_MAJOR :: "16 word" where "pseudo_MAJOR = 0"
definition NULL_MINOR :: "16 word" where "NULL_MINOR = 0"
definition ZERO_MINOR :: "16 word" where "ZERO_MINOR = 1"

definition device_new :: "32 word \<Rightarrow> DeviceId" where
  "device_new d = \<lparr>dev_major = ucast (drop_bit 16 d), dev_minor = ucast (d AND 0xFFFF)\<rparr>"

definition device_u32 :: "DeviceId \<Rightarrow> 32 word" where
  "device_u32 d = push_bit 16 (ucast (dev_major d)) OR ucast (dev_minor d)"

type_synonym device_map = "(16 word \<times> 16 word) list option"

definition device_init :: "device_map \<Rightarrow> device_map option" where
  "device_init m = (case m of Some _ \<Rightarrow> None | None \<Rightarrow> Some (Some []))"

definition device_register :: "16 word \<Rightarrow> 16 word \<Rightarrow> device_map \<Rightarrow>
    ((Error + unit) \<times> device_map) option" where
  "device_register d tid m = do {
     dev_map \<leftarrow> m;
     Some (if btm_get word_cmp d dev_map \<noteq> None then (Inl AlreadyRegistered, m)
           else (Inr (), Some (btm_insert word_cmp d tid dev_map))) }"

definition device_lookup :: "16 word \<Rightarrow> device_map \<Rightarrow> 16 word option option" where
  "device_lookup d m = do { dev_map \<leftarrow> m; Some (btm_get word_cmp d dev_map) }"

definition device_unregister :: "16 word \<Rightarrow> device_map \<Rightarrow> (16 word option \<times> device_map) option" where
  "device_unregister d m = do {
     dev_map \<leftarrow> m; Some (btm_get word_cmp d dev_map, Some (btm_remove word_cmp d dev_map)) }"

section \<open>Pages\<close>

datatype FrameSize = Small | PaeLarge | PseLarge | Huge

definition SMALL_PAGE_SIZE :: nat where "SMALL_PAGE_SIZE = 0x1000"
definition PAE_LARGE_PAGE_SIZE :: nat where "PAE_LARGE_PAGE_SIZE = 0x200000"
definition PSE_LARGE_PAGE_SIZE :: nat where "PSE_LARGE_PAGE_SIZE = 0x400000"
definition HUGE_PAGE_SIZE :: nat where "HUGE_PAGE_SIZE = 0x40000000"

fun fs_bytes :: "FrameSize \<Rightarrow> nat" where
  "fs_bytes Small = SMALL_PAGE_SIZE"
| "fs_bytes PseLarge = PSE_LARGE_PAGE_SIZE"
| "fs_bytes PaeLarge = PAE_LARGE_PAGE_SIZE"
| "fs_bytes Huge = HUGE_PAGE_SIZE"

record PhysicalFrame =
  pf_address :: "64 word"
  pf_size :: FrameSize

definition pf_new :: "64 word \<Rightarrow> FrameSize \<Rightarrow> PhysicalFrame" where
  "pf_new address sz = \<lparr>pf_address = of_nat (align_trunc (unat address) (fs_bytes sz)), pf_size = sz\<rparr>"

definition new_from_frame :: "64 word \<Rightarrow> FrameSize \<Rightarrow> PhysicalFrame option" where
  "new_from_frame n sz =
     (if unat n * fs_bytes sz < 2 ^ 64
      then Some \<lparr>pf_address = n * of_nat (fs_bytes sz), pf_size = sz\<rparr> else None)"

definition to_new_frame_size :: "PhysicalFrame \<Rightarrow> FrameSize \<Rightarrow> PhysicalFrame" where
  "to_new_frame_size f sz = pf_new (pf_address f) sz"

definition frame_components :: "PhysicalFrame \<Rightarrow> nat \<times> nat" where
  "frame_components f =
     (unat (pf_address f) div fs_bytes (pf_size f), unat (pf_address f) mod fs_bytes (pf_size f))"

definition frame_number :: "PhysicalFrame \<Rightarrow> nat" where "frame_number f = fst (frame_components f)"

definition is_valid_pmap_base :: "PhysicalFrame \<Rightarrow> bool" where
  "is_valid_pmap_base f \<longleftrightarrow> pf_address f < 0xFFFFFFFF \<and> pf_size f = Small"

datatype ConversionError = OutOfRange | WrongFrameSize

definition pmap_try_from :: "PhysicalFrame \<Rightarrow> ConversionError + 32 word" where
  "pmap_try_from f =
     (if is_valid_pmap_base f then Inr (ucast (pf_address f))
      else if pf_size f \<noteq> Small then Inl WrongFrameSize else Inl OutOfRange)"

record VirtualPage =
  vp_device :: DeviceId
  vp_offset :: "64 word"
  vp_flags :: "32 word"

definition vp_new :: "DeviceId \<Rightarrow> 64 word \<Rightarrow> 32 word \<Rightarrow> VirtualPage" where
  "vp_new dev off fl = \<lparr>vp_device = dev, vp_offset = off, vp_flags = fl\<rparr>"

definition vp_size :: "VirtualPage \<Rightarrow> nat" where
  "vp_size p =
     (let k = vp_flags p AND 0x06 in
      if k = 0 then SMALL_PAGE_SIZE else if k = 2 then PAE_LARGE_PAGE_SIZE
      else if k = 4 then HUGE_PAGE_SIZE else SMALL_PAGE_SIZE)"

definition add_offset :: "VirtualPage \<Rightarrow> 64 word \<Rightarrow> VirtualPage option" where
  "add_offset p off2 = do { off \<leftarrow> checked_add (vp_offset p) off2; Some (p\<lparr>vp_offset := off\<rparr>) }"

section \<open>Address spaces\<close>

record AddressMapping =
  base_page :: VirtualPage
  am_region :: "32 region"
  am_flags :: "32 word"

definition am_cmp :: "AddressMapping \<Rightarrow> AddressMapping \<Rightarrow> Ordering" where
  "am_cmp a b = region_cmp (am_region a) (am_region b)"

definition am_new :: "VirtualPage \<Rightarrow> 32 region \<Rightarrow> 32 word \<Rightarrow> AddressMapping" where
  "am_new p r fl = \<lparr>base_page = p, am_region = r, am_flags = fl\<rparr>"

record AddrSpace =
  root_page_map :: "32 word"
  vaddr_map :: "AddressMapping list"
  attached_threads :: "16 word list"

definition AS_READ_ONLY :: "32 word" where "AS_READ_ONLY = 0x00000001"

definition as_new :: "32 word \<Rightarrow> AddrSpace" where
  "as_new root = \<lparr>root_page_map = root, vaddr_map = [], attached_threads = []\<rparr>"

definition thread_exists :: "AddrSpace \<Rightarrow> 16 word \<Rightarrow> bool" where
  "thread_exists sp tid \<longleftrightarrow> bt_contains word_cmp tid (attached_threads sp)"

definition attach_thread :: "AddrSpace \<Rightarrow> 16 word \<Rightarrow> bool \<times> AddrSpace" where
  "attach_thread sp tid =
     (\<not> bt_contains word_cmp tid (attached_threads sp),
      sp\<lparr>attached_threads := bt_insert word_cmp tid (attached_threads sp)\<rparr>)"

definition detach_thread :: "AddrSpace \<Rightarrow> 16 word \<Rightarrow> bool \<times> AddrSpace" where
  "detach_thread sp tid =
     (bt_contains word_cmp tid (attached_threads sp),
      sp\<lparr>attached_threads := bt_remove word_cmp tid (attached_threads sp)\<rparr>)"

definition get_mapping :: "AddrSpace \<Rightarrow> 32 word \<Rightarrow> AddressMapping option" where
  "get_mapping sp addr = find (\<lambda>m. region_contains (am_region m) addr) (vaddr_map sp)"

definition contains_region :: "AddrSpace \<Rightarrow> 32 region \<Rightarrow> bool" where
  "contains_region sp r \<longleftrightarrow> list_ex (\<lambda>m. overlaps (am_region m) r) (vaddr_map sp)"

definition insert_mapping :: "AddressMapping \<Rightarrow> AddrSpace \<Rightarrow> AddrSpace" where
  "insert_mapping m sp = sp\<lparr>vaddr_map := bt_insert am_cmp m (vaddr_map sp)\<rparr>"

text \<open>
  The page-aligned end and start of the area of \<^verbatim>\<open>length\<close> bytes at an address; the addition and the
  alignment may overflow.
\<close>

definition end_address :: "32 word \<Rightarrow> 32 word \<Rightarrow> 32 word option" where
  "end_address start len = do {
     e \<leftarrow> checked_add start len;
     let a = align (unat e) SMALL_PAGE_SIZE;
     if a < 2 ^ 32 then Some (of_nat a) else None }"

definition start_address :: "32 word \<Rightarrow> 32 word" where
  "start_address start = of_nat (align_trunc (unat start) SMALL_PAGE_SIZE)"

primrec all_regions :: "AddressMapping list \<Rightarrow> 32 RegionSet \<Rightarrow> 32 RegionSet option" where
  "all_regions [] acc = Some acc"
| "all_regions (m # ms) acc = do {
     acc \<leftarrow> rs_union acc [region_clone (am_region m)]; all_regions ms acc }"

text \<open>The loop over the free regions when no address is asked for.\<close>

primrec map_free :: "32 RegionSet \<Rightarrow> VirtualPage \<Rightarrow> 32 word \<Rightarrow> 32 word \<Rightarrow> AddrSpace \<Rightarrow>
    (32 word option \<times> AddrSpace) option" where
  "map_free [] new_page fl len sp = Some (None, sp)"
| "map_free (r # rs) new_page fl len sp =
     (if (case region_length r of Some l \<Rightarrow> l < len | None \<Rightarrow> False)
      then map_free rs new_page fl len sp
      else do {
        e \<leftarrow> checked_add (reg_start r) len;
        Some (Some (reg_start r), insert_mapping (am_new new_page (region_new (reg_start r) e) fl) sp) })"

definition as_map :: "AddrSpace \<Rightarrow> 32 word option \<Rightarrow> DeviceId \<Rightarrow> 64 word \<Rightarrow> 32 word \<Rightarrow> 32 word \<Rightarrow>
    (32 word option \<times> AddrSpace) option" where
  "as_map sp addr dev off fl len =
     (let new_page = vp_new dev off fl in
      case addr of
        Some start \<Rightarrow> do {
          e \<leftarrow> end_address start len;
          let s = start_address start;
          if e \<le> s \<and> e \<noteq> memory_end then Some (None, sp)
          else
            let new_region = region_new s e in
            if contains_region sp new_region then Some (None, sp)
            else Some (Some s, insert_mapping (am_new new_page new_region fl) sp) }
      | None \<Rightarrow> do {
          rs \<leftarrow> all_regions (vaddr_map sp) [];
          map_free (rs_complement rs) new_page fl len sp })"

text \<open>The loop of \<^verbatim>\<open>unmap\<close> over what is left of the mapping \<open>m\<close>.\<close>

primrec remap_rest :: "AddressMapping \<Rightarrow> 32 RegionSet \<Rightarrow> AddrSpace \<Rightarrow> AddrSpace option" where
  "remap_rest m [] sp = Some sp"
| "remap_rest m (r # rs) sp = do {
     d \<leftarrow> checked_sub (reg_start r) (reg_start (am_region m));
     off \<leftarrow> checked_add (vp_offset (base_page m)) (ucast d);
     remap_rest m rs
       (insert_mapping (am_new ((base_page m)\<lparr>vp_offset := off\<rparr>) r (am_flags m)) sp) }"

definition as_unmap :: "AddrSpace \<Rightarrow> 32 word \<Rightarrow> 32 word \<Rightarrow> (bool \<times> AddrSpace) option" where
  "as_unmap sp start len = do {
     e \<leftarrow> end_address start len;
     let s = start_address start;
     if e > s then
       let unmapped_region = region_new s e in
       case get_mapping sp s of
         Some m \<Rightarrow> do {
           rs \<leftarrow> region_difference (am_region m) unmapped_region;
           sp \<leftarrow> remap_rest m rs (sp\<lparr>vaddr_map := bt_remove am_cmp m (vaddr_map sp)\<rparr>);
           Some (True, sp) }
       | None \<Rightarrow> Some (False, sp)
     else Some (False, sp) }"

section \<open>The registered address spaces\<close>

type_synonym addr_spaces = "(32 word \<times> AddrSpace) list option"

definition as_register :: "AddrSpace \<Rightarrow> addr_spaces \<Rightarrow> (bool \<times> addr_spaces) option" where
  "as_register sp m = do {
     aspace_map \<leftarrow> m;
     Some (if btm_get word_cmp (root_page_map sp) aspace_map = None
           then (True, Some (btm_insert word_cmp (root_page_map sp) sp aspace_map))
           else (False, m)) }"

definition as_unregister :: "32 word \<Rightarrow> addr_spaces \<Rightarrow> (AddrSpace option \<times> addr_spaces) option" where
  "as_unregister pmap m = do {
     aspace_map \<leftarrow> m;
     Some (btm_get word_cmp pmap aspace_map, Some (btm_remove word_cmp pmap aspace_map)) }"

definition lookup_tid :: "16 word \<Rightarrow> addr_spaces \<Rightarrow> AddrSpace option option" where
  "lookup_tid tid m = do {
     aspace_map \<leftarrow> m; Some (find (\<lambda>sp. thread_exists sp tid) (map snd aspace_map)) }"

text \<open>
  The initialisation asks the kernel for the root page map and the thread id of the server; \<open>None\<close>
  for one of them is the error of the system call.
\<close>

definition manager_init :: "32 word option \<Rightarrow> 16 word option \<Rightarrow> addr_spaces \<Rightarrow> addr_spaces option" where
  "manager_init page tid m = do {
     m \<leftarrow> (case m of Some _ \<Rightarrow> None | None \<Rightarrow> Some (Some []));
     page \<leftarrow> page;
     tid \<leftarrow> tid;
     (ok, m) \<leftarrow> as_register (snd (attach_thread (as_new page) tid)) m;
     if ok then Some m else None }"

section \<open>Regions that are not empty\<close>

lemma start_in_addrs: "addrs r \<noteq> {} \<Longrightarrow> reg_start r \<in> addrs r"
  by (auto simp: addrs_eq)

lemma overlaps_iff:
  assumes "addrs a \<noteq> {}" and "addrs b \<noteq> {}"
  shows "overlaps a b \<longleftrightarrow> addrs a \<inter> addrs b \<noteq> {}"
proof
  assume "overlaps a b"
  then have "reg_start b \<in> addrs a \<or> reg_start a \<in> addrs b"
    using start_in_addrs [OF assms(1)] start_in_addrs [OF assms(2)]
    by (auto simp: overlaps_def addrs_eq memory_end_def is_full_region_def memory_start_def)
  then show "addrs a \<inter> addrs b \<noteq> {}"
    using start_in_addrs [OF assms(1)] start_in_addrs [OF assms(2)] by auto
qed (auto dest: overlaps_common)

lemma region_key_addrs: "region_key a = region_key b \<Longrightarrow> addrs a = addrs b"
  by (auto simp: region_key_def addrs_eq)

definition separate :: "'a::len region \<Rightarrow> 'a region \<Rightarrow> bool" where
  "separate a b \<longleftrightarrow> addrs a \<inter> addrs b = {}"

lemma region_intersection_pieces:
  assumes "addrs a \<noteq> {}" and "addrs b \<noteq> {}" and "d \<in> set (region_intersection a b)"
  shows "wf_region d" and "addrs d = addrs a \<inter> addrs b" and "addrs d \<noteq> {}"
proof -
  have o: "overlaps a b" using assms(3) by (auto simp: region_intersection_def split: if_splits)
  then have "region_intersection a b = [d]"
    using assms(3) by (auto simp: region_intersection_def Let_def)
  then show "addrs d = addrs a \<inter> addrs b" using region_intersection_addrs [of a b] by simp
  then show "addrs d \<noteq> {}" using o overlaps_iff [OF assms(1,2)] by simp
  show "wf_region d" using assms(3) by (auto simp: region_intersection_def Let_def split: if_splits)
qed

lemma region_difference_pieces:
  assumes "wf_region b" and "addrs b \<noteq> {}" and "addrs a \<noteq> {}"
  shows "\<exists>ds. region_difference a b = Some ds \<and> set_addrs ds = addrs a - addrs b \<and>
     (\<forall>d\<in>set ds. wf_region d \<and> addrs d \<noteq> {} \<and> addrs d \<subseteq> addrs a) \<and> sorted_wrt separate ds"
proof -
  obtain ds where ds: "region_difference a b = Some ds" "set_addrs ds = addrs a - addrs b"
    using region_difference_addrs [OF assms(1)] by blast
  have ne: "addrs q \<noteq> {}" if "q \<in> set (region_complement b)" for q
  proof -
    have "0 \<in> addrs q \<or> reg_end b \<in> addrs q"
      using that by (auto simp: region_complement_def addrs_new memory_start_def memory_end_def
          word_gt_0 split: if_splits)
    then show ?thesis by auto
  qed
  have sub: "\<exists>q\<in>set (region_complement b). d \<in> set (region_intersection a q)" if "d \<in> set ds" for d
    using ds(1) that
    by (auto simp: region_difference_def Let_def region_complement_def split: if_splits)
  have "wf_region d \<and> addrs d \<noteq> {} \<and> addrs d \<subseteq> addrs a" if "d \<in> set ds" for d
    using sub [OF that] region_intersection_pieces [OF assms(3) ne] by blast
  moreover have "sorted_wrt separate ds"
  proof (cases "reg_start b \<noteq> 0 \<and> reg_end b \<noteq> 0")
    case True
    let ?p = "region_new memory_start (reg_start b)" and ?q = "region_new (reg_end b) memory_end"
    have c: "region_complement b = [?p, ?q]"
      using True by (simp add: region_complement_def memory_start_def memory_end_def)
    have "addrs ?p \<inter> addrs ?q = {}"
      using True assms(1) by (auto simp: addrs_new memory_start_def memory_end_def wf_region_def)
    then have "separate d d'"
      if "d \<in> set (region_intersection a ?p)" "d' \<in> set (region_intersection a ?q)" for d d'
      using region_intersection_pieces(2) [OF assms(3) ne that(1)]
        region_intersection_pieces(2) [OF assms(3) ne that(2)] c by (auto simp: separate_def)
    moreover have "ds = region_intersection a ?p @ region_intersection a ?q"
      using ds(1) c by (simp add: region_difference_def)
    moreover have "sorted_wrt separate (region_intersection a q)" for q
      by (simp add: region_intersection_def Let_def)
    ultimately show ?thesis by (simp add: sorted_wrt_append)
  next
    case False
    then have "length (region_complement b) \<le> 1"
      by (auto simp: region_complement_def memory_start_def memory_end_def)
    then consider "region_complement b = []" | q where "region_complement b = [q]"
      by (cases "region_complement b") auto
    then show ?thesis
      using ds(1) by cases (auto simp: region_difference_def region_intersection_def Let_def)
  qed
  ultimately show ?thesis using ds by blast
qed

section \<open>What an address space maps\<close>

interpretation mappings: keyed am_cmp "\<lambda>m. region_key (am_region m)"
  by unfold_locales (simp add: am_cmp_def region_cmp_key)

text \<open>What a mapping says about an address: the device, the offset in it and the flags.\<close>

definition mapping_entry :: "AddressMapping \<Rightarrow> 32 word \<Rightarrow> DeviceId \<times> 64 word \<times> 32 word" where
  "mapping_entry m a = (vp_device (base_page m),
     vp_offset (base_page m) + ucast (a - reg_start (am_region m)), am_flags m)"

definition space_at :: "AddrSpace \<Rightarrow> 32 word \<Rightarrow> (DeviceId \<times> 64 word \<times> 32 word) option" where
  "space_at sp a = map_option (\<lambda>m. mapping_entry m a) (get_mapping sp a)"

text \<open>The mappings are in order, not empty and pairwise disjoint.\<close>

definition as_inv :: "AddrSpace \<Rightarrow> bool" where
  "as_inv sp \<longleftrightarrow> ordered (\<lambda>m. region_key (am_region m)) (vaddr_map sp) \<and>
     (\<forall>m\<in>set (vaddr_map sp). wf_region (am_region m) \<and> addrs (am_region m) \<noteq> {}) \<and>
     (\<forall>m\<in>set (vaddr_map sp). \<forall>m'\<in>set (vaddr_map sp). m \<noteq> m' \<longrightarrow> separate (am_region m) (am_region m'))"

definition mapped :: "AddrSpace \<Rightarrow> 32 word set" where
  "mapped sp = (\<Union>m\<in>set (vaddr_map sp). addrs (am_region m))"

lemma as_new_inv [simp]: "as_inv (as_new root)"
  by (simp add: as_inv_def as_new_def)

lemma get_mapping_Some: "get_mapping sp a = Some m \<Longrightarrow> m \<in> set (vaddr_map sp) \<and> a \<in> addrs (am_region m)"
  by (auto simp: get_mapping_def find_Some_iff addrs_def)

lemma get_mapping_None: "get_mapping sp a = None \<longleftrightarrow> a \<notin> mapped sp"
  by (auto simp: get_mapping_def find_None_iff addrs_def mapped_def)

lemma get_mapping_mem:
  assumes "as_inv sp" and "m \<in> set (vaddr_map sp)" and "a \<in> addrs (am_region m)"
  shows "get_mapping sp a = Some m"
proof -
  have "a \<in> mapped sp" using assms by (auto simp: mapped_def)
  then obtain m' where m': "get_mapping sp a = Some m'" using get_mapping_None by fastforce
  note g = get_mapping_Some [OF m']
  have "\<not> separate (am_region m) (am_region m')" using g assms(3) by (auto simp: separate_def)
  then have "m' = m" using assms(1,2) g by (auto simp: as_inv_def)
  then show ?thesis using m' by simp
qed

lemma space_at_mem:
  "as_inv sp \<Longrightarrow> m \<in> set (vaddr_map sp) \<Longrightarrow> a \<in> addrs (am_region m) \<Longrightarrow> space_at sp a = Some (mapping_entry m a)"
  by (simp add: space_at_def get_mapping_mem)

lemma space_at_None: "space_at sp a = None \<longleftrightarrow> a \<notin> mapped sp"
  by (simp add: space_at_def get_mapping_None)

text \<open>Two address spaces agree where they have the same mappings.\<close>

lemma space_at_cong:
  assumes "as_inv sp" and "as_inv sp'"
    and "\<And>m. a \<in> addrs (am_region m) \<Longrightarrow> m \<in> set (vaddr_map sp) \<longleftrightarrow> m \<in> set (vaddr_map sp')"
  shows "space_at sp a = space_at sp' a"
proof (cases "get_mapping sp a")
  case None
  then have "a \<notin> mapped sp'" using assms(3) by (auto simp: get_mapping_None mapped_def)
  then show ?thesis using None by (simp add: space_at_def get_mapping_None [symmetric])
next
  case (Some m)
  then have "m \<in> set (vaddr_map sp')" "a \<in> addrs (am_region m)"
    using get_mapping_Some assms(3) by blast+
  then show ?thesis using Some get_mapping_mem [OF assms(2)] by (simp add: space_at_def)
qed

lemma contains_region_iff:
  assumes "as_inv sp" and "addrs r \<noteq> {}"
  shows "contains_region sp r \<longleftrightarrow> mapped sp \<inter> addrs r \<noteq> {}"
proof -
  have "overlaps (am_region m) r \<longleftrightarrow> addrs (am_region m) \<inter> addrs r \<noteq> {}"
    if "m \<in> set (vaddr_map sp)" for m
    using that assms overlaps_iff [of "am_region m" r] by (simp add: as_inv_def)
  then show ?thesis by (auto simp: contains_region_def list_ex_iff mapped_def)
qed

section \<open>Inserting and removing mappings\<close>

lemma insert_mapping_set:
  assumes "as_inv sp" and "addrs (am_region m) \<noteq> {}" and "mapped sp \<inter> addrs (am_region m) = {}"
  shows "set (vaddr_map (insert_mapping m sp)) = insert m (set (vaddr_map sp))"
proof -
  have "region_key (am_region m) \<notin> (\<lambda>m. region_key (am_region m)) ` set (vaddr_map sp)"
  proof
    assume "region_key (am_region m) \<in> (\<lambda>m. region_key (am_region m)) ` set (vaddr_map sp)"
    then obtain m' where "m' \<in> set (vaddr_map sp)" "addrs (am_region m) = addrs (am_region m')"
      using region_key_addrs by blast
    then show False using assms(2,3) by (auto simp: mapped_def)
  qed
  then show ?thesis
    using assms(1) by (simp add: insert_mapping_def as_inv_def mappings.set_insert)
qed

lemma insert_mapping_inv:
  assumes "as_inv sp" and "addrs (am_region m) \<noteq> {}" and "mapped sp \<inter> addrs (am_region m) = {}"
    and "wf_region (am_region m)"
  shows "as_inv (insert_mapping m sp)"
    and "mapped (insert_mapping m sp) = mapped sp \<union> addrs (am_region m)"
    and "space_at (insert_mapping m sp) a =
      (if a \<in> addrs (am_region m) then Some (mapping_entry m a) else space_at sp a)"
proof -
  note s = insert_mapping_set [OF assms(1-3)]
  have "ordered (\<lambda>m. region_key (am_region m)) (vaddr_map (insert_mapping m sp))"
    using assms(1) by (simp add: insert_mapping_def as_inv_def mappings.ordered_insert)
  moreover have "separate (am_region m) (am_region m')" "separate (am_region m') (am_region m)"
    if "m' \<in> set (vaddr_map sp)" for m'
    using that assms(3) by (auto simp: separate_def mapped_def)
  ultimately show i: "as_inv (insert_mapping m sp)"
    using assms(1,2,4) unfolding as_inv_def s by auto
  show "mapped (insert_mapping m sp) = mapped sp \<union> addrs (am_region m)"
    by (auto simp: mapped_def s)
  show "space_at (insert_mapping m sp) a =
      (if a \<in> addrs (am_region m) then Some (mapping_entry m a) else space_at sp a)"
    using space_at_mem [OF i, of m a] space_at_cong [OF i assms(1), of a] s by auto
qed

definition remove_mapping :: "AddressMapping \<Rightarrow> AddrSpace \<Rightarrow> AddrSpace" where
  "remove_mapping m sp = sp\<lparr>vaddr_map := bt_remove am_cmp m (vaddr_map sp)\<rparr>"

lemma remove_mapping_inv:
  assumes "as_inv sp" and "m \<in> set (vaddr_map sp)"
  shows "as_inv (remove_mapping m sp)"
    and "mapped (remove_mapping m sp) = mapped sp - addrs (am_region m)"
    and "space_at (remove_mapping m sp) a =
      (if a \<in> addrs (am_region m) then None else space_at sp a)"
proof -
  have o: "ordered (\<lambda>m. region_key (am_region m)) (vaddr_map sp)"
    using assms(1) by (simp add: as_inv_def)
  have s: "set (vaddr_map (remove_mapping m sp)) = set (vaddr_map sp) - {m}"
    using inj_onD [OF ordered_inj [OF o]] assms(2)
    by (auto simp: remove_mapping_def mappings.set_remove [OF o])
  have "ordered (\<lambda>m. region_key (am_region m)) (vaddr_map (remove_mapping m sp))"
    by (simp add: remove_mapping_def mappings.ordered_remove [OF o])
  then show i: "as_inv (remove_mapping m sp)" using assms(1) unfolding as_inv_def s by auto
  show ma: "mapped (remove_mapping m sp) = mapped sp - addrs (am_region m)"
    using assms by (auto simp: mapped_def s as_inv_def separate_def)
  show "space_at (remove_mapping m sp) a = (if a \<in> addrs (am_region m) then None else space_at sp a)"
    using space_at_cong [OF i assms(1), of a] s space_at_None [of "remove_mapping m sp" a] ma by auto
qed

section \<open>Page-aligned areas\<close>

lemma align_dvd:
  assumes "0 < b"
  shows "b dvd align x b" "b dvd align_trunc x b"
proof -
  have "x mod b < b" using assms by simp
  then have "x + (b - x mod b) = x div b * b + b"
    using div_mult_mod_eq [of x b] by linarith
  then show "b dvd align x b"
    by (auto simp: align_def align_next_def is_aligned_def)
  show "b dvd align_trunc x b"
    by (auto simp: align_trunc_def is_aligned_def minus_mod_eq_mult_div)
qed

lemma start_address_unat: "unat (start_address start) = align_trunc (unat start) SMALL_PAGE_SIZE"
proof -
  have "align_trunc (unat start) SMALL_PAGE_SIZE \<le> unat start" by (simp add: align_trunc_def)
  also have "unat start < 2 ^ LENGTH(32)" by (rule unsigned_less)
  finally show ?thesis by (simp add: start_address_def unat_of_nat)
qed

lemma end_address_unat:
  assumes "end_address start len = Some e"
  shows "unat e = align (unat start + unat len) SMALL_PAGE_SIZE"
    and "unat start + unat len < 2 ^ 32"
proof -
  have c: "unat start + unat len < 2 ^ 32" and a: "align (unat (start + len)) SMALL_PAGE_SIZE < 2 ^ 32"
      and e: "e = of_nat (align (unat (start + len)) SMALL_PAGE_SIZE)"
    using assms by (auto simp: end_address_def checked_add_def Let_def split: if_splits bind_splits)
  have "unat (start + len) = unat start + unat len"
    using c by (simp add: unat_add_lem [symmetric])
  then show "unat e = align (unat start + unat len) SMALL_PAGE_SIZE"
    using a e by (simp add: unat_of_nat)
  show "unat start + unat len < 2 ^ 32" by (rule c)
qed

lemma area:
  assumes "0 < len" and "end_address start len = Some e"
  shows "start_address start < e" and "start_address start \<le> start"
    and "unat start + unat len \<le> unat e"
    and "SMALL_PAGE_SIZE dvd unat (start_address start)" and "SMALL_PAGE_SIZE dvd unat e"
proof -
  have p: "0 < SMALL_PAGE_SIZE" by (simp add: SMALL_PAGE_SIZE_def)
  note e = end_address_unat [OF assms(2)] and s = start_address_unat [of start]
  show "start_address start \<le> start" using align_bounds(2) [of "unat start"] s by (simp add: word_le_nat_alt)
  moreover show "unat start + unat len \<le> unat e" using align_bounds(1) [of "unat start + unat len"] e(1) by simp
  moreover have "0 < unat len" using assms(1) by (simp add: word_less_nat_alt)
  ultimately show "start_address start < e" by (simp add: word_less_nat_alt word_le_nat_alt)
  show "SMALL_PAGE_SIZE dvd unat (start_address start)" using align_dvd(2) [OF p] s by simp
  show "SMALL_PAGE_SIZE dvd unat e" using align_dvd(1) [OF p] e(1) by simp
qed

lemma region_new_area:
  fixes s :: "'a::len word"
  assumes "s < e"
  shows "addrs (region_new s e) = {s..<e}"
proof -
  have "e \<noteq> 0" using assms by auto
  then show ?thesis by (auto simp: addrs_new)
qed

lemma mapping_entry_new [simp]:
  "mapping_entry (am_new (vp_new dev off fl) (region_new s e) fl') a = (dev, off + ucast (a - s), fl')"
  by (simp add: mapping_entry_def am_new_def vp_new_def region_new_def)

lemma am_new_region [simp]: "am_region (am_new p r fl) = r"
  by (simp add: am_new_def)

lemma as_map_fixed:
  assumes "as_inv sp" and "0 < len" and "end_address start len = Some e"
  defines "s \<equiv> start_address start"
  shows "as_map sp (Some start) dev off fl len =
     (if mapped sp \<inter> {s..<e} = {}
      then Some (Some s, insert_mapping (am_new (vp_new dev off fl) (region_new s e) fl) sp)
      else Some (None, sp))"
proof -
  have se: "s < e" unfolding s_def by (rule area(1) [OF assms(2,3)])
  then have "addrs (region_new s e) \<noteq> {}" by (auto simp: region_new_area)
  then have "contains_region sp (region_new s e) \<longleftrightarrow> mapped sp \<inter> {s..<e} \<noteq> {}"
    using contains_region_iff [OF assms(1)] by (simp add: region_new_area [OF se])
  then show ?thesis
    using se assms(3) by (auto simp: as_map_def s_def [symmetric] Let_def)
qed

section \<open>Unmapping\<close>

lemma ucast_add_le:
  fixes x y :: "32 word"
  assumes "unat x + unat y < 2 ^ 32"
  shows "(ucast (x + y) :: 64 word) = ucast x + ucast y"
proof -
  have "unat (x + y) = unat x + unat y" using assms by (simp add: unat_add_lem [symmetric])
  then have "of_nat (unat (x + y)) = (of_nat (unat x) + of_nat (unat y) :: 64 word)" by simp
  then show ?thesis by simp
qed

lemma unat_ucast_64: "unat (ucast (x :: 32 word) :: 64 word) = unat x"
proof -
  have "unat x < 2 ^ LENGTH(32)" by (rule unsigned_less)
  then have "unat (of_nat (unat x) :: 64 word) = unat x" by (simp only: unat_of_nat) simp
  then show ?thesis by simp
qed

text \<open>Shifting the start of a mapping and its offset by the same amount does not change its entries.\<close>

lemma mapping_entry_shift:
  assumes "reg_start (am_region m) \<le> reg_start r" and "reg_start r \<le> a"
  shows "mapping_entry (am_new ((base_page m)\<lparr>vp_offset := vp_offset (base_page m) +
       ucast (reg_start r - reg_start (am_region m))\<rparr>) r (am_flags m)) a = mapping_entry m a"
proof -
  let ?d = "reg_start r - reg_start (am_region m)" and ?x = "a - reg_start r"
  have "unat ?d + unat ?x = unat a - unat (reg_start (am_region m))"
    using assms by (simp add: unat_sub word_le_nat_alt)
  also have "\<dots> < 2 ^ 32"
  proof -
    have "unat a < 2 ^ LENGTH(32)" by (rule unsigned_less)
    then show ?thesis by simp
  qed
  finally have "(ucast (?d + ?x) :: 64 word) = ucast ?d + ucast ?x" by (rule ucast_add_le)
  then show ?thesis by (simp add: mapping_entry_def am_new_def)
qed

definition offset_ok :: "AddressMapping \<Rightarrow> bool" where
  "offset_ok m \<longleftrightarrow> unat (vp_offset (base_page m)) + 2 ^ 32 \<le> 2 ^ 64"

lemma remap_rest_inv:
  assumes "as_inv sp" and "mapped sp \<inter> set_addrs rs = {}" and "offset_ok m"
    and "\<forall>r\<in>set rs. wf_region r \<and> addrs r \<noteq> {} \<and> addrs r \<subseteq> addrs (am_region m)"
    and "sorted_wrt separate rs"
  shows "\<exists>sp'. remap_rest m rs sp = Some sp' \<and> as_inv sp' \<and>
     (\<forall>a. space_at sp' a = (if a \<in> set_addrs rs then Some (mapping_entry m a) else space_at sp a))"
  using assms
proof (induction rs arbitrary: sp)
  case Nil
  then show ?case by simp
next
  case (Cons r rs)
  let ?d = "reg_start r - reg_start (am_region m)"
  let ?p = "(base_page m)\<lparr>vp_offset := vp_offset (base_page m) + ucast ?d\<rparr>"
  let ?sp = "insert_mapping (am_new ?p r (am_flags m)) sp"
  have r: "wf_region r" "addrs r \<noteq> {}" "addrs r \<subseteq> addrs (am_region m)" using Cons.prems(4) by auto
  have le: "reg_start (am_region m) \<le> reg_start r"
    using start_in_addrs [OF r(2)] r(3) by (auto simp: addrs_eq)
  have "unat ?d < 2 ^ LENGTH(32)" by (rule unsigned_less)
  then have "unat (vp_offset (base_page m)) + unat (ucast ?d :: 64 word) < 2 ^ 64"
    using Cons.prems(3) by (simp add: offset_ok_def unat_ucast_64)
  then have step: "remap_rest m (r # rs) sp = remap_rest m rs ?sp"
    using le by (simp add: checked_sub_def checked_add_def)
  have dj: "mapped sp \<inter> addrs (am_region (am_new ?p r (am_flags m))) = {}" using Cons.prems(2) by auto
  note i = insert_mapping_inv [OF Cons.prems(1) _ dj]
  have "mapped ?sp \<inter> set_addrs rs = {}"
    using Cons.prems(2,5) i(2) r by (auto simp: separate_def set_addrs_def)
  moreover have "sorted_wrt separate rs" using Cons.prems(5) by simp
  ultimately obtain sp' where sp': "remap_rest m rs ?sp = Some sp'" "as_inv sp'"
      "\<forall>a. space_at sp' a = (if a \<in> set_addrs rs then Some (mapping_entry m a) else space_at ?sp a)"
    using Cons.IH [of ?sp] i(1) r Cons.prems(3,4) by auto
  have "space_at ?sp a = (if a \<in> addrs r then Some (mapping_entry m a) else space_at sp a)" for a
    using i(3) [of a] r mapping_entry_shift [OF le, of a] by (auto simp: addrs_eq)
  then show ?case using step sp' by auto
qed

lemma as_unmap_mapped:
  assumes "as_inv sp" and "0 < len" and "end_address start len = Some e"
    and "get_mapping sp (start_address start) = Some m" and "offset_ok m"
  shows "\<exists>sp'. as_unmap sp start len = Some (True, sp') \<and> as_inv sp' \<and>
     (\<forall>a. space_at sp' a = (if a \<in> addrs (am_region m) \<and> start_address start \<le> a \<and> a < e
        then None else space_at sp a))"
proof -
  let ?s = "start_address start"
  have se: "?s < e" by (rule area(1) [OF assms(2,3)])
  have m: "m \<in> set (vaddr_map sp)" "?s \<in> addrs (am_region m)"
    using get_mapping_Some [OF assms(4)] by auto
  have u: "addrs (region_new ?s e) = {?s..<e}" by (rule region_new_area [OF se])
  obtain rs where rs: "region_difference (am_region m) (region_new ?s e) = Some rs"
      "set_addrs rs = addrs (am_region m) - {?s..<e}"
      "\<forall>d\<in>set rs. wf_region d \<and> addrs d \<noteq> {} \<and> addrs d \<subseteq> addrs (am_region m)"
      "sorted_wrt separate rs"
    using region_difference_pieces [of "region_new ?s e" "am_region m"] m(2) u se by auto
  note i = remove_mapping_inv [OF assms(1) m(1)]
  have "mapped (remove_mapping m sp) \<inter> set_addrs rs = {}" using i(2) rs(2) by auto
  from remap_rest_inv [OF i(1) this assms(5) rs(3,4)] obtain sp' where
    sp': "remap_rest m rs (remove_mapping m sp) = Some sp'" "as_inv sp'"
      "\<forall>a. space_at sp' a = (if a \<in> set_addrs rs then Some (mapping_entry m a)
         else space_at (remove_mapping m sp) a)" by blast
  have "as_unmap sp start len = Some (True, sp')"
    using assms(3,4) se rs(1) sp'(1) by (simp add: as_unmap_def Let_def remove_mapping_def)
  moreover have "space_at sp' a = (if a \<in> addrs (am_region m) \<and> ?s \<le> a \<and> a < e
      then None else space_at sp a)" for a
    using sp'(3) rs(2) i(3) [of a] space_at_mem [OF assms(1) m(1), of a] by auto
  ultimately show ?thesis using sp'(2) by blast
qed

section \<open>Mapping at any free address\<close>

lemma keeps_Un: "keeps A B \<Longrightarrow> keeps (A \<union> C) (B \<union> C)"
  by (simp add: keeps_def ball_Un)

lemma all_regions_addrs:
  assumes "\<forall>q\<in>set acc \<union> am_region ` set ms. wf_region q" and "no_wrap (set acc \<union> am_region ` set ms)"
  shows "\<exists>rs. all_regions ms acc = Some rs \<and> (\<forall>q\<in>set rs. wf_region q) \<and>
     set_addrs rs = set_addrs acc \<union> (\<Union>m\<in>set ms. addrs (am_region m))"
  using assms
proof (induction ms arbitrary: acc)
  case Nil
  then show ?case by simp
next
  case (Cons m ms)
  have m: "region_clone (am_region m) = am_region m" using Cons.prems(1) by simp
  have w: "\<forall>q\<in>set acc \<union> set [am_region m]. wf_region q" using Cons.prems(1) by simp
  have n: "no_wrap (set acc \<union> set [am_region m])"
    by (rule no_wrap_mono [OF Cons.prems(2)]) auto
  obtain us where us: "rs_union acc [am_region m] = Some us" "\<forall>q\<in>set us. wf_region q"
      "set_addrs us = set_addrs acc \<union> set_addrs [am_region m]"
      "keeps (set acc \<union> set [am_region m]) (set us)"
    using rs_union_addrs [OF w n] by (elim exE conjE)
  have "set acc \<union> am_region ` set (m # ms) = (set acc \<union> set [am_region m]) \<union> am_region ` set ms"
    by simp
  then have "keeps (set acc \<union> am_region ` set (m # ms)) (set us \<union> am_region ` set ms)"
    using keeps_Un [OF us(4)] by simp
  then have n': "no_wrap (set us \<union> am_region ` set ms)" by (rule keeps_no_wrap [OF _ Cons.prems(2)])
  have w': "\<forall>q\<in>set us \<union> am_region ` set ms. wf_region q"
    using us(2) Cons.prems(1) by (simp add: ball_Un)
  obtain rs where "all_regions ms us = Some rs" "\<forall>q\<in>set rs. wf_region q"
      "set_addrs rs = set_addrs us \<union> (\<Union>m\<in>set ms. addrs (am_region m))"
    using Cons.IH [OF w' n'] by (elim exE conjE)
  then show ?case using us m by (auto simp: Un_assoc)
qed

lemma rs_complement_wf: "\<forall>q\<in>set (rs_complement rs). wf_region q"
proof (cases rs rule: rev_cases)
  case Nil
  then show ?thesis by (simp add: rs_complement_def full_region_def)
next
  case (snoc ys y)
  then show ?thesis using rs_intersection_wf by (simp add: rs_complement_def)
qed

text \<open>A region that is long enough holds the new area, unless the area would end at \<open>2 ^ 32\<close>.\<close>

lemma region_fits:
  fixes r :: "32 region"
  assumes "wf_region r" and "0 < len" and "\<not> (case region_length r of Some l \<Rightarrow> l < len | None \<Rightarrow> False)"
  shows "case checked_add (reg_start r) len of
      None \<Rightarrow> unat (reg_start r) + unat len = 2 ^ 32 \<and> (\<forall>a\<ge>reg_start r. a \<in> addrs r)
    | Some e \<Rightarrow> reg_start r < e \<and> {reg_start r..<e} \<subseteq> addrs r"
proof -
  let ?s = "reg_start r"
  have l0: "0 < unat len" using assms(2) by (simp add: word_less_nat_alt)
  have lt: "unat x < 2 ^ 32" for x :: "32 word"
  proof -
    have "unat x < 2 ^ LENGTH(32)" by (rule unsigned_less)
    then show ?thesis by simp
  qed
  have up: "unat (?s + len) = unat ?s + unat len" if "unat ?s + unat len < 2 ^ 32"
    using that by (simp add: unat_add_lem [symmetric])
  show ?thesis
  proof (cases "reg_end r = 0")
    case True
    have "unat ?s + unat len \<le> 2 ^ 32"
    proof (cases "?s = 0")
      case True
      then show ?thesis using lt [of len] by simp
    next
      case False
      then have "region_length r = Some (- ?s)"
        using \<open>reg_end r = 0\<close>
        by (simp add: region_length_def is_full_region_def memory_start_def memory_end_def
            minus_eq_not_plus_1)
      then have "unat len \<le> unat (- ?s)" using assms(3) by (simp add: not_less word_le_nat_alt)
      also have "unat (- ?s) = 2 ^ 32 - unat ?s" using unat_sub_if' [of 0 ?s] False by (simp add: unat_eq_0)
      finally show ?thesis using lt [of ?s] by simp
    qed
    then show ?thesis
      using True l0 up by (auto simp: checked_add_def addrs_eq word_less_nat_alt)
  next
    case False
    then have "region_length r = Some (reg_end r - ?s)" "?s \<le> reg_end r"
      using assms(1) by (auto simp: region_length_def is_full_region_def memory_end_def wf_region_def)
    then have "unat len \<le> unat (reg_end r) - unat ?s" "unat ?s \<le> unat (reg_end r)"
      using assms(3) by (auto simp: not_less word_le_nat_alt unat_sub)
    then have "unat ?s + unat len \<le> unat (reg_end r)" by simp
    then show ?thesis
      using lt [of "reg_end r"] l0 up
      by (auto simp: checked_add_def addrs_eq word_less_nat_alt)
  qed
qed

lemma map_free_inv:
  assumes "as_inv sp" and "0 < len" and "\<forall>r\<in>set rs. wf_region r \<and> addrs r \<inter> mapped sp = {}"
  shows "case map_free rs (vp_new dev off fl) fl len sp of
      None \<Rightarrow> \<exists>s. unat s + unat len = 2 ^ 32 \<and> (\<forall>a\<ge>s. space_at sp a = None)
    | Some (None, sp') \<Rightarrow> sp' = sp
    | Some (Some s, sp') \<Rightarrow> \<exists>e. checked_add s len = Some e \<and>
        (\<forall>a. s \<le> a \<and> a < e \<longrightarrow> space_at sp a = None) \<and> as_inv sp' \<and>
        (\<forall>a. space_at sp' a = (if s \<le> a \<and> a < e then Some (dev, off + ucast (a - s), fl)
           else space_at sp a))"
  using assms(3)
proof (induction rs)
  case Nil
  then show ?case by simp
next
  case (Cons r rs)
  show ?case
  proof (cases "case region_length r of Some l \<Rightarrow> l < len | None \<Rightarrow> False")
    case True
    then show ?thesis using Cons by simp
  next
    case False
    have r: "wf_region r" "addrs r \<inter> mapped sp = {}" using Cons.prems by auto
    note f = region_fits [OF r(1) assms(2) False]
    show ?thesis
    proof (cases "checked_add (reg_start r) len")
      case None
      then have "unat (reg_start r) + unat len = 2 ^ 32" "\<forall>a\<ge>reg_start r. space_at sp a = None"
        using f r(2) by (auto simp: space_at_None)
      then show ?thesis using False None by auto
    next
      case (Some e)
      then have e: "reg_start r < e" "{reg_start r..<e} \<inter> mapped sp = {}" using f r(2) by auto
      let ?m = "am_new (vp_new dev off fl) (region_new (reg_start r) e) fl"
      have "addrs (am_region ?m) = {reg_start r..<e}" by (simp add: region_new_area [OF e(1)])
      moreover have "{reg_start r..<e} \<noteq> {}" using e(1) by auto
      moreover have "\<forall>a. reg_start r \<le> a \<and> a < e \<longrightarrow> space_at sp a = None"
        using e(2) by (auto simp: space_at_None)
      ultimately show ?thesis
        using insert_mapping_inv [OF assms(1), of ?m] e False Some by (auto simp: Int_commute)
    qed
  qed
qed

section \<open>Devices, threads and registered spaces\<close>

lemma device_roundtrip: "device_new (device_u32 d) = d" "device_u32 (device_new w) = w"
proof -
  have no: "\<not> bit (x :: 16 word) (16 + n)" for x n by (auto dest: bit_imp_le_length)
  have m: "(0xFFFF :: 32 word) = mask 16" by (simp add: mask_eq_exp_minus_1)
  show "device_new (device_u32 d) = d"
    by (cases d) (auto simp: device_new_def device_u32_def m no bit_simps intro!: bit_word_eqI)
  show "device_u32 (device_new w) = w"
    by (rule bit_word_eqI)
      (auto simp: device_new_def device_u32_def m bit_simps dest: bit_imp_le_length)
qed

lemma attach_thread_exists:
  assumes "ordered (\<lambda>t. t) (attached_threads sp)"
  shows "thread_exists (snd (attach_thread sp t)) t' \<longleftrightarrow> t' = t \<or> thread_exists sp t'"
    and "thread_exists (snd (detach_thread sp t)) t' \<longleftrightarrow> t' \<noteq> t \<and> thread_exists sp t'"
  using assms
  by (auto simp: thread_exists_def attach_thread_def detach_thread_def words.contains_key
      words.set_insert words.set_remove)

lemma device_lookup_register:
  assumes "ordered fst m"
  shows "case device_register d tid (Some m) of
      Some (Inr _, m') \<Rightarrow> device_lookup d (Some m) = Some None \<and>
        (\<forall>d'. device_lookup d' m' = (if d' = d then Some (Some tid) else device_lookup d' (Some m)))
    | Some (Inl e, m') \<Rightarrow> e = AlreadyRegistered \<and> device_lookup d (Some m) \<noteq> Some None \<and> m' = Some m
    | None \<Rightarrow> False"
  using assms
  by (auto simp: device_register_def device_lookup_def words.get_map_of words.map_of_insert)

lemma as_register_lookup:
  assumes "ordered fst m" and "map_of m (root_page_map sp) = None" and "thread_exists sp tid"
    and "lookup_tid tid (Some m) = Some None"
  shows "\<exists>m'. as_register sp (Some m) = Some (True, m') \<and> lookup_tid tid m' = Some (Some sp)"
proof -
  let ?m = "btm_insert word_cmp (root_page_map sp) sp m"
  have "set ?m \<subseteq> insert (root_page_map sp, sp) (set m)"
    by (rule words.set_btm_insert)
  moreover have "(root_page_map sp, sp) \<in> set ?m"
    by (rule map_of_SomeD) (simp add: words.map_of_insert [OF assms(1)])
  moreover have "\<not> thread_exists sp' tid" if "(k, sp') \<in> set m" for k sp'
    using that assms(4) by (auto simp: lookup_tid_def find_None_iff)
  ultimately have *: "\<forall>sp'\<in>snd ` set ?m. thread_exists sp' tid \<longrightarrow> sp' = sp" "sp \<in> snd ` set ?m"
    by force+
  have "find (\<lambda>sp. thread_exists sp tid) (map snd ?m) = Some sp"
  proof (cases "find (\<lambda>sp. thread_exists sp tid) (map snd ?m)")
    case None
    then show ?thesis using *(2) assms(3) by (force simp: find_None_iff)
  next
    case (Some sp')
    then have "thread_exists sp' tid" "sp' \<in> snd ` set ?m"
      by (auto simp: find_Some_iff)
    then show ?thesis using *(1) Some by auto
  qed
  then show ?thesis
    using assms(2) by (simp add: as_register_def words.get_map_of lookup_tid_def)
qed

section \<open>Properties\<close>

text \<open>An address space with the zero device at \<open>0x400000\<close>, three pages long.\<close>

definition zero_device :: DeviceId where
  "zero_device = \<lparr>dev_major = pseudo_MAJOR, dev_minor = ZERO_MINOR\<rparr>"

definition ex_mapping :: AddressMapping where
  "ex_mapping = am_new (vp_new zero_device 0x1000 0) (region_new 0x400000 0x403000) 0"

definition ex_space :: AddrSpace where
  "ex_space = insert_mapping ex_mapping (as_new 0x9000)"

lemma ex_space_inv:
  "as_inv ex_space" "mapped ex_space = {0x400000..<0x403000}"
  "vaddr_map ex_space = [ex_mapping]"
proof -
  have a: "addrs (region_new 0x400000 (0x403000 :: 32 word)) = {0x400000..<0x403000}"
    by (rule region_new_area) simp
  have n: "mapped (as_new 0x9000) = {}" by (simp add: mapped_def as_new_def)
  have "0x400000 \<in> {0x400000..<0x403000 :: 32 word}" by simp
  then have ne: "addrs (am_region ex_mapping) \<noteq> {}" unfolding ex_mapping_def am_new_region a by blast
  show "as_inv ex_space" "mapped ex_space = {0x400000..<0x403000}"
    unfolding ex_space_def
    using insert_mapping_inv(1,2) [OF as_new_inv ne] n a by (simp_all add: ex_mapping_def)
  show "vaddr_map ex_space = [ex_mapping]"
    by (simp add: ex_space_def insert_mapping_def as_new_def)
qed

lemma ex_space_at: "space_at ex_space 0x401800 = Some (zero_device, 0x2800, 0)"
proof -
  have "0x401800 \<in> addrs (am_region ex_mapping)" by (simp add: ex_mapping_def addrs_new)
  then show ?thesis
    using space_at_mem [OF ex_space_inv(1), of ex_mapping] ex_space_inv(3)
    by (simp add: ex_mapping_def)
qed

text \<open>
  C13. Mapping at a given address succeeds exactly when no page of the area is mapped yet. The area
  is the smallest page-aligned one that holds the requested bytes. Afterwards its addresses refer to
  the device from the given offset on, all other addresses refer to what they did before, and the
  mappings are still disjoint; a refused request changes nothing.
\<close>

theorem map_at_address:
  assumes "as_inv sp" and "0 < len" and "end_address start len = Some e"
  defines "s \<equiv> start_address start"
  shows "SMALL_PAGE_SIZE dvd unat s \<and> SMALL_PAGE_SIZE dvd unat e \<and> s \<le> start \<and>
     unat start + unat len \<le> unat e \<and>
     (if \<forall>a. s \<le> a \<and> a < e \<longrightarrow> space_at sp a = None
      then \<exists>sp'. as_map sp (Some start) dev off fl len = Some (Some s, sp') \<and> as_inv sp' \<and>
        (\<forall>a. space_at sp' a =
           (if s \<le> a \<and> a < e then Some (dev, off + ucast (a - s), fl) else space_at sp a))
      else as_map sp (Some start) dev off fl len = Some (None, sp))"
proof -
  let ?m = "am_new (vp_new dev off fl) (region_new s e) fl"
  have f: "(\<forall>a. s \<le> a \<and> a < e \<longrightarrow> space_at sp a = None) \<longleftrightarrow> mapped sp \<inter> {s..<e} = {}"
    by (auto simp: space_at_None)
  have se: "s < e" unfolding s_def by (rule area(1) [OF assms(2,3)])
  then have r: "addrs (am_region ?m) = {s..<e}" "addrs (am_region ?m) \<noteq> {}"
    by (auto simp: region_new_area)
  show ?thesis
    unfolding f as_map_fixed [OF assms(1-3), folded s_def]
    using area(2-5) [OF assms(2,3)] insert_mapping_inv [OF assms(1) r(2)] r(1) by (simp add: s_def)
qed

theorem map_at_address_witness:
  "(\<exists>sp'. as_map ex_space (Some 0x500010) zero_device 0 0 0x1000 = Some (Some 0x500000, sp') \<and>
      as_inv sp' \<and> space_at sp' 0x501020 = Some (zero_device, 0x1020, 0) \<and>
      space_at sp' 0x401800 = Some (zero_device, 0x2800, 0)) \<and>
   as_map ex_space (Some 0x3FF800) zero_device 0 0 0x1000 = Some (None, ex_space)"
proof
  have e: "end_address 0x500010 0x1000 = Some 0x502000" "start_address 0x500010 = 0x500000"
    "end_address 0x3FF800 0x1000 = Some 0x401000" "start_address 0x3FF800 = 0x3FF000"
    by (simp_all add: end_address_def start_address_def checked_add_def align_def align_next_def
        align_trunc_def is_aligned_def SMALL_PAGE_SIZE_def)
  have n: "\<forall>a. 0x500000 \<le> a \<and> a < 0x502000 \<longrightarrow> space_at ex_space a = None"
    using ex_space_inv(2) by (auto simp: space_at_None word_le_nat_alt word_less_nat_alt)
  show "\<exists>sp'. as_map ex_space (Some 0x500010) zero_device 0 0 0x1000 = Some (Some 0x500000, sp') \<and>
      as_inv sp' \<and> space_at sp' 0x501020 = Some (zero_device, 0x1020, 0) \<and>
      space_at sp' 0x401800 = Some (zero_device, 0x2800, 0)"
    using map_at_address [OF ex_space_inv(1) _ e(1), of zero_device 0 0] n ex_space_at
    unfolding e(2) by force
  have "\<not> (\<forall>a. 0x3FF000 \<le> a \<and> a < 0x401000 \<longrightarrow> space_at ex_space a = None)"
    using ex_space_inv(2) by (auto simp: space_at_None intro!: exI [of _ "0x400000"])
  then show "as_map ex_space (Some 0x3FF800) zero_device 0 0 0x1000 = Some (None, ex_space)"
    using map_at_address [OF ex_space_inv(1) _ e(3), of zero_device 0 0] unfolding e(4) by simp
qed

text \<open>
  C14. Unmapping removes exactly the addresses of the given page-aligned area that belong to the
  mapping of its first page. What is left of that mapping before and after the area still refers to
  the same offsets in the device; nothing else changes. If the first page is not mapped, nothing
  happens and the call reports failure.
\<close>

theorem unmap_removes_area:
  assumes "as_inv sp" and "0 < len" and "end_address start len = Some e"
    and "\<forall>m\<in>set (vaddr_map sp). offset_ok m"
  defines "s \<equiv> start_address start"
  shows "case get_mapping sp s of
      None \<Rightarrow> as_unmap sp start len = Some (False, sp)
    | Some m \<Rightarrow> \<exists>sp'. as_unmap sp start len = Some (True, sp') \<and> as_inv sp' \<and>
        (\<forall>a. space_at sp' a =
           (if a \<in> addrs (am_region m) \<and> s \<le> a \<and> a < e then None else space_at sp a))"
proof (cases "get_mapping sp s")
  case None
  then show ?thesis
    using assms(3) by (simp add: as_unmap_def Let_def s_def)
next
  case (Some m)
  then have "offset_ok m" using get_mapping_Some assms(4) by blast
  then show ?thesis
    using as_unmap_mapped [OF assms(1-3) Some [unfolded s_def]] Some by (simp add: s_def)
qed

theorem unmap_removes_area_witness:
  "\<exists>sp'. as_unmap ex_space 0x401000 0x1000 = Some (True, sp') \<and> as_inv sp' \<and>
     space_at sp' 0x401800 = None \<and> space_at sp' 0x402010 = Some (zero_device, 0x3010, 0)"
proof -
  have e: "end_address 0x401000 0x1000 = Some 0x402000" "start_address 0x401000 = 0x401000"
    by (simp_all add: end_address_def start_address_def checked_add_def align_def align_next_def
        align_trunc_def is_aligned_def SMALL_PAGE_SIZE_def)
  have o: "\<forall>m\<in>set (vaddr_map ex_space). offset_ok m"
    by (simp add: ex_space_inv(3) offset_ok_def ex_mapping_def am_new_def vp_new_def)
  have m: "ex_mapping \<in> set (vaddr_map ex_space)" "0x401000 \<in> addrs (am_region ex_mapping)"
      "0x402010 \<in> addrs (am_region ex_mapping)" "0x401800 \<in> addrs (am_region ex_mapping)"
    by (simp_all add: ex_space_inv(3) ex_mapping_def addrs_new)
  have "get_mapping ex_space 0x401000 = Some ex_mapping"
    by (rule get_mapping_mem [OF ex_space_inv(1) m(1,2)])
  moreover have "space_at ex_space 0x402010 = Some (zero_device, 0x3010, 0)"
    using space_at_mem [OF ex_space_inv(1) m(1,3)] by (simp add: ex_mapping_def)
  ultimately show ?thesis
    using unmap_removes_area [OF ex_space_inv(1) _ e(1) o] m(4) unfolding e(2) by force
qed

text \<open>
  C23. Mapping at an address of the server's choice never takes an address that is in use: the new
  area was free, refers to the device afterwards, and the rest is unchanged. The call panics only if
  the area it picks would end exactly at the end of the address space. The regions in use must not
  include both one at address 0 and one that reaches the end of memory.
\<close>

theorem map_anywhere_is_free:
  assumes "as_inv sp" and "0 < len" and "no_wrap (am_region ` set (vaddr_map sp))"
  shows "case as_map sp None dev off fl len of
      None \<Rightarrow> \<exists>s. unat s + unat len = 2 ^ 32 \<and> (\<forall>a\<ge>s. space_at sp a = None)
    | Some (None, sp') \<Rightarrow> sp' = sp
    | Some (Some s, sp') \<Rightarrow> \<exists>e. checked_add s len = Some e \<and>
        (\<forall>a. s \<le> a \<and> a < e \<longrightarrow> space_at sp a = None) \<and> as_inv sp' \<and>
        (\<forall>a. space_at sp' a =
           (if s \<le> a \<and> a < e then Some (dev, off + ucast (a - s), fl) else space_at sp a))"
proof -
  have "\<forall>q\<in>set [] \<union> am_region ` set (vaddr_map sp). wf_region q"
    using assms(1) by (simp add: as_inv_def)
  then obtain rs where rs: "all_regions (vaddr_map sp) [] = Some rs" "\<forall>q\<in>set rs. wf_region q"
      "set_addrs rs = mapped sp"
    using all_regions_addrs [of "[]" "vaddr_map sp"] assms(3) by (auto simp: mapped_def)
  have "set_addrs (rs_complement rs) = - mapped sp" using rs_complement_addrs [OF rs(2)] rs(3) by simp
  then have "\<forall>r\<in>set (rs_complement rs). wf_region r \<and> addrs r \<inter> mapped sp = {}"
    using rs_complement_wf [of rs] by (auto simp: set_addrs_def)
  from map_free_inv [OF assms(1,2) this, of dev off fl] show ?thesis
    using rs(1) by (simp add: as_map_def)
qed

theorem map_anywhere_is_free_witness:
  "\<exists>sp'. as_map ex_space None zero_device 0 0 0x1000 = Some (Some 0, sp') \<and> as_inv sp' \<and>
     space_at ex_space 0x10 = None \<and> space_at sp' 0x10 = Some (zero_device, 0x10, 0)"
proof -
  have n: "no_wrap (am_region ` set (vaddr_map ex_space))"
    by (simp add: ex_space_inv(3) ex_mapping_def no_wrap_def region_new_def memory_end_def)
  have "rs_union [] [region_clone (region_new 0x400000 (0x403000 :: 32 word))] =
      Some [region_new 0x400000 0x403000]"
    by (simp add: rs_union_def)
  moreover have "rs_complement [region_new 0x400000 (0x403000 :: 32 word)] =
      [region_new 0 0x400000, region_new 0x403000 0]"
    by (simp add: rs_complement_def rs_intersection_def region_complement_def region_intersection_def
        region_defs full_region_def Let_def List.map_filter_def)
  ultimately have "\<exists>sp'. as_map ex_space None zero_device 0 0 0x1000 = Some (Some 0, sp')"
    by (simp add: as_map_def ex_space_inv(3) ex_mapping_def region_length_def region_defs
        checked_add_def)
  then show ?thesis
    using map_anywhere_is_free [OF ex_space_inv(1) _ n, of "0x1000" zero_device 0 0]
    by (auto simp: checked_add_def)
qed

end
