(* ===== verification/Pager.thy ===== *)
theory Pager
  imports Addr_Space
begin

text \<open>
  The pager of the init server: the kernel messages it receives (\<^verbatim>\<open>lib/librust/src/message.rs\<close>,
  \<^verbatim>\<open>servers/init_server/src/main.rs\<close>), the wrappers of the page mapping call
  (\<^verbatim>\<open>lib/librust/src/syscalls.rs\<close>, \<^verbatim>\<open>servers/init_server/src/lowlevel.rs\<close>) and the page fault
  handler (\<^verbatim>\<open>servers/init_server/src/pager.rs\<close>). A panic is \<open>None\<close>.
\<close>

section \<open>Kernel messages\<close>

definition le16 :: "8 word list \<Rightarrow> 16 word" where
  "le16 bs = ucast (bs ! 0) OR push_bit 8 (ucast (bs ! 1))"

definition le32 :: "8 word list \<Rightarrow> 32 word" where
  "le32 bs = ucast (bs ! 0) OR push_bit 8 (ucast (bs ! 1)) OR push_bit 16 (ucast (bs ! 2)) OR
     push_bit 24 (ucast (bs ! 3))"

definition slice :: "nat \<Rightarrow> nat \<Rightarrow> 'a list \<Rightarrow> 'a list" where
  "slice a b xs = take (b - a) (drop a xs)"

record ExceptionMessage =
  em_eax :: "32 word"
  em_ebx :: "32 word"
  em_ecx :: "32 word"
  em_edx :: "32 word"
  em_esi :: "32 word"
  em_edi :: "32 word"
  em_ebp :: "32 word"
  em_esp :: "32 word"
  em_cs :: "16 word"
  em_ds :: "16 word"
  em_es :: "16 word"
  em_fs :: "16 word"
  em_gs :: "16 word"
  em_ss :: "16 word"
  em_eflags :: "32 word"
  em_cr0 :: "32 word"
  em_cr2 :: "32 word"
  em_cr3 :: "32 word"
  em_cr4 :: "32 word"
  em_eip :: "32 word"
  em_error_code :: "32 word"
  em_fault_num :: "8 word"
  em_processor_id :: "8 word"
  em_who :: "16 word"

text \<open>
  The fields take 76 bytes; the attribute \<^verbatim>\<open>align(16)\<close> rounds the size of the structure up to 80.
\<close>

definition SIZEOF_ExceptionMessage :: nat where "SIZEOF_ExceptionMessage = 80"

definition exception_try_from :: "8 word list \<Rightarrow> ExceptionMessage option" where
  "exception_try_from v =
     (if length v < SIZEOF_ExceptionMessage then None
      else Some \<lparr>em_eax = le32 (slice 0 4 v), em_ebx = le32 (slice 4 8 v),
        em_ecx = le32 (slice 8 12 v), em_edx = le32 (slice 12 16 v),
        em_esi = le32 (slice 16 20 v), em_edi = le32 (slice 20 24 v),
        em_ebp = le32 (slice 24 28 v), em_esp = le32 (slice 28 32 v),
        em_cs = le16 (slice 32 34 v), em_ds = le16 (slice 34 36 v),
        em_es = le16 (slice 36 38 v), em_fs = le16 (slice 38 40 v),
        em_gs = le16 (slice 40 42 v), em_ss = le16 (slice 42 44 v),
        em_eflags = le32 (slice 44 48 v), em_cr0 = le32 (slice 48 52 v),
        em_cr2 = le32 (slice 52 56 v), em_cr3 = le32 (slice 56 60 v),
        em_cr4 = le32 (slice 60 64 v), em_eip = le32 (slice 64 68 v),
        em_error_code = le32 (slice 68 72 v), em_fault_num = v ! 72,
        em_processor_id = v ! 73, em_who = le16 (slice 74 76 v)\<rparr>)"

record ExitMessage =
  exit_code :: "32 word"
  exit_who :: "16 word"

definition exit_try_from :: "8 word list \<Rightarrow> ExitMessage option" where
  "exit_try_from v =
     (if length v \<ge> 6 then Some \<lparr>exit_code = le32 (slice 0 4 v), exit_who = le16 (slice 4 6 v)\<rparr>
      else None)"

section \<open>System calls\<close>

datatype SyscallError =
  InvalidArgument | SyscallFailed | Unauthorized | InvalidSystemCall | SyscallNotImplemented |
  SyscallNotReady | SyscallInterrupted | Preempted | PartiallyMapped nat | UnspecifiedError

definition syscall_result :: "int \<Rightarrow> SyscallError + nat" where
  "syscall_result v =
     (if v \<ge> 0 then Inr (nat v) else if v = - 1 then Inl InvalidArgument
      else if v = - 2 then Inl SyscallFailed else if v = - 3 then Inl Unauthorized
      else if v = - 4 then Inl InvalidSystemCall else if v = - 5 then Inl SyscallNotImplemented
      else if v = - 6 then Inl SyscallNotReady else if v = - 7 then Inl SyscallInterrupted
      else if v = - 8 then Inl Preempted else Inl UnspecifiedError)"

record PageMapping =
  map_number :: "32 word"
  map_flags :: "32 word"

definition C_CURRENT_ROOT_PMAP :: "32 word" where "C_CURRENT_ROOT_PMAP = 0xFFFFFFFF"
definition PAGE_SIZED :: "32 word" where "PAGE_SIZED = 0x100"
definition ARRAY :: "32 word" where "ARRAY = 0x4000"
definition MAPPING_READ_ONLY :: "32 word" where "MAPPING_READ_ONLY = 0x02"
definition MAPPING_UNMAPPED :: "32 word" where "MAPPING_UNMAPPED = 0x01"

text \<open>
  The system calls themselves are instructions; a type of state \<open>'s\<close> and functions on it that take
  the level, the virtual address, the root page map and the mappings stand for the kernel. The result
  is the number in \<^verbatim>\<open>eax\<close>.
\<close>

type_synonym 's update_call =
  "nat \<Rightarrow> 32 word \<Rightarrow> 32 word \<Rightarrow> PageMapping list \<Rightarrow> 's \<Rightarrow> int \<times> 's"

definition mapping_count :: "PageMapping list \<Rightarrow> int \<Rightarrow> SyscallError + nat" where
  "mapping_count mappings v =
     (case syscall_result v of
        Inl e \<Rightarrow> Inl e
      | Inr count \<Rightarrow> if count = length mappings then Inr count
          else if count = 0 then Inl SyscallFailed else Inl (PartiallyMapped count))"

definition set_page_mappings :: "'s update_call \<Rightarrow> nat \<Rightarrow> 32 word \<Rightarrow> 32 word option \<Rightarrow>
    PageMapping list \<Rightarrow> 's \<Rightarrow> (SyscallError + nat) \<times> 's" where
  "set_page_mappings sys level virt addr_space mappings s =
     (let (v, s') = sys level virt
        (case addr_space of None \<Rightarrow> C_CURRENT_ROOT_PMAP | Some p \<Rightarrow> p) mappings s
      in (mapping_count mappings v, s'))"

function chunks :: "nat \<Rightarrow> 'a list \<Rightarrow> 'a list list" where
  "chunks n xs = (if xs = [] \<or> n = 0 then [] else take n xs # chunks n (drop n xs))"
  by pat_completeness auto
termination by (relation "measure (\<lambda>(n, xs). length xs)") auto

text \<open>The loop over one chunk of \<open>n\<close> frames: the array is filled one frame at a time.\<close>

fun map_chunk :: "'s update_call \<Rightarrow> nat \<Rightarrow> 32 word \<Rightarrow> 32 word option \<Rightarrow> nat \<Rightarrow> nat \<Rightarrow> 64 word list \<Rightarrow>
    PageMapping list \<Rightarrow> nat \<Rightarrow> 's \<Rightarrow> ((SyscallError + nat) \<times> PageMapping list) \<times> 's" where
  "map_chunk sys level addr_start root n i [] page_mappings count s = ((Inr count, page_mappings), s)"
| "map_chunk sys level addr_start root n i (p # ps) page_mappings count s =
     (let page_mappings = page_mappings[i :=
            \<lparr>map_number = of_nat (frame_number (pf_new p Small)), map_flags = ARRAY\<rparr>];
          (r, s) = set_page_mappings sys level addr_start root (take n page_mappings) s
      in case r of
           Inr k \<Rightarrow> map_chunk sys level addr_start root n (i + 1) ps page_mappings (count + k) s
         | Inl (PartiallyMapped k) \<Rightarrow> ((Inl (PartiallyMapped (k + count)), page_mappings), s)
         | Inl e \<Rightarrow> ((Inl e, page_mappings), s))"

fun map_chunks :: "'s update_call \<Rightarrow> nat \<Rightarrow> nat \<Rightarrow> 32 word \<Rightarrow> 32 word option \<Rightarrow> 64 word list list \<Rightarrow>
    PageMapping list \<Rightarrow> nat \<Rightarrow> 's \<Rightarrow> ((SyscallError + nat) \<times> 's) option" where
  "map_chunks sys level page_size vaddr root [] page_mappings count s = Some (Inr count, s)"
| "map_chunks sys level page_size vaddr root (c # cs) page_mappings count s =
     (if count * page_size \<ge> 2 ^ 32 then None
      else case map_chunk sys level (vaddr + of_nat (count * page_size)) root (length c) 0 c
                  page_mappings count s of
             ((Inl e, page_mappings), s) \<Rightarrow> Some (Inl e, s)
           | ((Inr count, page_mappings), s) \<Rightarrow>
               map_chunks sys level page_size vaddr root cs page_mappings count s)"

definition map_frames :: "'s update_call \<Rightarrow> 32 word option \<Rightarrow> 32 word \<Rightarrow> 64 word list \<Rightarrow> 32 word \<Rightarrow>
    's \<Rightarrow> ((SyscallError + nat) \<times> 's) option" where
  "map_frames sys root_map vaddr page_frames flags s =
     (let large = flags AND PAGE_SIZED \<noteq> 0 in
      map_chunks sys (if large then 1 else 0)
        (if large then PSE_LARGE_PAGE_SIZE else SMALL_PAGE_SIZE) vaddr root_map
        (chunks 32 page_frames) (replicate 32 \<lparr>map_number = 0, map_flags = 0\<rparr>) 0 s)"

definition lowlevel_map :: "'s update_call \<Rightarrow> 32 word option \<Rightarrow> 32 word \<Rightarrow> 64 word \<Rightarrow> 32 word \<Rightarrow>
    's \<Rightarrow> ((SyscallError + nat) \<times> 's) option" where
  "lowlevel_map sys root_map vaddr paddr flags s = map_frames sys root_map vaddr [paddr] flags s"

section \<open>Page faults\<close>

definition EX_PRESENT :: "32 word" where "EX_PRESENT = 0x01"

text \<open>
  The frame that backs an address of a mapping. Errors carry a text for the log, which is left out
  here, as is the output of the log.
\<close>

definition mapped_frame :: "AddressMapping \<Rightarrow> 32 word \<Rightarrow> (Error + 64 word) option" where
  "mapped_frame m cr2 = do {
     d \<leftarrow> checked_sub cr2 (reg_start (am_region m));
     let dev = vp_device (base_page m);
     if dev_major dev = mem_MAJOR then do {
       p \<leftarrow> add_offset (base_page m) (ucast d);
       Some (Inr (vp_offset p)) }
     else if dev_major dev = pseudo_MAJOR \<and> dev_minor dev = ZERO_MINOR then Some (Inr 0)
     else Some (Inl NotImplemented) }"

definition handle_page_fault :: "'s update_call \<Rightarrow> addr_spaces \<Rightarrow> ExceptionMessage \<Rightarrow> 's \<Rightarrow>
    ((Error + unit) \<times> 's) option" where
  "handle_page_fault sys spaces request s =
     (if em_who request = 0 then None
      else do {
        found \<leftarrow> lookup_tid (em_who request) spaces;
        case found of
          None \<Rightarrow> Some (Inl NotRegistered, s)
        | Some sp \<Rightarrow>
            (case get_mapping sp (em_cr2 request) of
               Some m \<Rightarrow>
                 if em_error_code request AND EX_PRESENT = 0 then do {
                   frame \<leftarrow> mapped_frame m (em_cr2 request);
                   case frame of
                     Inl e \<Rightarrow> Some (Inl e, s)
                   | Inr f \<Rightarrow> do {
                       (r, s) \<leftarrow> lowlevel_map sys (Some (root_page_map sp)) (em_cr2 request) f
                         (if am_flags m AND AS_READ_ONLY = AS_READ_ONLY then MAPPING_READ_ONLY else 0) s;
                       Some (case r of Inr _ \<Rightarrow> Inr () | Inl _ \<Rightarrow> Inl Failed, s) } }
                 else Some (Inl IllegalMemoryAccess, s)
             | None \<Rightarrow> Some (Inl IllegalMemoryAccess, s)) })"

definition EXCEPTION :: "32 word" where "EXCEPTION = 0xFFFFFFFF"
definition EXIT :: "32 word" where "EXIT = 0xFFFFFFFE"

text \<open>\<^verbatim>\<open>handle_message\<close> for the messages the kernel sends.\<close>

definition handle_kernel_message :: "'s update_call \<Rightarrow> addr_spaces \<Rightarrow> 32 word \<Rightarrow> 8 word list \<Rightarrow> 's \<Rightarrow>
    ((Error + unit) \<times> 's) option" where
  "handle_kernel_message sys spaces subject recv_buffer s =
     (if subject = EXCEPTION then
        (case exception_try_from recv_buffer of
           None \<Rightarrow> Some (Inl ParseError, s)
         | Some payload \<Rightarrow>
             if em_fault_num payload = 14 then handle_page_fault sys spaces payload s
             else Some (Inl NotImplemented, s))
      else if subject = EXIT then
        (case exit_try_from recv_buffer of
           None \<Rightarrow> Some (Inl ParseError, s)
         | Some _ \<Rightarrow> Some (Inr (), s))
      else Some (Inl BadRequest, s))"

section \<open>Mapping frames\<close>

lemma chunks_short: "xs \<noteq> [] \<Longrightarrow> length xs \<le> n \<Longrightarrow> chunks n xs = [xs]"
  by (cases xs) (simp_all add: chunks.simps [of n xs] chunks.simps [of n "[]"])

lemma concat_chunks: "0 < n \<Longrightarrow> concat (chunks n xs) = xs"
proof (induction n xs rule: chunks.induct)
  case (1 n xs)
  then show ?case by (subst chunks.simps) simp
qed

text \<open>A single frame is mapped with one system call, whatever the flags ask for besides the size.\<close>

lemma lowlevel_map_eq:
  assumes "flags AND PAGE_SIZED = 0"
  shows "lowlevel_map sys root vaddr p flags s =
     Some (set_page_mappings sys 0 vaddr root
       [\<lparr>map_number = of_nat (unat p div 4096), map_flags = ARRAY\<rparr>] s)"
proof -
  have "frame_number (pf_new p Small) = unat p div 4096"
  proof -
    have "align_trunc (unat p) 4096 \<le> unat p" by (rule align_bounds)
    also have "unat p < 2 ^ LENGTH(64)" by (rule unsigned_less)
    finally have "unat (of_nat (align_trunc (unat p) 4096) :: 64 word) = align_trunc (unat p) 4096"
      by (simp add: unat_of_nat)
    moreover have "align_trunc x 4096 div 4096 = x div 4096" for x :: nat
      by (simp add: align_trunc_def minus_mod_eq_mult_div)
    ultimately show ?thesis
      by (simp add: frame_number_def frame_components_def pf_new_def SMALL_PAGE_SIZE_def)
  qed
  moreover have "chunks 32 [p] = [[p]]" by (rule chunks_short) simp_all
  moreover have "take (Suc 0) ((replicate 32 x)[0 := y]) = [y]" for x y :: PageMapping
    by (simp add: take_Suc hd_conv_nth)
  moreover obtain r s' where "set_page_mappings sys 0 vaddr root
      [\<lparr>map_number = of_nat (unat p div 4096), map_flags = ARRAY\<rparr>] s = (r, s')"
    by (meson surj_pair)
  ultimately show ?thesis
    using assms
    by (cases r) (simp_all add: lowlevel_map_def map_frames_def Let_def split: SyscallError.split)
qed

text \<open>
  With several frames the call is repeated for each of them, with all entries of the array, and the
  pages are counted each time.
\<close>

lemma map_chunk_counts:
  assumes "\<forall>level v p ms s. sys level v p ms s = (int (length ms), s)" and "n \<le> length pm"
  shows "\<exists>pm'. length pm' = length pm \<and>
     map_chunk sys level a root n i ps pm count s = ((Inr (count + length ps * n), pm'), s)"
  using assms(2)
proof (induction ps arbitrary: i pm count)
  case (Cons p ps)
  let ?pm = "pm[i := \<lparr>map_number = of_nat (frame_number (pf_new p Small)), map_flags = ARRAY\<rparr>]"
  obtain pm' where "length pm' = length ?pm"
      "map_chunk sys level a root n (i + 1) ps ?pm (count + n) s =
        ((Inr (count + n + length ps * n), pm'), s)"
    using Cons.IH [of ?pm "i + 1" "count + n"] Cons.prems by auto
  moreover have "set_page_mappings sys level a root (take n ?pm) s = (Inr n, s)"
    using Cons.prems
    by (simp add: set_page_mappings_def assms(1) mapping_count_def syscall_result_def min_absorb2)
  ultimately show ?case by (simp add: Let_def add.assoc)
qed simp

lemma map_frames_counts_squares:
  assumes "\<forall>level v p ms s. sys level v p ms s = (int (length ms), s)"
    and "ps \<noteq> []" and "length ps \<le> 32"
  shows "map_frames sys root v ps fl s = Some (Inr (length ps * length ps), s)"
proof -
  let ?pm = "replicate 32 \<lparr>map_number = 0, map_flags = 0\<rparr>"
  have "length ps \<le> length ?pm" using assms(3) by simp
  note m = map_chunk_counts [OF assms(1) this]
  have "\<exists>pm'. map_chunk sys level a root (length ps) 0 ps ?pm 0 s =
      ((Inr (length ps * length ps), pm'), s)" for level a
    using m [of level a root 0 ps 0 s] by auto
  then obtain pm' where "map_chunk sys (if fl AND PAGE_SIZED \<noteq> 0 then 1 else 0) v root (length ps) 0 ps
      ?pm 0 s = ((Inr (length ps * length ps), pm'), s)" by blast
  then show ?thesis
    using assms(2,3) by (simp add: map_frames_def chunks_short Let_def)
qed


section \<open>Properties\<close>

lemma mapping_count_one: "mapping_count [x] v = (if v = 1 then Inr 1 else Inl
    (case syscall_result v of Inl e \<Rightarrow> e | Inr n \<Rightarrow> if n = 0 then SyscallFailed else PartiallyMapped n))"
proof -
  have "nat v = Suc 0 \<longleftrightarrow> v = 1" by linarith
  then show ?thesis by (auto simp: mapping_count_def syscall_result_def)
qed

lemma mapped_frame_entry:
  assumes "a \<in> addrs (am_region m)" and "offset_ok m"
  shows "mapped_frame m a =
     (case mapping_entry m a of (dev, off, _) \<Rightarrow>
        if dev_major dev = mem_MAJOR then Some (Inr off)
        else if dev_major dev = pseudo_MAJOR \<and> dev_minor dev = ZERO_MINOR then Some (Inr 0)
        else Some (Inl NotImplemented))"
proof -
  have le: "reg_start (am_region m) \<le> a" using assms(1) by (simp add: addrs_eq)
  have "unat (a - reg_start (am_region m)) < 2 ^ LENGTH(32)" by (rule unsigned_less)
  then have "unat (vp_offset (base_page m)) + unat (ucast (a - reg_start (am_region m)) :: 64 word) < 2 ^ 64"
    using assms(2) unfolding offset_ok_def unat_ucast_64 by simp
  then show ?thesis
    using le by (simp add: mapped_frame_def mapping_entry_def checked_sub_def add_offset_def checked_add_def Let_def)
qed

text \<open>
  C15. What a page fault does is determined by what the address space of the thread says about the
  address. An address that is not mapped, or that is already present, is an illegal access, and no
  system call is made. Otherwise one system call maps one page at the address: the frame the offset of
  the device refers to for memory, frame 0 for the zero device; other devices are not implemented.
  The fault is resolved exactly if the call reports one mapping. The read-only flag of the mapping
  has no influence on the call.
\<close>

theorem page_fault_resolution:
  assumes "em_who req \<noteq> 0" and "lookup_tid (em_who req) spaces = Some (Some sp)"
    and "as_inv sp" and "\<forall>m\<in>set (vaddr_map sp). offset_ok m"
  shows "handle_page_fault sys spaces req s =
    (case space_at sp (em_cr2 req) of
       None \<Rightarrow> Some (Inl IllegalMemoryAccess, s)
     | Some (dev, off, fl) \<Rightarrow>
         if em_error_code req AND EX_PRESENT \<noteq> 0 then Some (Inl IllegalMemoryAccess, s)
         else if dev_major dev \<noteq> mem_MAJOR \<and> dev \<noteq> zero_device then Some (Inl NotImplemented, s)
         else
           let f = (if dev_major dev = mem_MAJOR then unat off div 4096 else 0);
               (v, s') = sys 0 (em_cr2 req) (root_page_map sp)
                 [\<lparr>map_number = of_nat f, map_flags = ARRAY\<rparr>] s
           in Some (if v = 1 then Inr () else Inl Failed, s'))"
proof (cases "get_mapping sp (em_cr2 req)")
  case None
  then show ?thesis using assms(1,2) by (simp add: handle_page_fault_def space_at_def)
next
  case (Some m)
  have m: "m \<in> set (vaddr_map sp)" "em_cr2 req \<in> addrs (am_region m)"
    using get_mapping_Some [OF Some] by auto
  obtain dev off fl where e: "mapping_entry m (em_cr2 req) = (dev, off, fl)" by (metis prod_cases3)
  have z: "dev = zero_device \<longleftrightarrow> dev_major dev = pseudo_MAJOR \<and> dev_minor dev = ZERO_MINOR"
    by (cases dev) (auto simp: zero_device_def)
  have mz: "mem_MAJOR \<noteq> pseudo_MAJOR" by (simp add: mem_MAJOR_def pseudo_MAJOR_def)
  have fl: "(if am_flags m AND AS_READ_ONLY = AS_READ_ONLY then MAPPING_READ_ONLY else 0) AND
      PAGE_SIZED = 0"
    by (simp add: MAPPING_READ_ONLY_def PAGE_SIZED_def)
  show ?thesis
    using assms(1,2) Some mapped_frame_entry [OF m(2)] assms(4) m(1) z mz
    by (auto simp: handle_page_fault_def space_at_def e lowlevel_map_eq [OF fl] set_page_mappings_def
        mapping_count_one Let_def split: prod.split)
qed

definition ex_spaces :: addr_spaces where
  "ex_spaces = Some [(0x9000, snd (attach_thread ex_space 5))]"

definition ex_request :: "32 word \<Rightarrow> ExceptionMessage" where
  "ex_request a = \<lparr>em_eax = 0, em_ebx = 0, em_ecx = 0, em_edx = 0, em_esi = 0, em_edi = 0, em_ebp = 0,
     em_esp = 0, em_cs = 0, em_ds = 0, em_es = 0, em_fs = 0, em_gs = 0, em_ss = 0, em_eflags = 0,
     em_cr0 = 0, em_cr2 = a, em_cr3 = 0, em_cr4 = 0, em_eip = 0, em_error_code = 4,
     em_fault_num = 14, em_processor_id = 0, em_who = 5\<rparr>"

theorem page_fault_resolution_witness:
  "handle_page_fault (\<lambda>level v p ms s. (1, (v, p, ms) # s)) ex_spaces (ex_request 0x401800) [] =
     Some (Inr (), [(0x401800, 0x9000, [\<lparr>map_number = 0, map_flags = ARRAY\<rparr>])]) \<and>
   handle_page_fault (\<lambda>level v p ms s. (1, (v, p, ms) # s)) ex_spaces (ex_request 0x10) [] =
     Some (Inl IllegalMemoryAccess, [])"
proof -
  let ?sp = "snd (attach_thread ex_space 5)"
  let ?sys = "\<lambda>level v p ms s. (1, (v, p, ms) # s)"
  have v: "vaddr_map ?sp = vaddr_map ex_space" "root_page_map ?sp = 0x9000"
    by (simp_all add: attach_thread_def ex_space_def insert_mapping_def as_new_def)
  have s: "space_at ?sp = space_at ex_space" "as_inv ?sp"
    using ex_space_inv(1) by (simp_all add: space_at_def get_mapping_def as_inv_def fun_eq_iff v)
  have o: "\<forall>m\<in>set (vaddr_map ?sp). offset_ok m"
    unfolding v by (simp add: ex_space_inv(3) offset_ok_def ex_mapping_def am_new_def vp_new_def)
  have l: "lookup_tid 5 ex_spaces = Some (Some ?sp)"
    by (simp add: lookup_tid_def ex_spaces_def thread_exists_def attach_thread_def bt_contains_def
        ex_space_def insert_mapping_def as_new_def word_cmp_def)
  have n: "space_at ex_space 0x10 = None" using ex_space_inv(2) by (simp add: space_at_None)
  have r: "em_who (ex_request a) = 5" "em_cr2 (ex_request a) = a"
    "em_error_code (ex_request a) AND EX_PRESENT = 0" for a
    by (simp_all add: ex_request_def EX_PRESENT_def)
  have z: "dev_major zero_device \<noteq> mem_MAJOR"
    by (simp add: zero_device_def mem_MAJOR_def pseudo_MAJOR_def)
  show ?thesis
    using page_fault_resolution [of "ex_request 0x401800" ex_spaces ?sp ?sys "[]"] l s o n
      page_fault_resolution [of "ex_request 0x10" ex_spaces ?sp ?sys "[]"] ex_space_at z
    by (simp add: r v(2))
qed

end
