(* ===== verification/Name_Map.thy ===== *)
theory Name_Map
  imports Server_Error "HOL-Library.List_Lexorder" "HOL-Library.Char_ord"
begin

text \<open>
  The name server part of the init server (\<^verbatim>\<open>servers/init_server/src/name.rs\<close>): names of at most 12
  bytes and the threads registered under them. A panic is \<open>None\<close>.
\<close>

type_synonym name_map = "(string \<times> 16 word) list option"

definition MAX_NAME_LEN :: nat where "MAX_NAME_LEN = 12"

definition name_cmp :: "string \<Rightarrow> string \<Rightarrow> Ordering" where
  "name_cmp a b = (if a < b then Less else if b < a then Greater else Equal)"

definition name_init :: "name_map \<Rightarrow> name_map option" where
  "name_init m = (case m of Some _ \<Rightarrow> None | None \<Rightarrow> Some (Some []))"

definition name_register :: "string \<Rightarrow> 16 word \<Rightarrow> name_map \<Rightarrow> ((Error + unit) \<times> name_map) option" where
  "name_register name tid m = do {
     nm \<leftarrow> m;
     Some (if length name > MAX_NAME_LEN then (Inl TooLong, m)
           else if btm_get name_cmp name nm \<noteq> None then (Inl AlreadyRegistered, m)
           else (Inr (), Some (btm_insert name_cmp name tid nm))) }"

definition name_lookup :: "string \<Rightarrow> name_map \<Rightarrow> 16 word option option" where
  "name_lookup name m = do { nm \<leftarrow> m; Some (btm_get name_cmp name nm) }"

definition name_unregister :: "string \<Rightarrow> name_map \<Rightarrow> (16 word option \<times> name_map) option" where
  "name_unregister name m = do {
     nm \<leftarrow> m; Some (btm_get name_cmp name nm, Some (btm_remove name_cmp name nm)) }"

definition unregister_tid :: "16 word \<Rightarrow> name_map \<Rightarrow> (string list option \<times> name_map) option" where
  "unregister_tid tid m = do {
     nm \<leftarrow> m;
     let matched_keys = List.map_filter (\<lambda>(k, v). if v = tid then Some k else None) nm;
     Some (if matched_keys = [] then None else Some matched_keys,
           Some (filter (\<lambda>(k, v). v \<noteq> tid) nm)) }"

section \<open>The map of names\<close>

interpretation names: ordered_keys name_cmp
  by unfold_locales (simp add: name_cmp_def)

definition name_inv :: "(string \<times> 16 word) list \<Rightarrow> bool" where
  "name_inv nm \<longleftrightarrow> ordered fst nm \<and> (\<forall>k\<in>fst ` set nm. length k \<le> MAX_NAME_LEN)"

lemma ordered_fst_filter: "ordered fst m \<Longrightarrow> ordered fst (filter P m)"
  by (induction m) auto

lemma ordered_fst_distinct: "ordered fst m \<Longrightarrow> distinct (map fst m)"
proof (induction m)
  case (Cons a m)
  then have "fst a \<notin> fst ` set m" by fastforce
  then show ?case using Cons by simp
qed simp

lemma map_of_filter_value:
  assumes "ordered fst m"
  shows "map_of (filter (\<lambda>(k, v). v \<noteq> tid) m) k = (if map_of m k = Some tid then None else map_of m k)"
  using assms
proof (induction m)
  case (Cons a m)
  then have "map_of m (fst a) = None" by (force simp: map_of_eq_None_iff)
  then show ?case using Cons by (cases a) auto
qed simp

lemma matched_keys: "List.map_filter (\<lambda>(k, v). if v = tid then Some k else None) m =
    map fst (filter (\<lambda>(k, v). v = tid) m)"
  by (induction m) (auto simp: List.map_filter_def split: if_splits)

section \<open>Properties\<close>

text \<open>
  C21. The name map is a partial map from names to threads. Registering a name of at most 12 bytes
  that is not taken adds it, any other registration is refused and changes nothing; unregistering
  removes a name and returns its thread; unregistering a thread removes exactly its names and returns
  them. All of them keep the map in order and its names short.
\<close>

theorem name_map_is_partial_map:
  assumes "name_inv nm"
  shows "name_lookup n (Some nm) = Some (map_of nm n) \<and>
   (\<exists>nm'. name_register n t (Some nm) =
        Some (if length n > MAX_NAME_LEN then Inl TooLong
              else if map_of nm n \<noteq> None then Inl AlreadyRegistered else Inr (), Some nm') \<and>
      name_inv nm' \<and> map_of nm' = (if length n > MAX_NAME_LEN \<or> map_of nm n \<noteq> None then map_of nm
        else (map_of nm)(n \<mapsto> t))) \<and>
   (\<exists>nm'. name_unregister n (Some nm) = Some (map_of nm n, Some nm') \<and> name_inv nm' \<and>
      map_of nm' = (map_of nm)(n := None)) \<and>
   (\<exists>ks nm'. unregister_tid t (Some nm) = Some (ks, Some nm') \<and> name_inv nm' \<and>
      map_of nm' = (\<lambda>k. if map_of nm k = Some t then None else map_of nm k) \<and>
      (case ks of None \<Rightarrow> \<forall>k. map_of nm k \<noteq> Some t | Some ks \<Rightarrow> set ks = {k. map_of nm k = Some t}))"
proof -
  have o: "ordered fst nm" and l: "\<forall>k\<in>fst ` set nm. length k \<le> MAX_NAME_LEN"
    using assms by (auto simp: name_inv_def)
  have ks: "set (map fst (filter (\<lambda>(k, v). v = t) nm)) = {k. map_of nm k = Some t}"
    using map_of_eq_Some_iff [OF ordered_fst_distinct [OF o]] by force
  have reg: "name_inv (btm_insert name_cmp n t nm)" if "\<not> length n > MAX_NAME_LEN"
    using that o l by (simp add: name_inv_def names.ordered_fst_insert names.keys_insert)
  have rem: "name_inv (btm_remove name_cmp n nm)"
    using o l names.set_btm_remove [of n nm]
    by (auto simp: name_inv_def names.ordered_fst_remove)
  have fil: "name_inv (filter (\<lambda>(k, v). v \<noteq> t) nm)"
    using o l by (auto simp: name_inv_def ordered_fst_filter)
  have "\<exists>nm'. name_register n t (Some nm) =
        Some (if length n > MAX_NAME_LEN then Inl TooLong
              else if map_of nm n \<noteq> None then Inl AlreadyRegistered else Inr (), Some nm') \<and>
      name_inv nm' \<and> map_of nm' = (if length n > MAX_NAME_LEN \<or> map_of nm n \<noteq> None then map_of nm
        else (map_of nm)(n \<mapsto> t))"
    using assms reg by (simp add: name_register_def names.get_map_of names.map_of_insert [OF o])
  moreover have "\<exists>nm'. name_unregister n (Some nm) = Some (map_of nm n, Some nm') \<and> name_inv nm' \<and>
      map_of nm' = (map_of nm)(n := None)"
    using rem by (simp add: name_unregister_def names.get_map_of names.map_of_remove [OF o])
  moreover have "\<exists>ks nm'. unregister_tid t (Some nm) = Some (ks, Some nm') \<and> name_inv nm' \<and>
      map_of nm' = (\<lambda>k. if map_of nm k = Some t then None else map_of nm k) \<and>
      (case ks of None \<Rightarrow> \<forall>k. map_of nm k \<noteq> Some t | Some ks \<Rightarrow> set ks = {k. map_of nm k = Some t})"
  proof -
    define K where "K = map fst (filter (\<lambda>(k, v). v = t) nm)"
    have "K = [] \<Longrightarrow> \<forall>k. map_of nm k \<noteq> Some t" using ks unfolding K_def [symmetric] by auto
    moreover have "unregister_tid t (Some nm) =
        Some (if K = [] then None else Some K, Some (filter (\<lambda>(k, v). v \<noteq> t) nm))"
      by (simp add: unregister_tid_def matched_keys K_def)
    ultimately show ?thesis
      using fil ks map_of_filter_value [OF o, of t] unfolding K_def [symmetric]
      by (auto simp: fun_eq_iff)
  qed
  ultimately show ?thesis by (simp add: name_lookup_def names.get_map_of)
qed

theorem name_map_is_partial_map_witness:
  "let nm = [(''init'', 1), (''rtc'', 7)] in
   name_inv nm \<and> name_lookup ''rtc'' (Some nm) = Some (Some 7) \<and>
   (\<exists>nm'. name_register ''vfs'' 3 (Some nm) = Some (Inr (), Some nm') \<and> name_inv nm' \<and>
     map_of nm' = (map_of nm)(''vfs'' \<mapsto> 3))"
proof -
  let ?nm = "[(''init'', 1), (''rtc'', 7)]"
  have "name_inv ?nm" by (simp add: name_inv_def MAX_NAME_LEN_def less_char_def)
  note t = name_map_is_partial_map [OF this]
  show ?thesis
    using t [of "''rtc''" 0] t [of "''vfs''" 3] \<open>name_inv ?nm\<close>
    by (simp add: Let_def MAX_NAME_LEN_def)
qed

end
