(* ===== verification/Libc_String.thy ===== *)
theory Libc_String
  imports Prelude "HOL-Library.Monad_Syntax"
begin

text \<open>
  The memory and string functions of the C library (\<^verbatim>\<open>lib/libc/string\<close>) on the memory of a process:
  a function from 32-bit addresses to bytes, in which pointers wrap around. A null pointer is the
  address 0, and \<^verbatim>\<open>char\<close> is signed. A loop that runs until it meets a terminator need not end: the
  result of a function with such a loop is an option, and \<open>None\<close> is a call that does not return.
  Every address can be read and written.
\<close>

type_synonym cmem = "32 word \<Rightarrow> 8 word"

named_theorems cstring \<open>the string functions on terminated strings\<close>

section \<open>Blocks of memory\<close>

primrec memcpy_loop :: "nat \<Rightarrow> 32 word \<Rightarrow> 32 word \<Rightarrow> cmem \<Rightarrow> cmem" where
  "memcpy_loop 0 d s m = m"
| "memcpy_loop (Suc num) d s m = memcpy_loop num (d + 1) (s + 1) (m(d := m s))"

definition libc_memcpy :: "32 word \<Rightarrow> 32 word \<Rightarrow> 32 word \<Rightarrow> cmem \<Rightarrow> cmem" where
  "libc_memcpy dest src num m = (if src \<noteq> 0 \<and> dest \<noteq> 0 then memcpy_loop (unat num) dest src m else m)"

text \<open>\<^verbatim>\<open>memmove\<close> allocates a buffer; \<open>buffer\<close> is what \<^verbatim>\<open>malloc\<close> returns.\<close>

definition memmove :: "32 word \<Rightarrow> 32 word \<Rightarrow> 32 word \<Rightarrow> 32 word \<Rightarrow> cmem \<Rightarrow> 32 word \<times> cmem" where
  "memmove buffer dest src num m =
     (if buffer = 0 then (0, m)
      else (dest, libc_memcpy dest buffer num (libc_memcpy buffer src num m)))"

primrec memset_loop :: "nat \<Rightarrow> 32 word \<Rightarrow> 8 word \<Rightarrow> cmem \<Rightarrow> cmem" where
  "memset_loop 0 buff c m = m"
| "memset_loop (Suc num) buff c m = memset_loop num (buff + 1) c (m(buff := c))"

definition libc_memset :: "32 word \<Rightarrow> int \<Rightarrow> 32 word \<Rightarrow> cmem \<Rightarrow> cmem" where
  "libc_memset buffer c num m = memset_loop (unat num) buffer (word_of_int c) m"

primrec memchr_loop :: "nat \<Rightarrow> 32 word \<Rightarrow> 8 word \<Rightarrow> cmem \<Rightarrow> 32 word" where
  "memchr_loop 0 buff c m = 0"
| "memchr_loop (Suc num) buff c m = (if m buff \<noteq> c then memchr_loop num (buff + 1) c m else buff)"

definition memchr :: "32 word \<Rightarrow> int \<Rightarrow> 32 word \<Rightarrow> cmem \<Rightarrow> 32 word" where
  "memchr buffer c num m = memchr_loop (unat num) buffer (word_of_int c) m"

primrec memcmp_loop :: "nat \<Rightarrow> 32 word \<Rightarrow> 32 word \<Rightarrow> cmem \<Rightarrow> int" where
  "memcmp_loop 0 str1 str2 m = 0"
| "memcmp_loop (Suc n) str1 str2 m =
     (if m str1 = m str2 then memcmp_loop n (str1 + 1) (str2 + 1) m
      else uint (m str1) - uint (m str2))"

definition memcmp :: "32 word \<Rightarrow> 32 word \<Rightarrow> 32 word \<Rightarrow> cmem \<Rightarrow> int" where
  "memcmp s1 s2 n m =
     (if n = 0 \<or> (s1 = 0 \<and> s2 = 0) then 0
      else if s1 = 0 then - uint (m s2)
      else if s2 = 0 then uint (m s1)
      else memcmp_loop (unat n) s1 s2 m)"

section \<open>Strings\<close>

partial_function (option) strlen_loop :: "cmem \<Rightarrow> 32 word \<Rightarrow> 32 word option" where
  "strlen_loop m string = (if m string \<noteq> 0 then strlen_loop m (string + 1) else Some string)"

definition strlen :: "32 word \<Rightarrow> cmem \<Rightarrow> 32 word option" where
  "strlen string m =
     (if string \<noteq> 0 then do { e \<leftarrow> strlen_loop m string; Some (e - string) } else Some 0)"

partial_function (option) strcpy :: "32 word \<Rightarrow> 32 word \<Rightarrow> cmem \<Rightarrow> cmem option" where
  "strcpy s1 s2 m =
     (let m' = m(s1 := m s2) in
      if m s2 \<noteq> 0 then strcpy (s1 + 1) (s2 + 1) m' else Some m')"

definition strcat :: "32 word \<Rightarrow> 32 word \<Rightarrow> cmem \<Rightarrow> cmem option" where
  "strcat dest src m = do { n \<leftarrow> strlen dest m; strcpy (dest + n) src m }"

text \<open>
  The first loop of \<^verbatim>\<open>strncpy\<close> returns the pointer, the count and the memory it leaves; the count is
  not reduced for the terminator.
\<close>

primrec strncpy_copy :: "nat \<Rightarrow> 32 word \<Rightarrow> 32 word \<Rightarrow> cmem \<Rightarrow> 32 word \<times> nat \<times> cmem" where
  "strncpy_copy 0 s1 s2 m = (s1, 0, m)"
| "strncpy_copy (Suc n) s1 s2 m =
     (let m' = m(s1 := m s2) in
      if m s2 \<noteq> 0 then strncpy_copy n (s1 + 1) (s2 + 1) m' else (s1 + 1, Suc n, m'))"

definition strncpy :: "32 word \<Rightarrow> 32 word \<Rightarrow> 32 word \<Rightarrow> cmem \<Rightarrow> cmem" where
  "strncpy s1 s2 n m =
     (case strncpy_copy (unat n) s1 s2 m of (s, k, m') \<Rightarrow>
        if k > 0 then memset_loop (k - 1) s 0 m' else m')"

primrec strncat_copy :: "nat \<Rightarrow> 32 word \<Rightarrow> 32 word \<Rightarrow> cmem \<Rightarrow> 32 word \<times> cmem" where
  "strncat_copy 0 dest src m = (dest, m)"
| "strncat_copy (Suc num) dest src m =
     (if m src \<noteq> 0 then strncat_copy num (dest + 1) (src + 1) (m(dest := m src)) else (dest, m))"

definition strncat :: "32 word \<Rightarrow> 32 word \<Rightarrow> 32 word \<Rightarrow> cmem \<Rightarrow> cmem option" where
  "strncat dest src num m = do {
     n \<leftarrow> strlen dest m;
     let (d, m') = strncat_copy (unat num) (dest + n) src m;
     Some (m'(d := 0)) }"

partial_function (option) strcmp_loop :: "32 word \<Rightarrow> 32 word \<Rightarrow> cmem \<Rightarrow> int option" where
  "strcmp_loop s1 s2 m =
     (if m s1 \<noteq> 0 \<and> m s1 = m s2 then strcmp_loop (s1 + 1) (s2 + 1) m
      else Some (sint (m s1) - sint (m s2)))"

definition strcmp :: "32 word \<Rightarrow> 32 word \<Rightarrow> cmem \<Rightarrow> int option" where
  "strcmp s1 s2 m =
     (if s1 \<noteq> 0 \<and> s2 \<noteq> 0 then strcmp_loop s1 s2 m
      else if s2 = 0 then Some (sint (m s1))
      else if s1 = 0 then Some (- sint (m s2))
      else Some 0)"

primrec strncmp_loop :: "nat \<Rightarrow> 32 word \<Rightarrow> 32 word \<Rightarrow> cmem \<Rightarrow> int" where
  "strncmp_loop 0 s1 s2 m = 0"
| "strncmp_loop (Suc n) s1 s2 m =
     (if m s1 \<noteq> 0 \<and> m s1 = m s2 then strncmp_loop n (s1 + 1) (s2 + 1) m
      else sint (m s1) - sint (m s2))"

definition strncmp :: "32 word \<Rightarrow> 32 word \<Rightarrow> 32 word \<Rightarrow> cmem \<Rightarrow> int" where
  "strncmp s1 s2 n m = strncmp_loop (unat n) s1 s2 m"

partial_function (option) strchr_loop :: "32 word \<Rightarrow> int \<Rightarrow> cmem \<Rightarrow> 32 word option" where
  "strchr_loop s c m =
     (if m s \<noteq> 0 \<and> sint (m s) \<noteq> c then strchr_loop (s + 1) c m else Some s)"

definition strchr :: "32 word \<Rightarrow> int \<Rightarrow> cmem \<Rightarrow> 32 word option" where
  "strchr s c m =
     (if s \<noteq> 0 then do { p \<leftarrow> strchr_loop s c m; Some (if sint (m p) = c then p else 0) } else Some 0)"

partial_function (option) strrchr_loop :: "32 word \<Rightarrow> 32 word \<Rightarrow> int \<Rightarrow> cmem \<Rightarrow> 32 word option" where
  "strrchr_loop addr s c m =
     (if m s \<noteq> 0 then strrchr_loop (if sint (m s) = c then s else addr) (s + 1) c m else Some addr)"

definition strrchr :: "32 word \<Rightarrow> int \<Rightarrow> cmem \<Rightarrow> 32 word option" where
  "strrchr s c m = (if s \<noteq> 0 then strrchr_loop 0 s c m else Some 0)"

text \<open>
  The inner loop of the functions that look a character up in a set of characters: it stops at the
  character or at the terminator of the set.
\<close>

partial_function (option) scan_set :: "8 word \<Rightarrow> 32 word \<Rightarrow> cmem \<Rightarrow> 32 word option" where
  "scan_set c p m = (if m p \<noteq> 0 \<and> c \<noteq> m p then scan_set c (p + 1) m else Some p)"

partial_function (option) strspn_loop :: "32 word \<Rightarrow> 32 word \<Rightarrow> 32 word \<Rightarrow> cmem \<Rightarrow> 32 word option" where
  "strspn_loop num s accept m =
     (if m s \<noteq> 0 then do {
        p \<leftarrow> scan_set (m s) accept m;
        if m p = 0 then Some num else strspn_loop (num + 1) (s + 1) accept m }
      else Some num)"

definition strspn :: "32 word \<Rightarrow> 32 word \<Rightarrow> cmem \<Rightarrow> 32 word option" where
  "strspn s accept m = (if accept = 0 then strlen s m else strspn_loop 0 s accept m)"

partial_function (option) strcspn_loop :: "32 word \<Rightarrow> 32 word \<Rightarrow> 32 word \<Rightarrow> cmem \<Rightarrow> 32 word option" where
  "strcspn_loop len s1 s2 m =
     (if m (s1 + len) \<noteq> 0 then do {
        p \<leftarrow> scan_set (m (s1 + len)) s2 m;
        if m p \<noteq> 0 then Some len else strcspn_loop (len + 1) s1 s2 m }
      else Some len)"

definition strcspn :: "32 word \<Rightarrow> 32 word \<Rightarrow> cmem \<Rightarrow> 32 word option" where
  "strcspn s1 s2 m = strcspn_loop 0 s1 s2 m"

partial_function (option) strpbrk :: "32 word \<Rightarrow> 32 word \<Rightarrow> cmem \<Rightarrow> 32 word option" where
  "strpbrk p1 s2 m =
     (if m p1 \<noteq> 0 then do {
        p \<leftarrow> scan_set (m p1) s2 m;
        if m p \<noteq> 0 then Some p1 else strpbrk (p1 + 1) s2 m }
      else Some 0)"

text \<open>
  \<^verbatim>\<open>strstr\<close>: the inner loop compares the needle with what follows in the haystack. The outer loop
  goes on behind \<^verbatim>\<open>haystackStart\<close>, which never changes.
\<close>

partial_function (option) strstr_match :: "32 word \<Rightarrow> 32 word \<Rightarrow> cmem \<Rightarrow> (32 word \<times> 32 word) option" where
  "strstr_match haystack needle m =
     (if m needle \<noteq> 0 \<and> m haystack = m needle then strstr_match (haystack + 1) (needle + 1) m
      else Some (haystack, needle))"

partial_function (option) strstr_loop :: "32 word \<Rightarrow> 32 word \<Rightarrow> 32 word \<Rightarrow> cmem \<Rightarrow> 32 word option" where
  "strstr_loop haystackStart needleStart haystack m =
     (if m haystack \<noteq> 0 then do {
        (h, n) \<leftarrow> strstr_match haystack needleStart m;
        if m n = 0 then Some haystackStart
        else strstr_loop haystackStart needleStart (haystackStart + 1) m }
      else Some 0)"

definition strstr :: "32 word \<Rightarrow> 32 word \<Rightarrow> cmem \<Rightarrow> 32 word option" where
  "strstr haystack needle m = (if haystack \<noteq> 0 then strstr_loop haystack needle haystack m else Some 0)"

text \<open>\<^verbatim>\<open>strtok\<close> keeps the rest of the string it works on in a static variable \<^verbatim>\<open>tmp\<close>.\<close>

partial_function (option) strtok_skip :: "32 word \<Rightarrow> 32 word \<Rightarrow> 32 word \<Rightarrow> cmem \<Rightarrow> 32 word option" where
  "strtok_skip p s1 s2 m =
     (if m p \<noteq> 0 \<and> m s1 \<noteq> 0 then
        if m s1 = m p then strtok_skip s2 (s1 + 1) s2 m else strtok_skip (p + 1) s1 s2 m
      else Some s1)"

partial_function (option) strtok_token :: "32 word \<Rightarrow> 32 word \<Rightarrow> cmem \<Rightarrow> (32 word \<times> cmem) option" where
  "strtok_token tmp s2 m =
     (if m tmp \<noteq> 0 then do {
        p \<leftarrow> scan_set (m tmp) s2 m;
        if m p \<noteq> 0 then Some (tmp + 1, m(tmp := 0)) else strtok_token (tmp + 1) s2 m }
      else Some (0, m))"

definition strtok :: "32 word \<Rightarrow> 32 word \<Rightarrow> 32 word \<Rightarrow> cmem \<Rightarrow> (32 word \<times> 32 word \<times> cmem) option" where
  "strtok s1 s2 tmp m =
     (if s1 = 0 \<and> tmp = 0 then Some (0, tmp, m)
      else do {
        s1 \<leftarrow> strtok_skip s2 (if s1 \<noteq> 0 then s1 else tmp) s2 m;
        if m s1 = 0 then Some (0, 0, m)
        else do { (tmp, m) \<leftarrow> strtok_token s1 s2 m; Some (s1, tmp, m) } })"

section \<open>Areas of memory\<close>

definition area :: "32 word \<Rightarrow> nat \<Rightarrow> 32 word set" where
  "area a n = {x. unat (x - a) < n}"

lemma unat_sub_Suc: "x \<noteq> a \<Longrightarrow> unat (x - a) = Suc (unat (x - (a + 1)))" for a x :: "32 word"
  using unat_minus_one [of "x - a"] unat_gt_0 [of "x - a"] by (simp add: diff_diff_eq)

lemma area_0 [simp]: "area a 0 = {}"
  by (simp add: area_def)

lemma area_head: "n < 2 ^ 32 \<Longrightarrow> a \<notin> area (a + 1) n"
  by (simp add: area_def unsigned_minus_1_eq_mask mask_eq_exp_minus_1)

lemma area_Suc: "n < 2 ^ 32 \<Longrightarrow> area a (Suc n) = insert a (area (a + 1) n)"
proof (rule set_eqI)
  fix x assume n: "n < 2 ^ 32"
  show "x \<in> area a (Suc n) \<longleftrightarrow> x \<in> insert a (area (a + 1) n)"
    using area_head [OF n, of a] by (cases "x = a") (simp_all add: area_def unat_sub_Suc)
qed

lemma area_mono: "n \<le> k \<Longrightarrow> area a n \<subseteq> area a k"
  by (auto simp: area_def)

lemma area_offset: "i < n \<Longrightarrow> n \<le> 2 ^ 32 \<Longrightarrow> a + of_nat i \<in> area a n"
  by (simp add: area_def unat_of_nat_small)

lemmas unat_le32 = less_imp_le [OF unat_less32]

lemma area_add:
  assumes "k + n \<le> 2 ^ 32"
  shows "x \<in> area (a + of_nat k) n \<longleftrightarrow> x \<in> area a (k + n) \<and> x \<notin> area a k"
proof (cases "n = 0")
  case False
  then have u: "unat (of_nat k :: 32 word) = k" using assms by (intro unat_of_nat_small) simp
  have e: "x - (a + of_nat k) = (x - a) - of_nat k" by (simp add: algebra_simps)
  have "unat (x - (a + of_nat k)) = (if k \<le> unat (x - a) then unat (x - a) - k
      else unat (x - a) + 2 ^ 32 - k)"
    unfolding e using unat_sub_if' [of "x - a" "of_nat k"] by (simp add: u)
  then show ?thesis using assms by (cases "k \<le> unat (x - a)") (auto simp: area_def)
qed simp

text \<open>An area that does not wrap around is an interval.\<close>

lemma area_unat:
  assumes "unat a + n \<le> 2 ^ 32"
  shows "x \<in> area a n \<longleftrightarrow> unat a \<le> unat x \<and> unat x < unat a + n"
proof -
  have "unat (x - a) = (if unat a \<le> unat x then unat x - unat a else unat x + 2 ^ 32 - unat a)"
    using unat_sub_if' [of x a] by simp
  then show ?thesis
    using assms by (cases "unat a \<le> unat x") (auto simp: area_def)
qed

lemma memcpy_loop_eq:
  assumes "n \<le> 2 ^ 32" and "area d n \<inter> area s n = {}"
  shows "memcpy_loop n d s m = (\<lambda>x. if x \<in> area d n then m (s + (x - d)) else m x)"
  using assms
proof (induction n arbitrary: d s m)
  case (Suc n)
  then have n: "n < 2 ^ 32" by simp
  have "area (d + 1) n \<inter> area (s + 1) n = {}" and d: "d \<notin> area (s + 1) n"
    using Suc.prems(2) by (auto simp: area_Suc [OF n])
  then have "memcpy_loop (Suc n) d s m =
      (\<lambda>x. if x \<in> area (d + 1) n then (m(d := m s)) (s + 1 + (x - (d + 1))) else (m(d := m s)) x)"
    using Suc.IH n by simp
  moreover have "s + 1 + (x - (d + 1)) \<noteq> d" if "x \<in> area (d + 1) n" for x
  proof
    assume "s + 1 + (x - (d + 1)) = d"
    then have e: "x - (d + 1) = d - (s + 1)" by (metis add_diff_cancel_left')
    show False using d that unfolding area_def mem_Collect_eq e by (rule notE)
  qed
  ultimately show ?case
    by (auto simp: area_Suc [OF n] area_head [OF n] fun_eq_iff)
qed simp

lemma libc_memcpy_eq:
  assumes "dest \<noteq> 0" and "src \<noteq> 0" and "area dest (unat num) \<inter> area src (unat num) = {}"
  shows "libc_memcpy dest src num m =
    (\<lambda>x. if x \<in> area dest (unat num) then m (src + (x - dest)) else m x)"
  using assms memcpy_loop_eq [OF unat_le32 assms(3)] by (simp add: libc_memcpy_def)

lemma memset_loop_eq:
  "n \<le> 2 ^ 32 \<Longrightarrow> memset_loop n a c m = (\<lambda>x. if x \<in> area a n then c else m x)"
proof (induction n arbitrary: a m)
  case (Suc n)
  then show ?case by (auto simp: area_Suc)
qed simp

lemma libc_memset_eq:
  "libc_memset a c n m = (\<lambda>x. if x \<in> area a (unat n) then word_of_int c else m x)"
  unfolding libc_memset_def by (rule memset_loop_eq [OF unat_le32])

text \<open>\<^verbatim>\<open>memmove\<close> also copies between areas that overlap.\<close>

lemma memmove_eq:
  assumes "buffer \<noteq> 0" "dest \<noteq> 0" "src \<noteq> 0"
    and "area buffer (unat num) \<inter> (area src (unat num) \<union> area dest (unat num)) = {}"
  shows "fst (memmove buffer dest src num m) = dest"
    and "x \<notin> area buffer (unat num) \<Longrightarrow> snd (memmove buffer dest src num m) x =
      (if x \<in> area dest (unat num) then m (src + (x - dest)) else m x)"
proof -
  have "area buffer (unat num) \<inter> area src (unat num) = {}" "area dest (unat num) \<inter> area buffer (unat num) = {}"
    using assms(4) by auto
  then show "fst (memmove buffer dest src num m) = dest"
    and "x \<notin> area buffer (unat num) \<Longrightarrow> snd (memmove buffer dest src num m) x =
      (if x \<in> area dest (unat num) then m (src + (x - dest)) else m x)"
    using assms(1-3) by (simp_all add: memmove_def libc_memcpy_eq area_def)
qed

section \<open>Terminated strings\<close>

text \<open>\<open>cstr m a xs\<close>: at address \<open>a\<close> there is the string \<open>xs\<close>.\<close>

primrec cstr :: "cmem \<Rightarrow> 32 word \<Rightarrow> 8 word list \<Rightarrow> bool" where
  "cstr m a [] \<longleftrightarrow> m a = 0"
| "cstr m a (x # xs) \<longleftrightarrow> m a = x \<and> x \<noteq> 0 \<and> cstr m (a + 1) xs"

lemma cstr_nonzero: "cstr m a xs \<Longrightarrow> 0 \<notin> set xs"
  by (induction xs arbitrary: a) auto

lemma cstr_drop: "cstr m a xs \<Longrightarrow> k \<le> length xs \<Longrightarrow> cstr m (a + of_nat k) (drop k xs)"
proof (induction xs arbitrary: a k)
  case (Cons x xs)
  then show ?case
    by (cases k) (simp_all add: add.assoc [symmetric] add.commute [of _ 1])
qed simp

lemma cstr_nth: "cstr m a xs \<Longrightarrow> i < length xs \<Longrightarrow> m (a + of_nat i) = xs ! i"
  using cstr_drop [of m a xs i] by (simp add: Cons_nth_drop_Suc [symmetric])

lemma cstr_end: "cstr m a xs \<Longrightarrow> m (a + of_nat (length xs)) = 0"
  using cstr_drop [of m a xs "length xs"] by simp

lemma cstr_length: "cstr m a xs \<Longrightarrow> length xs < 2 ^ 32"
proof (rule ccontr)
  assume c: "cstr m a xs" and "\<not> length xs < 2 ^ 32"
  then have l: "length xs mod 2 ^ 32 < length xs"
    by (metis mod_less_divisor not_less order_less_le_trans zero_less_numeral zero_less_power)
  have "(of_nat (length xs mod 2 ^ 32) :: 32 word) = of_nat (length xs)"
    by (simp add: word_of_nat_eq_iff take_bit_eq_mod)
  then show False
    using cstr_nth [OF c l] cstr_end [OF c] cstr_nonzero [OF c] nth_mem [OF l] by auto
qed

lemma cstr_eq: "cstr m a xs \<Longrightarrow> cstr m a ys \<Longrightarrow> xs = ys"
proof (induction xs arbitrary: a ys)
  case Nil
  then show ?case by (cases ys) auto
next
  case (Cons x xs)
  then show ?case by (cases ys) auto
qed

lemma cstr_cong:
  "length xs < 2 ^ 32 \<Longrightarrow> \<forall>x\<in>area a (Suc (length xs)). m x = m' x \<Longrightarrow> cstr m a xs = cstr m' a xs"
  by (induction xs arbitrary: a) (simp_all add: area_Suc)

lemma strlen_loop_cstr [cstring]:
  "cstr m a xs \<Longrightarrow> strlen_loop m a = Some (a + of_nat (length xs))"
  by (induction xs arbitrary: a) (simp_all add: strlen_loop.simps algebra_simps)

lemma strlen_cstr [cstring]: "cstr m a xs \<Longrightarrow> a \<noteq> 0 \<Longrightarrow> strlen a m = Some (of_nat (length xs))"
  by (simp add: strlen_def strlen_loop_cstr)

lemma strlen_loop_Some: "strlen_loop m a = Some e \<Longrightarrow> \<exists>xs. cstr m a xs"
proof (rule strlen_loop.raw_induct [where P = "\<lambda>m a e. \<exists>xs. cstr m a xs"])
  fix f m a e
  assume IH: "\<And>m a e. f m a = Some e \<Longrightarrow> \<exists>xs. cstr m a xs"
    and f: "(if m a \<noteq> 0 then f m (a + 1) else Some a) = Some e"
  show "\<exists>xs. cstr m a xs"
  proof (cases "m a = 0")
    case True
    then have "cstr m a []" by simp
    then show ?thesis ..
  next
    case False
    then have "f m (a + 1) = Some e" using f by simp
    then obtain xs where "cstr m (a + 1) xs" using IH by blast
    then have "cstr m a (m a # xs)" using False by simp
    then show ?thesis ..
  qed
qed

lemma strlen_Some_iff:
  "a \<noteq> 0 \<Longrightarrow> strlen a m = Some n \<longleftrightarrow> (\<exists>xs. cstr m a xs \<and> n = of_nat (length xs))"
proof
  assume a: "a \<noteq> 0" and s: "strlen a m = Some n"
  then obtain e where "strlen_loop m a = Some e" by (cases "strlen_loop m a") (simp_all add: strlen_def)
  then obtain xs where "cstr m a xs" using strlen_loop_Some by blast
  then show "\<exists>xs. cstr m a xs \<and> n = of_nat (length xs)" using strlen_cstr [OF _ a] s by auto
qed (auto simp: strlen_cstr)

section \<open>Functions that read strings\<close>

lemma strchr_loop_cstr [cstring]:
  "cstr m a xs \<Longrightarrow> strchr_loop a c m = Some (a + of_nat (length (takeWhile (\<lambda>x. sint x \<noteq> c) xs)))"
  by (induction xs arbitrary: a) (simp_all add: strchr_loop.simps algebra_simps)

lemma cstr_takeWhile:
  assumes "cstr m a xs"
  shows "m (a + of_nat (length (takeWhile P xs))) =
    (if \<forall>x\<in>set xs. P x then 0 else hd (dropWhile P xs))"
  using assms
proof (cases "\<forall>x\<in>set xs. P x")
  case True
  then show ?thesis using cstr_end [OF assms] by (simp add: takeWhile_eq_all_conv [THEN iffD2])
next
  case False
  then have "length (takeWhile P xs) < length xs"
    by (metis length_takeWhile_le nat_less_le takeWhile_eq_all_conv takeWhile_eq_take take_all_iff)
  then show ?thesis
    using cstr_nth [OF assms] False by (simp add: dropWhile_eq_drop hd_drop_conv_nth if_not_P)
qed

lemma strchr_cstr [cstring]:
  assumes "cstr m a xs" and "a \<noteq> 0"
  shows "strchr a c m = Some
    (if c \<in> sint ` set xs \<or> c = 0 then a + of_nat (length (takeWhile (\<lambda>x. sint x \<noteq> c) xs)) else 0)"
proof (cases "\<forall>x\<in>set xs. sint x \<noteq> c")
  case True
  then show ?thesis
    using assms cstr_takeWhile [OF assms(1), of "\<lambda>x. sint x \<noteq> c"]
    by (auto simp: strchr_def strchr_loop_cstr)
next
  case False
  then have "dropWhile (\<lambda>x. sint x \<noteq> c) xs \<noteq> []" by simp
  from hd_dropWhile [OF this] show ?thesis
    using False assms cstr_takeWhile [OF assms(1), of "\<lambda>x. sint x \<noteq> c"]
    by (auto simp: strchr_def strchr_loop_cstr)
qed

text \<open>The address of the last character that satisfies \<open>P\<close>, or \<open>r\<close> if there is none.\<close>

primrec last_such :: "(8 word \<Rightarrow> bool) \<Rightarrow> 32 word \<Rightarrow> 32 word \<Rightarrow> 8 word list \<Rightarrow> 32 word" where
  "last_such P r a [] = r"
| "last_such P r a (x # xs) = last_such P (if P x then a else r) (a + 1) xs"

lemma last_such_append: "last_such P r a (xs @ ys) = last_such P (last_such P r a xs) (a + of_nat (length xs)) ys"
  by (induction xs arbitrary: r a) (simp_all add: algebra_simps)

lemma last_such_none: "\<forall>x\<in>set xs. \<not> P x \<Longrightarrow> last_such P r a xs = r"
  by (induction xs arbitrary: r a) simp_all

lemma strrchr_loop_cstr [cstring]:
  "cstr m a xs \<Longrightarrow> strrchr_loop r a c m = Some (last_such (\<lambda>x. sint x = c) r a xs)"
  by (induction xs arbitrary: a r) (simp_all add: strrchr_loop.simps)

lemma strrchr_cstr:
  assumes "cstr m a xs" and "a \<noteq> 0"
  shows "c \<notin> sint ` set xs \<Longrightarrow> strrchr a c m = Some 0"
    and "xs = ys @ x # zs \<Longrightarrow> sint x = c \<Longrightarrow> c \<notin> sint ` set zs \<Longrightarrow>
      strrchr a c m = Some (a + of_nat (length ys))"
proof -
  show "strrchr a c m = Some 0" if "c \<notin> sint ` set xs"
  proof -
    have "\<forall>x\<in>set xs. sint x \<noteq> c" using that by (metis imageI)
    then show ?thesis using assms by (simp add: strrchr_def strrchr_loop_cstr last_such_none)
  qed
  show "strrchr a c m = Some (a + of_nat (length ys))"
    if "xs = ys @ x # zs" "sint x = c" "c \<notin> sint ` set zs"
  proof -
    have "\<forall>x\<in>set zs. sint x \<noteq> c" using that(3) by (metis imageI)
    then show ?thesis
      using assms that by (simp add: strrchr_def strrchr_loop_cstr last_such_append last_such_none)
  qed
qed

lemma scan_set_cstr [cstring]:
  "cstr m p ds \<Longrightarrow> scan_set c p m = Some (p + of_nat (length (takeWhile (\<lambda>d. d \<noteq> c) ds)))"
  by (induction ds arbitrary: p) (auto simp: scan_set.simps algebra_simps)

lemma scan_set_zero:
  assumes "cstr m p ds"
  shows "m (p + of_nat (length (takeWhile (\<lambda>d. d \<noteq> c) ds))) = 0 \<longleftrightarrow> c \<notin> set ds"
proof (cases "c \<in> set ds")
  case True
  then have n: "dropWhile (\<lambda>d. d \<noteq> c) ds \<noteq> []" by auto
  then have "hd (dropWhile (\<lambda>d. d \<noteq> c) ds) = c" using hd_dropWhile [OF n] by simp
  moreover have "c \<noteq> 0" using cstr_nonzero [OF assms] True by auto
  ultimately show ?thesis using cstr_takeWhile [OF assms, of "\<lambda>d. d \<noteq> c"] True by auto
next
  case False
  then show ?thesis using cstr_takeWhile [OF assms, of "\<lambda>d. d \<noteq> c"] by auto
qed

lemmas scan_simps = scan_set_cstr scan_set_zero

lemma strspn_loop_cstr:
  assumes "cstr m t ds"
  shows "cstr m a xs \<Longrightarrow> strspn_loop k a t m = Some (k + of_nat (length (takeWhile (\<lambda>x. x \<in> set ds) xs)))"
proof (induction xs arbitrary: a k)
  case Nil
  then show ?case by (subst strspn_loop.simps) simp
next
  case (Cons x xs)
  then show ?case by (subst strspn_loop.simps) (simp add: scan_simps [OF assms] algebra_simps)
qed

lemma strcspn_loop_cstr:
  assumes "cstr m t ds"
  shows "cstr m (a + k) xs \<Longrightarrow>
    strcspn_loop k a t m = Some (k + of_nat (length (takeWhile (\<lambda>x. x \<notin> set ds) xs)))"
proof (induction xs arbitrary: k)
  case Nil
  then show ?case by (subst strcspn_loop.simps) simp
next
  case (Cons x xs)
  then show ?case by (subst strcspn_loop.simps) (simp add: scan_simps [OF assms] algebra_simps)
qed

lemma strpbrk_cstr:
  assumes "cstr m t ds"
  shows "cstr m a xs \<Longrightarrow> strpbrk a t m = Some
    (if \<forall>x\<in>set xs. x \<notin> set ds then 0 else a + of_nat (length (takeWhile (\<lambda>x. x \<notin> set ds) xs)))"
proof (induction xs arbitrary: a)
  case Nil
  then show ?case by (subst strpbrk.simps) simp
next
  case (Cons x xs)
  then show ?case by (subst strpbrk.simps) (simp add: scan_simps [OF assms] algebra_simps)
qed

section \<open>Comparison\<close>

text \<open>The difference of the first characters in which two strings differ.\<close>

fun str_diff :: "8 word list \<Rightarrow> 8 word list \<Rightarrow> int" where
  "str_diff [] [] = 0"
| "str_diff [] (y # ys) = - sint y"
| "str_diff (x # xs) [] = sint x"
| "str_diff (x # xs) (y # ys) = (if x = y then str_diff xs ys else sint x - sint y)"

lemma str_diff_zero: "0 \<notin> set xs \<Longrightarrow> 0 \<notin> set ys \<Longrightarrow> str_diff xs ys = 0 \<longleftrightarrow> xs = ys"
  by (induction xs ys rule: str_diff.induct) (auto simp: signed_eq_0_iff dest: signed_word_eqI)

lemma str_diff_swap: "str_diff ys xs = - str_diff xs ys"
  by (induction xs ys rule: str_diff.induct) auto

lemma strcmp_loop_cstr [cstring]:
  "cstr m a xs \<Longrightarrow> cstr m b ys \<Longrightarrow> strcmp_loop a b m = Some (str_diff xs ys)"
proof (induction xs ys arbitrary: a b rule: str_diff.induct)
  case (4 x xs y ys)
  then show ?case by (subst strcmp_loop.simps) simp
qed (subst strcmp_loop.simps, simp)+

lemma strncmp_loop_cstr [cstring]:
  "cstr m a xs \<Longrightarrow> cstr m b ys \<Longrightarrow> strncmp_loop n a b m = str_diff (take n xs) (take n ys)"
proof (induction n arbitrary: a b xs ys)
  case (Suc n)
  then show ?case by (cases xs; cases ys) auto
qed simp

primrec bytes :: "cmem \<Rightarrow> 32 word \<Rightarrow> nat \<Rightarrow> 8 word list" where
  "bytes m a 0 = []"
| "bytes m a (Suc n) = m a # bytes m (a + 1) n"

lemma length_bytes [simp]: "length (bytes m a n) = n"
  by (induction n arbitrary: a) simp_all

lemma nth_bytes [simp]: "i < n \<Longrightarrow> bytes m a n ! i = m (a + of_nat i)"
proof (induction n arbitrary: a i)
  case (Suc n)
  then show ?case by (cases i) (simp_all add: add.assoc)
qed simp

lemma bytes_cong: "n \<le> 2 ^ 32 \<Longrightarrow> \<forall>x\<in>area a n. m' x = m x \<Longrightarrow> bytes m' a n = bytes m a n"
  by (intro nth_equalityI) (simp_all add: area_offset)

lemma memcmp_loop_zero: "memcmp_loop n a b m = 0 \<longleftrightarrow> bytes m a n = bytes m b n"
  by (induction n arbitrary: a b) (auto simp: word_uint_eq_iff)

lemma memcmp_zero:
  "a \<noteq> 0 \<Longrightarrow> b \<noteq> 0 \<Longrightarrow> memcmp a b n m = 0 \<longleftrightarrow> bytes m a (unat n) = bytes m b (unat n)"
  by (auto simp: memcmp_def memcmp_loop_zero)

lemma memchr_loop_eq:
  "memchr_loop n a c m =
     (if c \<in> set (bytes m a n) then a + of_nat (length (takeWhile (\<lambda>x. x \<noteq> c) (bytes m a n))) else 0)"
  by (induction n arbitrary: a) (auto simp: algebra_simps)

section \<open>Functions that write strings\<close>

lemma cstr_shift:
  "(\<And>i. i \<le> length xs \<Longrightarrow> m' (d + of_nat i) = m (s + of_nat i)) \<Longrightarrow> cstr m' d xs = cstr m s xs"
proof (induction xs arbitrary: d s)
  case Nil
  then show ?case using Nil [of 0] by simp
next
  case (Cons x xs)
  have "cstr m' (d + 1) xs = cstr m (s + 1) xs"
    using Cons.prems [of "Suc i" for i] by (intro Cons.IH) (simp add: add.assoc)
  then show ?case using Cons.prems [of 0] by simp
qed

lemma cstr_append:
  "cstr m a (xs @ ys) \<longleftrightarrow> 0 \<notin> set xs \<and> bytes m a (length xs) = xs \<and> cstr m (a + of_nat (length xs)) ys"
  by (induction xs arbitrary: a) (auto simp: algebra_simps)

lemma cstr_upd: "cstr m a xs \<Longrightarrow> d \<notin> area a (Suc (length xs)) \<Longrightarrow> cstr (m(d := v)) a xs"
  using cstr_cong [OF cstr_length, of m a xs a m "m(d := v)"] by auto

lemma strcpy_is_memcpy:
  "cstr m s xs \<Longrightarrow> area d (Suc (length xs)) \<inter> area s (Suc (length xs)) = {} \<Longrightarrow>
   strcpy d s m = Some (memcpy_loop (Suc (length xs)) d s m)"
proof (induction xs arbitrary: d s m)
  case Nil
  then show ?case by (subst strcpy.simps) simp
next
  case (Cons x xs)
  have l: "Suc (length xs) < 2 ^ 32" using cstr_length [OF Cons.prems(1)] by simp
  have d: "area (d + 1) (Suc (length xs)) \<inter> area (s + 1) (Suc (length xs)) = {}"
      "d \<notin> area (s + 1) (Suc (length xs))"
    using Cons.prems(2) by (auto simp: area_Suc [OF l])
  then have "cstr (m(d := m s)) (s + 1) xs" using Cons.prems(1) by (intro cstr_upd) simp_all
  note e = Cons.IH [OF this d(1)]
  have "strcpy d s m = strcpy (d + 1) (s + 1) (m(d := m s))"
    using Cons.prems(1) by (subst strcpy.simps) (simp add: Let_def)
  then show ?case unfolding e by (simp only: length_Cons memcpy_loop.simps(2))
qed

lemma strcpy_cstr:
  assumes "cstr m s xs" and "area d (Suc (length xs)) \<inter> area s (Suc (length xs)) = {}"
  obtains m' where "strcpy d s m = Some m'" and "cstr m' d xs"
    and "\<And>x. x \<notin> area d (Suc (length xs)) \<Longrightarrow> m' x = m x"
proof
  let ?m = "memcpy_loop (Suc (length xs)) d s m"
  have l: "Suc (length xs) \<le> 2 ^ 32" using cstr_length [OF assms(1)] by simp
  show "strcpy d s m = Some ?m" by (rule strcpy_is_memcpy [OF assms])
  show "?m x = m x" if "x \<notin> area d (Suc (length xs))" for x
    using that unfolding memcpy_loop_eq [OF l assms(2)] by simp
  have "?m (d + of_nat i) = m (s + of_nat i)" if "i \<le> length xs" for i
    using area_offset [OF _ l, of i d] that unfolding memcpy_loop_eq [OF l assms(2)] by simp
  then show "cstr ?m d xs" using assms(1) cstr_shift by blast
qed

lemma strcat_cstr:
  assumes "cstr m dest xs" "cstr m src ys" "dest \<noteq> 0" and "length xs + length ys < 2 ^ 32"
    and "area dest (length xs + length ys + 1) \<inter> area src (length ys + 1) = {}"
  obtains m' where "strcat dest src m = Some m'" and "cstr m' dest (xs @ ys)"
    and "\<And>x. x \<notin> area (dest + of_nat (length xs)) (length ys + 1) \<Longrightarrow> m' x = m x"
proof -
  let ?d = "dest + of_nat (length xs)"
  have sub: "x \<in> area dest (length xs + n) \<and> x \<notin> area dest (length xs)"
    if "x \<in> area ?d n" "length xs + n \<le> 2 ^ 32" for x n
    using that area_add by blast
  then have "area ?d (Suc (length ys)) \<inter> area src (Suc (length ys)) = {}"
    using assms(4,5) by fastforce
  from strcpy_cstr [OF assms(2) this] obtain m' where m': "strcpy ?d src m = Some m'" "cstr m' ?d ys"
    "\<And>x. x \<notin> area ?d (Suc (length ys)) \<Longrightarrow> m' x = m x" by blast
  have "bytes m' dest (length xs) = xs"
  proof (rule nth_equalityI)
    fix i assume "i < length (bytes m' dest (length xs))"
    then have i: "i < length xs" by simp
    then have "dest + of_nat i \<in> area dest (length xs)"
      using cstr_length [OF assms(1)] by (intro area_offset) simp_all
    then have "dest + of_nat i \<notin> area ?d (Suc (length ys))" using sub assms(4) by fastforce
    then show "bytes m' dest (length xs) ! i = xs ! i"
      using m'(3) cstr_nth [OF assms(1) i] i by simp
  qed simp
  then have "cstr m' dest (xs @ ys)"
    using m'(2) cstr_nonzero [OF assms(1)] by (simp add: cstr_append)
  moreover have "strcat dest src m = Some m'"
    using m'(1) assms(1,3) by (simp add: strcat_def strlen_cstr)
  ultimately show thesis using that m'(3) by simp
qed

section \<open>Searching for a string\<close>

lemma strstr_match_cstr:
  "cstr m h xs \<Longrightarrow> cstr m n ys \<Longrightarrow>
   \<exists>k. strstr_match h n m = Some (h + of_nat k, n + of_nat k) \<and>
     (m (n + of_nat k) = 0 \<longleftrightarrow> take (length ys) xs = ys)"
proof (induction ys arbitrary: h n xs)
  case Nil
  then show ?case by (intro exI [of _ 0]) (simp add: strstr_match.simps)
next
  case (Cons y ys)
  show ?case
  proof (cases "xs \<noteq> [] \<and> hd xs = y")
    case True
    then obtain xs' where xs: "xs = y # xs'" by (cases xs) auto
    then have "cstr m (h + 1) xs'" "cstr m (n + 1) ys" using Cons.prems by simp_all
    from Cons.IH [OF this] obtain k where
      "strstr_match (h + 1) (n + 1) m = Some (h + 1 + of_nat k, n + 1 + of_nat k)"
      "m (n + 1 + of_nat k) = 0 \<longleftrightarrow> take (length ys) xs' = ys" by blast
    then show ?thesis
      using Cons.prems xs
      by (intro exI [of _ "Suc k"], subst strstr_match.simps) (simp add: algebra_simps)
  next
    case False
    then have "m h \<noteq> y" using Cons.prems by (cases xs) auto
    moreover have "take (length (y # ys)) xs \<noteq> y # ys" using False by (cases xs) auto
    ultimately show ?thesis
      using Cons.prems by (intro exI [of _ 0], subst strstr_match.simps) simp
  qed
qed

lemma strstr_prefix:
  assumes "cstr m a xs" "cstr m n ys" "a \<noteq> 0" "xs \<noteq> []" "take (length ys) xs = ys"
  shows "strstr a n m = Some a"
proof -
  obtain k where "strstr_match a n m = Some (a + of_nat k, n + of_nat k)" "m (n + of_nat k) = 0"
    using strstr_match_cstr [OF assms(1,2)] assms(5) by blast
  moreover have "m a \<noteq> 0" using assms(1,4) by (cases xs) simp_all
  ultimately show ?thesis
    using assms(3) by (simp add: strstr_def strstr_loop.simps)
qed

text \<open>
  When the needle is neither at the start of the haystack nor at the position after it, the search
  never ends: it starts over at the second character for ever.
\<close>

lemma strstr_loop_stuck:
  assumes "cstr m (a + 1) xs" "cstr m n ys" "xs \<noteq> []" "take (length ys) xs \<noteq> ys"
  shows "strstr_loop a n (a + 1) m = None"
proof (rule ccontr)
  have m: "m (a + 1) \<noteq> 0" using assms(1,3) by (cases xs) simp_all
  obtain k where k: "strstr_match (a + 1) n m = Some (a + 1 + of_nat k, n + of_nat k)"
    "m (n + of_nat k) \<noteq> 0" using strstr_match_cstr [OF assms(1,2)] assms(4) by blast
  assume "strstr_loop a n (a + 1) m \<noteq> None"
  then obtain r where "strstr_loop a n (a + 1) m = Some r" by blast
  then show False
  proof (rule strstr_loop.raw_induct [where
      P = "\<lambda>a' n' h' m' r. \<not> (a' = a \<and> n' = n \<and> h' = a + 1 \<and> m' = m)", THEN notE, rotated])
    fix f a' n' h' m' r
    assume IH: "\<And>a' n' h' m' r. f a' n' h' m' = Some r \<Longrightarrow>
        \<not> (a' = a \<and> n' = n \<and> h' = a + 1 \<and> m' = m)"
      and r: "(if m' h' \<noteq> 0 then strstr_match h' n' m' \<bind> (\<lambda>(h, n). if m' n = 0 then Some a'
        else f a' n' (a' + 1) m') else Some 0) = Some r"
    show "\<not> (a' = a \<and> n' = n \<and> h' = a + 1 \<and> m' = m)"
      using IH [of a n "a + 1" m r] r k m by auto
  qed simp
qed

lemma strstr_never_returns:
  assumes "cstr m a xs" "cstr m n ys" "a \<noteq> 0" "length xs \<ge> 2"
    and "take (length ys) xs \<noteq> ys" "take (length ys) (tl xs) \<noteq> ys"
  shows "strstr a n m = None"
proof -
  obtain x xs' where xs: "xs = x # xs'" "xs' \<noteq> []" using assms(4) by (cases xs) (auto simp: Suc_le_eq)
  have m: "m a \<noteq> 0" "cstr m (a + 1) xs'" using assms(1) xs by simp_all
  obtain k where k: "strstr_match a n m = Some (a + of_nat k, n + of_nat k)"
    "m (n + of_nat k) \<noteq> 0" using strstr_match_cstr [OF assms(1,2)] assms(5) by blast
  have "strstr_loop a n (a + 1) m = None"
    using assms(6) xs by (intro strstr_loop_stuck [OF m(2) assms(2)]) simp_all
  then show ?thesis using assms(3) m(1) k by (simp add: strstr_def strstr_loop.simps [of a n a])
qed

section \<open>Tokens\<close>

lemma strtok_skip_cstr:
  assumes "cstr m s2 ds"
  shows "cstr m s1 xs \<Longrightarrow> cstr m p es \<Longrightarrow> set es \<subseteq> set ds \<Longrightarrow>
    (xs \<noteq> [] \<and> hd xs \<in> set ds \<longrightarrow> hd xs \<in> set es) \<Longrightarrow>
    strtok_skip p s1 s2 m = Some (s1 + of_nat (length (takeWhile (\<lambda>x. x \<in> set ds) xs)))"
proof (induction xs arbitrary: s1 p es)
  case Nil
  then show ?case by (subst strtok_skip.simps) simp
next
  case (Cons x xs)
  note outer = Cons.IH
  from Cons.prems show ?case
  proof (induction es arbitrary: p)
    case Nil
    then show ?case by (subst strtok_skip.simps) simp
  next
    case (Cons e es)
    show ?case
    proof (cases "x = e")
      case True
      have "strtok_skip s2 (s1 + 1) s2 m =
          Some (s1 + 1 + of_nat (length (takeWhile (\<lambda>x. x \<in> set ds) xs)))"
        using Cons.prems by (intro outer [OF _ assms]) simp_all
      then show ?thesis
        using True Cons.prems by (subst strtok_skip.simps) (simp add: algebra_simps)
    next
      case False
      have "strtok_skip (p + 1) s1 s2 m =
          Some (s1 + of_nat (length (takeWhile (\<lambda>x. x \<in> set ds) (x # xs))))"
        using Cons.prems False by (intro Cons.IH) auto
      then show ?thesis
        using False Cons.prems by (subst strtok_skip.simps) simp
    qed
  qed
qed

lemma strtok_token_cstr:
  assumes "cstr m s2 ds"
  shows "cstr m a xs \<Longrightarrow> strtok_token a s2 m =
    (let k = of_nat (length (takeWhile (\<lambda>x. x \<notin> set ds) xs)) in
     Some (if \<forall>x\<in>set xs. x \<notin> set ds then (0, m) else (a + k + 1, m(a + k := 0))))"
proof (induction xs arbitrary: a)
  case Nil
  then show ?case by (subst strtok_token.simps) simp
next
  case (Cons x xs)
  then show ?case
    by (subst strtok_token.simps) (simp add: scan_simps [OF assms] algebra_simps Let_def)
qed

lemma cstr_cut:
  assumes "cstr m a (xs @ y # ys)"
  shows "cstr (m(a + of_nat (length xs) := 0)) a xs"
    and "cstr (m(a + of_nat (length xs) := 0)) (a + of_nat (length xs) + 1) ys"
proof -
  let ?e = "a + of_nat (length xs)" and ?l = "length (xs @ y # ys)"
  have l: "?l < 2 ^ 32" by (rule cstr_length [OF assms])
  have b: "bytes m a (length xs) = xs" "0 \<notin> set xs" "cstr m (?e + 1) ys"
    using assms by (simp_all add: cstr_append)
  have "bytes (m(?e := 0)) a (length xs) = xs"
  proof (rule nth_equalityI)
    fix i assume "i < length (bytes (m(?e := 0)) a (length xs))"
    then have i: "i < length xs" by simp
    then have "(of_nat i :: 32 word) \<noteq> of_nat (length xs)"
      using l by (simp add: word_of_nat_eq_iff take_bit_eq_mod)
    then show "bytes (m(?e := 0)) a (length xs) ! i = xs ! i"
      using i b(1) nth_bytes [OF i, of m a] by simp
  qed simp
  then show "cstr (m(?e := 0)) a xs"
    using b(2) cstr_append [of "m(?e := 0)" a xs "[]"] by simp
  have "?e \<notin> area (?e + 1) (Suc (length ys))" using l by (intro area_head) simp
  then show "cstr (m(?e := 0)) (?e + 1) ys" by (rule cstr_upd [OF b(3)])
qed

lemma strtok_cstr:
  fixes s1 s2 tmp :: "32 word"
  assumes "cstr m s2 ds" and "cstr m a xs" and "a = (if s1 \<noteq> 0 then s1 else tmp)" and "a \<noteq> 0"
  defines "skip \<equiv> takeWhile (\<lambda>x. x \<in> set ds) xs" and "rest \<equiv> dropWhile (\<lambda>x. x \<in> set ds) xs"
  defines "tok \<equiv> takeWhile (\<lambda>x. x \<notin> set ds) rest"
  defines "p \<equiv> a + of_nat (length skip)"
  shows "strtok s1 s2 tmp m =
    Some (if rest = [] then (0, 0, m) else if tok = rest then (p, 0, m)
      else (p, p + of_nat (length tok) + 1, m(p + of_nat (length tok) := 0)))"
proof -
  have "strtok_skip s2 a s2 m = Some p"
    unfolding p_def skip_def by (rule strtok_skip_cstr [OF assms(1,2,1)]) simp_all
  moreover have r: "cstr m p rest"
    using cstr_drop [OF assms(2), of "length skip"]
    by (simp add: p_def rest_def skip_def dropWhile_eq_drop length_takeWhile_le)
  then have "m p = 0 \<longleftrightarrow> rest = []" by (cases rest) auto
  moreover have "tok = rest \<longleftrightarrow> (\<forall>x\<in>set rest. x \<notin> set ds)"
    unfolding tok_def by (rule takeWhile_eq_all_conv)
  moreover have "\<not> (s1 = 0 \<and> tmp = 0)" using assms(3,4) by auto
  ultimately show ?thesis
    using strtok_token_cstr [OF assms(1) r] unfolding assms(3)
    by (auto simp: strtok_def Let_def tok_def)
qed

section \<open>Copies of bounded length\<close>

lemma strncpy_copy_eq:
  "cstr m s2 xs \<Longrightarrow> n \<le> 2 ^ 32 \<Longrightarrow> area s1 n \<inter> area s2 (Suc (length xs)) = {} \<Longrightarrow>
   strncpy_copy n s1 s2 m =
     (if n \<le> length xs then (s1 + of_nat n, 0, memcpy_loop n s1 s2 m)
      else (s1 + of_nat (length xs) + 1, n - length xs, memcpy_loop (Suc (length xs)) s1 s2 m))"
proof (induction n arbitrary: s1 s2 m xs)
  case (Suc n)
  show ?case
  proof (cases xs)
    case Nil
    then show ?thesis using Suc.prems(1) by (simp add: Let_def)
  next
    case (Cons x ys)
    have l: "Suc (length ys) < 2 ^ 32" using cstr_length [OF Suc.prems(1)] Cons by simp
    have n: "n < 2 ^ 32" using Suc.prems(2) by simp
    have d: "area (s1 + 1) n \<inter> area (s2 + 1) (Suc (length ys)) = {}"
        "s1 \<notin> area (s2 + 1) (Suc (length ys))"
      using Suc.prems(3) Cons by (auto simp: area_Suc [OF l] area_Suc [OF n])
    then have "cstr (m(s1 := m s2)) (s2 + 1) ys"
      using Suc.prems(1) Cons by (intro cstr_upd) simp_all
    note e = Suc.IH [OF this less_imp_le [OF n] d(1)]
    have "strncpy_copy (Suc n) s1 s2 m = strncpy_copy n (s1 + 1) (s2 + 1) (m(s1 := m s2))"
      using Suc.prems(1) Cons by (simp add: Let_def)
    then show ?thesis
      unfolding e Cons length_Cons Suc_le_mono memcpy_loop.simps(2) diff_Suc_Suc
      by (simp only: of_nat_Suc ac_simps)
  qed
qed simp

text \<open>\<^verbatim>\<open>strncpy\<close> fills the \<open>n\<close> bytes of the destination: the string, then zeros.\<close>

lemma strncpy_eq:
  assumes "cstr m s2 xs" and "area s1 (unat n) \<inter> area s2 (Suc (length xs)) = {}"
  shows "strncpy s1 s2 n m = (\<lambda>x. if x \<in> area s1 (unat n) then
      if unat (x - s1) < length xs then xs ! unat (x - s1) else 0 else m x)"
proof -
  let ?n = "unat n" and ?l = "length xs"
  have l: "?l < 2 ^ 32" by (rule cstr_length [OF assms(1)])
  have nth: "m (s2 + w) = xs ! unat w" if "unat w < ?l" for w
    using cstr_nth [OF assms(1) that] by simp
  have sub: "area s2 k \<subseteq> area s2 (Suc ?l)" if "k \<le> Suc ?l" for k using that by (rule area_mono)
  have copy: "memcpy_loop k s1 s2 m = (\<lambda>x. if x \<in> area s1 k then m (s2 + (x - s1)) else m x)"
    if "k \<le> ?n" "k \<le> Suc ?l" for k
    using area_mono [OF that(1), of s1] sub [OF that(2)] assms(2) l that
    by (intro memcpy_loop_eq) auto
  show ?thesis
  proof (cases "?n \<le> ?l")
    case True
    then have "strncpy s1 s2 n m = memcpy_loop ?n s1 s2 m"
      using strncpy_copy_eq [OF assms(1) unat_le32 assms(2)] by (simp add: strncpy_def)
    then show ?thesis
      using True copy [of ?n] nth by (simp add: area_def fun_eq_iff)
  next
    case False
    let ?e = "s1 + of_nat ?l + 1" and ?k = "?n - ?l - 1"
    have n: "Suc ?l \<le> ?n" "?n < 2 ^ 32" using False unat_less32 [of n] by simp_all
    have pad: "x \<in> area ?e ?k \<longleftrightarrow> x \<in> area s1 ?n \<and> x \<notin> area s1 (Suc ?l)" for x
      using area_add [of "Suc ?l" ?k x s1] n by (simp add: ac_simps)
    have "strncpy s1 s2 n m = memset_loop ?k ?e 0 (memcpy_loop (Suc ?l) s1 s2 m)"
      using strncpy_copy_eq [OF assms(1) unat_le32 assms(2)] False by (simp add: strncpy_def)
    also have "\<dots> = (\<lambda>x. if x \<in> area ?e ?k then 0 else memcpy_loop (Suc ?l) s1 s2 m x)"
      using n by (intro memset_loop_eq) simp
    finally have e: "strncpy s1 s2 n m x = (if x \<in> area s1 ?n \<and> x \<notin> area s1 (Suc ?l) then 0
        else if x \<in> area s1 (Suc ?l) then m (s2 + (x - s1)) else m x)" for x
      unfolding pad copy [OF n(1) order.refl] by simp
    have z: "m (s2 + (x - s1)) = 0" if "unat (x - s1) = ?l" for x
      using cstr_end [OF assms(1)] that [symmetric] by simp
    show ?thesis
    proof (rule ext)
      fix x
      consider "unat (x - s1) < ?l" | "unat (x - s1) = ?l" | "?l < unat (x - s1)" by linarith
      then show "strncpy s1 s2 n m x = (if x \<in> area s1 ?n then
          if unat (x - s1) < ?l then xs ! unat (x - s1) else 0 else m x)"
        by cases (use n e nth z in \<open>simp_all add: area_def\<close>)
    qed
  qed
qed

lemma strncat_copy_eq:
  "cstr m s ys \<Longrightarrow> n < 2 ^ 32 \<Longrightarrow> area d n \<inter> area s (Suc (length ys)) = {} \<Longrightarrow>
   strncat_copy n d s m = (d + of_nat (min n (length ys)), memcpy_loop (min n (length ys)) d s m)"
proof (induction n arbitrary: d s m ys)
  case (Suc n)
  show ?case
  proof (cases ys)
    case Nil
    then show ?thesis using Suc.prems(1) by simp
  next
    case (Cons y zs)
    have l: "Suc (length zs) < 2 ^ 32" using cstr_length [OF Suc.prems(1)] Cons by simp
    have n: "n < 2 ^ 32" using Suc.prems(2) by simp
    have e: "area (d + 1) n \<inter> area (s + 1) (Suc (length zs)) = {}"
        "d \<notin> area (s + 1) (Suc (length zs))"
      using Suc.prems(3) Cons by (auto simp: area_Suc [OF l] area_Suc [OF n])
    then have "cstr (m(d := m s)) (s + 1) zs"
      using Suc.prems(1) Cons by (intro cstr_upd) simp_all
    note IH = Suc.IH [OF this n e(1)]
    have "strncat_copy (Suc n) d s m = strncat_copy n (d + 1) (s + 1) (m(d := m s))"
      using Suc.prems(1) Cons by simp
    then show ?thesis
      unfolding IH Cons length_Cons min_Suc_Suc memcpy_loop.simps(2)
      by (simp only: of_nat_Suc ac_simps)
  qed
qed simp

section \<open>Results\<close>

text \<open>
  C33. On terminated strings the functions that scan a string return, with the value a computation on
  the characters gives: the length, the first difference of two strings, the place of a character,
  the length of the prefix with or without the characters of a set, and the first character of a
  set. \<^verbatim>\<open>strlen\<close> returns for nothing but terminated strings.
\<close>

theorem string_scans_return:
  assumes "a \<noteq> 0" and "b \<noteq> 0" and "cstr m a xs" and "cstr m b ys"
  shows "strlen a m = Some (of_nat (length xs)) \<and> length xs < 2 ^ 32 \<and>
    (\<forall>p. p \<noteq> 0 \<and> (\<nexists>zs. cstr m p zs) \<longrightarrow> strlen p m = None) \<and>
    strcmp a b m = Some (str_diff xs ys) \<and> (str_diff xs ys = 0 \<longleftrightarrow> xs = ys) \<and>
    strncmp a b n m = str_diff (take (unat n) xs) (take (unat n) ys) \<and>
    strchr a c m = Some (if c \<in> sint ` set xs \<or> c = 0
      then a + of_nat (length (takeWhile (\<lambda>x. sint x \<noteq> c) xs)) else 0) \<and>
    strspn a b m = Some (of_nat (length (takeWhile (\<lambda>x. x \<in> set ys) xs))) \<and>
    strcspn a b m = Some (of_nat (length (takeWhile (\<lambda>x. x \<notin> set ys) xs))) \<and>
    strpbrk a b m = Some (if set xs \<inter> set ys = {} then 0
      else a + of_nat (length (takeWhile (\<lambda>x. x \<notin> set ys) xs)))"
proof -
  have "strlen p m = None" if "p \<noteq> 0" "\<nexists>zs. cstr m p zs" for p
    using strlen_Some_iff [OF that(1)] that(2) by (cases "strlen p m") auto
  moreover have "(\<forall>x\<in>set xs. x \<notin> set ys) \<longleftrightarrow> set xs \<inter> set ys = {}" by auto
  ultimately show ?thesis
    using assms strcspn_loop_cstr [OF assms(4), of a 0 xs] strspn_loop_cstr [OF assms(4,3), of 0]
      str_diff_zero [OF cstr_nonzero [OF assms(3)] cstr_nonzero [OF assms(4)]]
      strpbrk_cstr [OF assms(4,3)] cstr_length [OF assms(3)]
    by (simp add: strlen_cstr strcmp_def strcmp_loop_cstr strncmp_def strncmp_loop_cstr strchr_cstr
        strspn_def strcspn_def)
qed

definition ex_bytes :: "8 word list" where "ex_bytes = [0x2C, 0x61, 0x62, 0x2C, 0x63, 0, 0x2C, 0]"

definition ex_cmem :: cmem where
  "ex_cmem a = (if 0x1000 \<le> a \<and> a < 0x1008 then ex_bytes ! unat (a - 0x1000) else 0)"

lemma ex_cstr: "cstr ex_cmem 0x1000 [0x2C, 0x61, 0x62, 0x2C, 0x63]" "cstr ex_cmem 0x1006 [0x2C]"
  by (simp_all add: ex_cmem_def ex_bytes_def)

theorem string_scans_return_witness:
  "strlen 0x1000 ex_cmem = Some 5 \<and> strspn 0x1000 0x1006 ex_cmem = Some 1 \<and>
   strcmp 0x1000 0x1006 ex_cmem = Some 0x61"
  using string_scans_return [OF _ _ ex_cstr, of 0 0] by simp

text \<open>
  C34. \<^verbatim>\<open>strtok\<close> splits a string at the characters of a set: it skips the characters of the set at the
  start, returns the place of the token behind them, or a null pointer if there is none, and turns
  the character after the token into a terminator. The token is then a string of its own, without a
  character of the set, and the next call goes on with what follows.
\<close>

theorem strtok_splits:
  fixes s1 s2 tmp :: "32 word"
  assumes "cstr m s2 ds" and "cstr m a xs" and "a = (if s1 \<noteq> 0 then s1 else tmp)" and "a \<noteq> 0"
  shows "if set xs \<subseteq> set ds then strtok s1 s2 tmp m = Some (0, 0, m)
    else \<exists>skip tok p tmp' m'. strtok s1 s2 tmp m = Some (p, tmp', m') \<and>
      set skip \<subseteq> set ds \<and> set tok \<inter> set ds = {} \<and> tok \<noteq> [] \<and>
      p = a + of_nat (length skip) \<and> cstr m' p tok \<and>
      (xs = skip @ tok \<and> tmp' = 0 \<and> m' = m \<or>
       (\<exists>d rest. d \<in> set ds \<and> xs = skip @ tok @ d # rest \<and> cstr m' tmp' rest \<and>
          m' = m(p + of_nat (length tok) := 0)))"
proof -
  define rest where "rest = dropWhile (\<lambda>x. x \<in> set ds) xs"
  define skip where "skip = takeWhile (\<lambda>x. x \<in> set ds) xs"
  define tok where "tok = takeWhile (\<lambda>x. x \<notin> set ds) rest"
  define p where "p = a + of_nat (length skip)"
  note strtok = strtok_cstr [OF assms(1-4), folded rest_def skip_def, folded tok_def p_def]
  have xs: "xs = skip @ rest" by (simp add: skip_def rest_def)
  have s: "set skip \<subseteq> set ds" "set tok \<inter> set ds = {}"
    by (auto simp: skip_def tok_def dest: set_takeWhileD)
  have e: "rest = [] \<longleftrightarrow> set xs \<subseteq> set ds" by (auto simp: rest_def)
  have p: "cstr m p rest" using assms(2) unfolding xs p_def cstr_append by simp
  show ?thesis
  proof (cases "rest = []")
    case False
    then have "hd rest \<notin> set ds" using hd_dropWhile [of "\<lambda>x. x \<in> set ds" xs] by (simp add: rest_def)
    then have t: "tok \<noteq> []" using False by (cases rest) (simp_all add: tok_def)
    have no: "\<not> set xs \<subseteq> set ds" using e False by simp
    show ?thesis
    proof (cases "tok = rest")
      case True
      then have f: "strtok s1 s2 tmp m = Some (p, 0, m)" "cstr m p tok" "xs = skip @ tok"
        using strtok False xs p by simp_all
      show ?thesis
        unfolding if_not_P [OF no]
        by (rule exI [of _ skip], rule exI [of _ tok], rule exI [of _ p], rule exI [of _ 0],
            rule exI [of _ m]) (intro conjI s t f p_def disjI1 refl)
    next
      case ne: False
      then obtain d rest' where r: "dropWhile (\<lambda>x. x \<notin> set ds) rest = d # rest'"
        by (metis takeWhile_dropWhile_id append_Nil2 neq_Nil_conv tok_def)
      then have d: "d \<in> set ds" using hd_dropWhile [of "\<lambda>x. x \<notin> set ds" rest] by simp
      have rest: "rest = tok @ d # rest'"
        unfolding tok_def r [symmetric] by (rule takeWhile_dropWhile_id [symmetric])
      let ?m = "m(p + of_nat (length tok) := 0)" and ?t = "p + of_nat (length tok) + 1"
      have "cstr ?m p tok" "cstr ?m ?t rest'" using cstr_cut [OF p [unfolded rest]] by simp_all
      moreover have "strtok s1 s2 tmp m = Some (p, ?t, ?m)" using strtok False ne by simp
      moreover have "xs = skip @ tok @ d # rest'" using xs rest by simp
      ultimately show ?thesis
        unfolding if_not_P [OF no]
        by (intro exI [of _ skip] exI [of _ tok] exI [of _ p] exI [of _ ?t] exI [of _ ?m])
          (intro conjI s t p_def disjI2 exI [of _ d] exI [of _ rest'] d refl)
    qed
  qed (use strtok e in simp)
qed

theorem strtok_splits_witness:
  "\<exists>skip tok p tmp m. strtok 0x1000 0x1006 0 ex_cmem = Some (p, tmp, m) \<and> cstr m p tok \<and>
     tok \<noteq> [] \<and> 0x2C \<notin> set tok \<and> set skip \<subseteq> {0x2C :: 8 word} \<and> p = 0x1000 + of_nat (length skip)"
proof -
  have no: "\<not> set [0x2C, 0x61, 0x62, 0x2C, 0x63] \<subseteq> set [0x2C :: 8 word]" by simp
  have a: "(0x1000 :: 32 word) = (if (0x1000 :: 32 word) \<noteq> 0 then 0x1000 else 0)" by simp
  have z: "(0x1000 :: 32 word) \<noteq> 0" by simp
  from strtok_splits [OF ex_cstr(2,1) a z, unfolded if_not_P [OF no]]
  obtain skip tok p tmp m where "strtok 0x1000 0x1006 0 ex_cmem = Some (p, tmp, m)"
      "set skip \<subseteq> set [0x2C :: 8 word]" "set tok \<inter> set [0x2C] = {}" "tok \<noteq> []"
      "p = 0x1000 + of_nat (length skip)" "cstr m p tok"
    by (elim exE conjE)
  then show ?thesis
    by (intro exI [of _ skip] exI [of _ tok] exI [of _ p] exI [of _ tmp] exI [of _ m]) simp
qed

end
