(* ===== verification/Circ_Queue.thy ===== *)
theory Circ_Queue
  imports Libc_String
begin

text \<open>
  The ring buffers of the OS library: a buffer of bytes (\<^verbatim>\<open>lib/libos/ostypes/circbuffer.c\<close>) and a
  queue of elements of a fixed size (\<^verbatim>\<open>lib/libos/ostypes/cqueue.c\<close>), both kept in a block of the
  memory of the process. What \<^verbatim>\<open>malloc\<close> returns is an argument of the functions that call it.
\<close>

section \<open>The byte buffer\<close>

record CircularBuffer =
  cb_data :: "32 word"
  cb_ptr :: "32 word"
  unread_len :: "32 word"
  buf_len :: "32 word"

definition circular_buffer_init :: "CircularBuffer \<Rightarrow> 32 word \<Rightarrow> 32 word \<Rightarrow> int \<times> CircularBuffer" where
  "circular_buffer_init buffer data buffer_size =
     (if data = 0 then (- 1, buffer)
      else (0, \<lparr>cb_data = data, cb_ptr = data, unread_len = 0, buf_len = buffer_size\<rparr>))"

definition circular_buffer_create :: "32 word \<Rightarrow> CircularBuffer \<Rightarrow> 32 word \<Rightarrow> int \<times> CircularBuffer" where
  "circular_buffer_create new_data buffer buffer_size =
     (if new_data = 0 then (- 1, buffer) else circular_buffer_init buffer new_data buffer_size)"

definition circular_buffer_destroy :: "CircularBuffer \<Rightarrow> CircularBuffer" where
  "circular_buffer_destroy buffer = buffer\<lparr>cb_data := 0\<rparr>"

definition circular_buffer_read :: "CircularBuffer \<Rightarrow> 32 word \<Rightarrow> 32 word \<Rightarrow> cmem \<Rightarrow>
    32 word \<times> CircularBuffer \<times> cmem" where
  "circular_buffer_read b num out_data m =
     (let bytes_to_read = (if num > unread_len b then unread_len b else num);
          upper_size = (cb_data b + buf_len b) - cb_ptr b;
          (b, m) =
            (if bytes_to_read > upper_size then
               (b\<lparr>cb_ptr := cb_data b + (bytes_to_read - upper_size)\<rparr>,
                libc_memcpy (out_data + upper_size) (cb_data b) (bytes_to_read - upper_size)
                  (libc_memcpy out_data (cb_ptr b) upper_size m))
             else
               (b\<lparr>cb_ptr := cb_ptr b + bytes_to_read\<rparr>,
                libc_memcpy out_data (cb_ptr b) bytes_to_read m))
      in (bytes_to_read, b\<lparr>unread_len := unread_len b - bytes_to_read\<rparr>, m))"

definition circular_buffer_write :: "CircularBuffer \<Rightarrow> 32 word \<Rightarrow> 32 word \<Rightarrow> cmem \<Rightarrow>
    32 word \<times> CircularBuffer \<times> cmem" where
  "circular_buffer_write b num data m =
     (let bytes_to_write = (if num > buf_len b - unread_len b then buf_len b - unread_len b else num);
          ptr = cb_ptr b + unread_len b;
          upper_size = cb_data b + buf_len b - ptr;
          m = (if bytes_to_write > upper_size then
                 libc_memcpy (cb_data b) (data + upper_size) (bytes_to_write - upper_size)
                   (libc_memcpy ptr data upper_size m)
               else libc_memcpy ptr data bytes_to_write m)
      in (bytes_to_write, b\<lparr>unread_len := unread_len b + bytes_to_write\<rparr>, m))"

section \<open>The queue of elements\<close>

datatype CQueueState = CQUEUE_PARTIAL | CQUEUE_EMPTY | CQUEUE_FULL

record CQueue =
  cq_queue :: "32 word"
  elem_size :: "32 word"
  n_elems :: "32 word"
  cq_head :: "32 word"
  cq_tail :: "32 word"
  cq_state :: CQueueState

text \<open>A null pointer to a queue is \<open>None\<close>.\<close>

definition cqueue_init_at :: "CQueue option \<Rightarrow> 32 word \<Rightarrow> 32 word \<Rightarrow> 32 word \<Rightarrow> int \<times> CQueue option" where
  "cqueue_init_at cqueue queue es n =
     (if cqueue = None \<or> queue = 0 then (- 1, cqueue)
      else (0, Some \<lparr>cq_queue = queue, elem_size = es, n_elems = n, cq_head = 0, cq_tail = 0,
                     cq_state = CQUEUE_EMPTY\<rparr>))"

definition cqueue_init :: "CQueue option \<Rightarrow> 32 word \<Rightarrow> 32 word \<Rightarrow> 32 word \<Rightarrow> CQueue option" where
  "cqueue_init cqueue queue es n =
     (if es = 0 \<or> n = 0 then None
      else if cqueue = None then None
      else if queue = 0 then None
      else if fst (cqueue_init_at cqueue queue es n) \<noteq> 0 then None
      else snd (cqueue_init_at cqueue queue es n))"

text \<open>The place of an element.\<close>

definition elem_at :: "CQueue \<Rightarrow> 32 word \<Rightarrow> 32 word" where
  "elem_at c i = cq_queue c + i * elem_size c"

definition put_one :: "CQueue \<Rightarrow> 32 word \<Rightarrow> cmem \<Rightarrow> CQueue \<times> cmem" where
  "put_one c buf m =
     (let m = libc_memcpy (elem_at c (cq_tail c)) buf (elem_size c) m;
          c = c\<lparr>cq_tail := (cq_tail c + 1) mod n_elems c\<rparr>
      in (c\<lparr>cq_state := if cq_tail c = cq_head c then CQUEUE_FULL else CQUEUE_PARTIAL\<rparr>, m))"

primrec put_loop :: "nat \<Rightarrow> CQueue \<Rightarrow> 32 word \<Rightarrow> cmem \<Rightarrow> int \<times> CQueue \<times> cmem" where
  "put_loop 0 c buf m = (if cq_state c = CQUEUE_FULL then 1 else 0, c, m)"
| "put_loop (Suc k) c buf m =
     (if cq_state c = CQUEUE_FULL then (- 2, c, m)
      else let (c', m') = put_one c buf m in put_loop k c' (buf + elem_size c) m')"

definition cqueue_put :: "CQueue option \<Rightarrow> 32 word \<Rightarrow> 32 word \<Rightarrow> cmem \<Rightarrow> int \<times> CQueue option \<times> cmem" where
  "cqueue_put cqueue buffer num_elems m =
     (case cqueue of
        None \<Rightarrow> (- 1, cqueue, m)
      | Some c \<Rightarrow> if buffer = 0 then (- 1, cqueue, m)
          else let (r, c, m) = put_loop (unat num_elems) c buffer m in (r, Some c, m))"

text \<open>\<open>store\<close>: the caller passed a buffer, which the loop then advances.\<close>

definition get_one :: "bool \<Rightarrow> CQueue \<Rightarrow> 32 word \<Rightarrow> cmem \<Rightarrow> CQueue \<times> cmem" where
  "get_one store c buf m =
     (let m = (if store then libc_memcpy buf (elem_at c (cq_head c)) (elem_size c) m else m);
          c = c\<lparr>cq_head := (cq_head c + 1) mod n_elems c\<rparr>
      in (c\<lparr>cq_state := if cq_tail c = cq_head c then CQUEUE_EMPTY else CQUEUE_PARTIAL\<rparr>, m))"

primrec get_loop :: "bool \<Rightarrow> nat \<Rightarrow> CQueue \<Rightarrow> 32 word \<Rightarrow> cmem \<Rightarrow> int \<times> CQueue \<times> cmem" where
  "get_loop store 0 c buf m = (if cq_state c = CQUEUE_EMPTY then 1 else 0, c, m)"
| "get_loop store (Suc k) c buf m =
     (if cq_state c = CQUEUE_EMPTY then (- 2, c, m)
      else let (c', m') = get_one store c buf m
           in get_loop store k c' (if store then buf + elem_size c else buf) m')"

definition cqueue_get :: "CQueue option \<Rightarrow> 32 word \<Rightarrow> 32 word \<Rightarrow> cmem \<Rightarrow> int \<times> CQueue option \<times> cmem" where
  "cqueue_get cqueue buffer num_elems m =
     (case cqueue of
        None \<Rightarrow> (- 1, cqueue, m)
      | Some c \<Rightarrow>
          let (r, c, m) = get_loop (buffer \<noteq> 0) (unat num_elems) c buffer m in (r, Some c, m))"

primrec peek_loop :: "nat \<Rightarrow> CQueue \<Rightarrow> 32 word \<Rightarrow> 32 word \<Rightarrow> cmem \<Rightarrow> cmem" where
  "peek_loop 0 c buf index m = m"
| "peek_loop (Suc k) c buf index m =
     peek_loop k c (buf + elem_size c) ((index + 1) mod n_elems c)
       (libc_memcpy buf (elem_at c index) (elem_size c) m)"

definition cqueue_peek :: "CQueue option \<Rightarrow> 32 word \<Rightarrow> 32 word \<Rightarrow> 32 word \<Rightarrow> cmem \<Rightarrow> int \<times> cmem" where
  "cqueue_peek cqueue buffer index k m =
     (case cqueue of
        None \<Rightarrow> (- 1, m)
      | Some c \<Rightarrow> if buffer = 0 then (- 1, m)
          else (0, peek_loop (unat k) c buffer
                  (if index \<ge> n_elems c then index mod n_elems c else index) m))"

primrec poke_loop :: "nat \<Rightarrow> CQueue \<Rightarrow> 32 word \<Rightarrow> 32 word \<Rightarrow> cmem \<Rightarrow> cmem" where
  "poke_loop 0 c buf index m = m"
| "poke_loop (Suc k) c buf index m =
     poke_loop k c (buf + elem_size c) ((index + 1) mod n_elems c)
       (libc_memcpy (elem_at c index) buf (elem_size c) m)"

definition cqueue_poke :: "CQueue option \<Rightarrow> 32 word \<Rightarrow> 32 word \<Rightarrow> 32 word \<Rightarrow> cmem \<Rightarrow> int \<times> cmem" where
  "cqueue_poke cqueue buffer index k m =
     (case cqueue of
        None \<Rightarrow> (- 1, m)
      | Some c \<Rightarrow> if buffer = 0 \<or> index \<ge> n_elems c then (- 1, m)
          else (0, poke_loop (unat k) c buffer index m))"

section \<open>Rings\<close>

text \<open>The \<open>k\<close> entries of a ring of size \<open>n\<close> from index \<open>h\<close> on.\<close>

definition ring :: "(nat \<Rightarrow> 'a) \<Rightarrow> nat \<Rightarrow> nat \<Rightarrow> nat \<Rightarrow> 'a list" where
  "ring f n h k = map (\<lambda>j. f ((h + j) mod n)) [0..<k]"

lemma length_ring [simp]: "length (ring f n h k) = k"
  by (simp add: ring_def)

lemma nth_ring [simp]: "j < k \<Longrightarrow> ring f n h k ! j = f ((h + j) mod n)"
  by (simp add: ring_def)

lemma ring_0 [simp]: "ring f n h 0 = []"
  by (simp add: ring_def)

lemma take_ring: "take j (ring f n h k) = ring f n h (min j k)"
  by (simp add: ring_def take_map min_def)

lemma drop_ring: "drop j (ring f n h k) = ring f n (h + j) (k - j)"
  by (rule nth_equalityI) (simp_all add: ac_simps)

lemma ring_mod: "ring f n (h mod n) k = ring f n h k"
  by (simp add: ring_def mod_add_left_eq)

lemma ring_append: "ring f n h (k + l) = ring f n h k @ ring f n (h + k) l"
  by (rule nth_equalityI) (auto simp: nth_append ac_simps)

lemma ring_cong: "(\<And>j. j < k \<Longrightarrow> f ((h + j) mod n) = g ((h + j) mod n)) \<Longrightarrow> ring f n h k = ring g n h k"
  by (simp add: ring_def)

lemma ring_Suc: "ring f n h (Suc k) = f (h mod n) # ring f n (Suc h) k"
  using drop_ring [of 1 f n h "Suc k"] nth_ring [of 0 "Suc k" f n h]
  by (cases "ring f n h (Suc k)") (auto simp: simp flip: length_0_conv)

section \<open>The byte buffer is a queue of bytes\<close>

definition cb_off :: "CircularBuffer \<Rightarrow> nat" where
  "cb_off b = unat (cb_ptr b - cb_data b)"

definition cb_inv :: "CircularBuffer \<Rightarrow> bool" where
  "cb_inv b \<longleftrightarrow> cb_data b \<noteq> 0 \<and> unat (cb_data b) + unat (buf_len b) < 2 ^ 32 \<and>
     cb_off b \<le> unat (buf_len b) \<and> unread_len b \<le> buf_len b"

definition cb_contents :: "CircularBuffer \<Rightarrow> cmem \<Rightarrow> 8 word list" where
  "cb_contents b m =
     ring (\<lambda>i. m (cb_data b + of_nat i)) (unat (buf_len b)) (cb_off b) (unat (unread_len b))"

text \<open>A block that does not wrap around has no null pointer in it.\<close>

lemma unat_add_block: "unat a + unat w < 2 ^ 32 \<Longrightarrow> unat (a + w) = unat a + unat w" for a w :: "32 word"
  using unat_add_lem [of a w] by simp

lemma block_nonzero:
  fixes a w :: "32 word"
  assumes "a \<noteq> 0" "unat a + unat w < 2 ^ 32"
  shows "a + w \<noteq> 0"
proof
  assume "a + w = 0"
  moreover have "unat (a + w) = unat a + unat w" by (rule unat_add_block [OF assms(2)])
  ultimately show False using assms(1) by (simp add: unat_eq_zero)
qed

lemma libc_memcpy_0 [simp]: "libc_memcpy d s 0 m = m"
  by (simp add: libc_memcpy_def)

lemma cb_ptr_eq: "cb_ptr b = cb_data b + of_nat (cb_off b)"
  by (simp add: cb_off_def)

lemma area_add_word:
  "unat w + n \<le> 2 ^ 32 \<Longrightarrow> x \<in> area (a + w) n \<longleftrightarrow> x \<in> area a (unat w + n) \<and> x \<notin> area a (unat w)"
  using area_add [of "unat w" n x a] by simp

lemma area_sub_block:
  "unat w + n \<le> k \<Longrightarrow> k \<le> 2 ^ 32 \<Longrightarrow> area (a + w) n \<subseteq> area a k"
  using area_add_word [of w n _ a] area_mono [of "unat w + n" k a] by auto

lemma block_in_area: "unat w < n \<Longrightarrow> a + w \<in> area a n"
  by (simp add: area_def)

lemma upper_size:
  assumes "cb_inv b"
  shows "unat (cb_data b + buf_len b - cb_ptr b) = unat (buf_len b) - cb_off b"
proof -
  have e: "cb_data b + buf_len b - cb_ptr b = buf_len b - (cb_ptr b - cb_data b)" by simp
  have "cb_ptr b - cb_data b \<le> buf_len b"
    using assms by (simp add: cb_inv_def cb_off_def word_le_nat_alt)
  then show ?thesis unfolding e cb_off_def by (rule unat_sub)
qed

text \<open>Copying out of a block that starts at \<open>a\<close>, from offset \<open>w\<close> on.\<close>

lemma memcpy_out:
  fixes a w dest num :: "32 word"
  assumes "a \<noteq> 0" "dest \<noteq> 0" "unat a + n < 2 ^ 32" "unat w + unat num \<le> n"
    and "area dest (unat num) \<inter> area a n = {}"
  shows "libc_memcpy dest (a + w) num m =
    (\<lambda>x. if x \<in> area dest (unat num) then m (a + w + (x - dest)) else m x)"
proof (rule libc_memcpy_eq)
  show "a + w \<noteq> 0" using assms by (intro block_nonzero) simp_all
  have "area (a + w) (unat num) \<subseteq> area a n" using assms by (intro area_sub_block) simp_all
  then show "area dest (unat num) \<inter> area (a + w) (unat num) = {}" using assms(5) by auto
qed (rule assms)

lemma read_mem:
  fixes b num out
  defines "r \<equiv> (if num > unread_len b then unread_len b else num)"
  assumes inv: "cb_inv b" and out: "out \<noteq> 0" "unat out + unat r < 2 ^ 32"
    and dis: "area out (unat r) \<inter> area (cb_data b) (unat (buf_len b)) = {}"
  shows "snd (snd (circular_buffer_read b num out m)) x =
    (if x \<in> area out (unat r)
     then m (cb_data b + of_nat ((cb_off b + unat (x - out)) mod unat (buf_len b))) else m x)"
proof -
  let ?n = "unat (buf_len b)" and ?o = "cb_off b" and ?d = "cb_data b"
  let ?w = "cb_ptr b - ?d" and ?u = "?d + buf_len b - cb_ptr b"
  have n: "?d \<noteq> 0" "unat ?d + ?n < 2 ^ 32" "?o \<le> ?n" "unat r \<le> ?n"
    using inv by (auto simp: cb_inv_def r_def word_le_nat_alt not_less)
  have u: "unat ?u = ?n - ?o" by (rule upper_size [OF inv])
  have w: "unat ?w = ?o" "cb_ptr b = ?d + ?w" by (simp_all add: cb_off_def)
  have in_ring: "m (?d + ?w + y) = m (?d + of_nat ((?o + unat y) mod ?n))" if "?o + unat y < ?n" for y
    using that by (simp add: cb_off_def)
  show ?thesis
  proof (cases "r > ?u")
    case False
    then have r: "?o + unat r \<le> ?n" using u n(3) by (simp add: word_le_nat_alt not_less)
    have "snd (snd (circular_buffer_read b num out m)) = libc_memcpy out (?d + ?w) r m"
      using False by (simp add: circular_buffer_read_def Let_def r_def [symmetric])
    also have "\<dots> = (\<lambda>x. if x \<in> area out (unat r) then m (?d + ?w + (x - out)) else m x)"
      using n out dis r w by (intro memcpy_out) simp_all
    finally show ?thesis using in_ring r by (simp add: area_def)
  next
    case True
    then have r: "unat ?u < unat r" by (simp add: word_less_nat_alt)
    have ru: "unat (r - ?u) = unat r - unat ?u" using True by (simp add: unat_sub less_imp_le)
    have sub: "area out (unat ?u) \<subseteq> area out (unat r)" using r by (intro area_mono) simp
    have sub': "area (out + ?u) (unat (r - ?u)) \<subseteq> area out (unat r)"
      using r ru unat_less32 [of r] by (intro area_sub_block) simp_all
    let ?m1 = "libc_memcpy out (?d + ?w) ?u m"
    have m1: "?m1 = (\<lambda>x. if x \<in> area out (unat ?u) then m (?d + ?w + (x - out)) else m x)"
      using n out dis w u sub by (intro memcpy_out) auto
    have "out + ?u \<noteq> 0" using out r by (intro block_nonzero) simp_all
    then have "libc_memcpy (out + ?u) (?d + 0) (r - ?u) ?m1 =
        (\<lambda>x. if x \<in> area (out + ?u) (unat (r - ?u)) then ?m1 (?d + 0 + (x - (out + ?u))) else ?m1 x)"
      using n ru dis sub' by (intro memcpy_out) auto
    moreover have "snd (snd (circular_buffer_read b num out m)) =
        libc_memcpy (out + ?u) ?d (r - ?u) ?m1"
      using True w by (simp add: circular_buffer_read_def Let_def r_def [symmetric])
    ultimately have e: "snd (snd (circular_buffer_read b num out m)) x =
        (if x \<in> area (out + ?u) (unat (r - ?u)) then ?m1 (?d + (x - (out + ?u))) else ?m1 x)"
      by simp
    have i: "x \<in> area (out + ?u) (unat (r - ?u)) \<longleftrightarrow> x \<in> area out (unat r) \<and> x \<notin> area out (unat ?u)"
      using area_add_word [of ?u "unat (r - ?u)" x out] ru r unat_less32 [of r] by simp
    show ?thesis
    proof (cases "x \<in> area out (unat r) \<and> x \<notin> area out (unat ?u)")
      case True
      let ?y = "x - (out + ?u)"
      have y: "unat ?y < unat r - unat ?u" "x - out = ?u + ?y" using i True ru by (simp_all add: area_def)
      have "unat (x - out) = unat ?u + unat ?y"
        unfolding y(2) using y(1) unat_less32 [of r] by (intro unat_add_block) simp
      then have yn: "?o + unat (x - out) = ?n + unat ?y" "unat ?y < ?n" using y(1) u n by simp_all
      then have "(?o + unat (x - out)) mod ?n = unat ?y" by simp
      moreover have "?d + ?y \<in> area ?d ?n" by (rule block_in_area [OF yn(2)])
      then have "?d + ?y \<notin> area out (unat ?u)" using dis sub by auto
      ultimately show ?thesis unfolding e using True i m1 by simp
    next
      case False
      then show ?thesis unfolding e using i m1 in_ring u sub by (auto simp: area_def)
    qed
  qed
qed

text \<open>Copying into a block that starts at \<open>a\<close>, from offset \<open>w\<close> on.\<close>

lemma memcpy_in:
  fixes a w src num :: "32 word"
  assumes "a \<noteq> 0" "src \<noteq> 0" "unat a + n < 2 ^ 32" "unat w + unat num \<le> n"
    and "area src (unat num) \<inter> area a n = {}"
  shows "i < n \<Longrightarrow> libc_memcpy (a + w) src num m (a + of_nat i) =
      (if unat w \<le> i \<and> i < unat w + unat num then m (src + of_nat (i - unat w)) else m (a + of_nat i))"
    and "x \<notin> area a n \<Longrightarrow> libc_memcpy (a + w) src num m x = m x"
proof -
  have "a + w \<noteq> 0" using assms by (intro block_nonzero) simp_all
  moreover have s: "area (a + w) (unat num) \<subseteq> area a n" using assms by (intro area_sub_block) simp_all
  ultimately have e: "libc_memcpy (a + w) src num m =
      (\<lambda>x. if x \<in> area (a + w) (unat num) then m (src + (x - (a + w))) else m x)"
    using assms by (intro libc_memcpy_eq) auto
  show "libc_memcpy (a + w) src num m x = m x" if "x \<notin> area a n" using that s e by auto
  assume i: "i < n"
  then have u: "unat (a + of_nat i - a) = i" using assms(3) by (simp add: unat_of_nat_small)
  have "a + of_nat i \<in> area (a + w) (unat num) \<longleftrightarrow> unat w \<le> i \<and> i < unat w + unat num"
    using area_add_word [of w "unat num" "a + of_nat i" a] assms(3,4) u by (auto simp: area_def)
  moreover have "a + of_nat i - (a + w) = of_nat (i - unat w)" if "unat w \<le> i"
    using that by (simp add: of_nat_diff)
  ultimately show "libc_memcpy (a + w) src num m (a + of_nat i) =
      (if unat w \<le> i \<and> i < unat w + unat num then m (src + of_nat (i - unat w)) else m (a + of_nat i))"
    unfolding e by simp
qed

lemma write_mem:
  fixes b num src m
  defines "w \<equiv> (if num > buf_len b - unread_len b then buf_len b - unread_len b else num)"
  assumes inv: "cb_inv b" and fit: "cb_off b + unat (unread_len b) \<le> unat (buf_len b)"
    and src: "src \<noteq> 0" "unat src + unat w < 2 ^ 32"
    and dis: "area src (unat w) \<inter> area (cb_data b) (unat (buf_len b)) = {}"
  defines "m' \<equiv> snd (snd (circular_buffer_write b num src m))" and "n \<equiv> unat (buf_len b)"
    and "e \<equiv> cb_off b + unat (unread_len b)"
  shows "j < unat w \<Longrightarrow> m' (cb_data b + of_nat ((e + j) mod n)) = m (src + of_nat j)"
    and "j < unat (unread_len b) \<Longrightarrow>
      m' (cb_data b + of_nat ((cb_off b + j) mod n)) = m (cb_data b + of_nat ((cb_off b + j) mod n))"
    and "x \<notin> area (cb_data b) n \<Longrightarrow> m' x = m x"
proof -
  let ?d = "cb_data b" and ?v = "cb_ptr b - cb_data b + unread_len b"
  let ?u = "?d + buf_len b - (cb_ptr b + unread_len b)"
  have n: "?d \<noteq> 0" "unat ?d + n < 2 ^ 32" "cb_off b \<le> n" "unat (unread_len b) \<le> n" "unat w \<le> n - unat (unread_len b)"
    using inv by (auto simp: cb_inv_def n_def w_def word_le_nat_alt not_less unat_sub)
  have v: "unat ?v = e" "cb_ptr b + unread_len b = ?d + ?v"
    using fit unat_less32 [of "buf_len b"] by (simp_all add: e_def cb_off_def unat_add_block)
  have q: "?u = buf_len b - ?v" by simp
  have "?v \<le> buf_len b" using fit v(1) by (simp add: word_le_nat_alt e_def)
  then have u: "unat ?u = n - e" unfolding q n_def v(1) [symmetric] by (rule unat_sub)
  have old: "(cb_off b + j) mod n = cb_off b + j" if "j < unat (unread_len b)" for j
    using that fit n(4) by (simp add: n_def)
  consider (one) "\<not> w > ?u" | (two) "w > ?u" by blast
  then have "(\<forall>j<unat w. m' (?d + of_nat ((e + j) mod n)) = m (src + of_nat j)) \<and>
    (\<forall>j<unat (unread_len b). m' (?d + of_nat (cb_off b + j)) = m (?d + of_nat (cb_off b + j))) \<and>
    (\<forall>x. x \<notin> area ?d n \<longrightarrow> m' x = m x)"
  proof cases
    case one
    then have w: "e + unat w \<le> n"
      using u fit by (simp add: word_le_nat_alt not_less e_def n_def)
    have m': "m' = libc_memcpy (?d + ?v) src w m"
      unfolding v(2) [symmetric] using one
      by (simp add: m'_def circular_buffer_write_def Let_def w_def [symmetric])
    have m: "\<And>i. i < n \<Longrightarrow> m' (?d + of_nat i) =
        (if e \<le> i \<and> i < e + unat w then m (src + of_nat (i - e)) else m (?d + of_nat i))"
      "\<And>x. x \<notin> area ?d n \<Longrightarrow> m' x = m x"
      unfolding m'
      using memcpy_in [where a = ?d and src = src and n = n and w = ?v and num = w and m = m, unfolded v(1)]
        n src(1) w dis [folded n_def] by blast+
    have "m' (?d + of_nat ((e + j) mod n)) = m (src + of_nat j)" if "j < unat w" for j
      using that w m(1) [of "e + j"] by (simp del: of_nat_add)
    moreover have "m' (?d + of_nat (cb_off b + j)) = m (?d + of_nat (cb_off b + j))"
      if "j < unat (unread_len b)" for j
      using that w m(1) [of "cb_off b + j"] by (simp add: e_def del: of_nat_add)
    ultimately show ?thesis using m(2) by blast
  next
    case two
    then have w: "unat ?u < unat w" "unat (w - ?u) = unat w - unat ?u"
      by (simp_all add: word_less_nat_alt unat_sub less_imp_le)
    let ?m1 = "libc_memcpy (?d + ?v) src ?u m"
    have sub: "area src (unat ?u) \<subseteq> area src (unat w)" using w by (intro area_mono) simp
    have sub': "area (src + ?u) (unat (w - ?u)) \<subseteq> area src (unat w)"
      using w unat_less32 [of w] by (intro area_sub_block) simp_all
    have "area src (unat ?u) \<inter> area ?d n = {}" "area (src + ?u) (unat (w - ?u)) \<inter> area ?d n = {}"
      using dis sub sub' by (auto simp: n_def)
    moreover have "src + ?u \<noteq> 0" using src w by (intro block_nonzero) simp_all
    moreover have le: "e + unat ?u \<le> n" "unat w - unat ?u \<le> cb_off b"
      using u fit n(5) by (simp_all add: e_def n_def)
    ultimately have
      m1: "\<And>i. i < n \<Longrightarrow> ?m1 (?d + of_nat i) =
        (if e \<le> i \<and> i < e + unat ?u then m (src + of_nat (i - e)) else m (?d + of_nat i))"
        "\<And>x. x \<notin> area ?d n \<Longrightarrow> ?m1 x = m x" and
      m2: "\<And>i. i < n \<Longrightarrow> libc_memcpy (?d + 0) (src + ?u) (w - ?u) ?m1 (?d + of_nat i) =
        (if i < unat (w - ?u) then ?m1 (src + ?u + of_nat i) else ?m1 (?d + of_nat i))"
        "\<And>x. x \<notin> area ?d n \<Longrightarrow> libc_memcpy (?d + 0) (src + ?u) (w - ?u) ?m1 x = ?m1 x"
      using memcpy_in [where a = ?d and src = src and n = n and w = ?v and num = ?u and m = m]
        memcpy_in [where a = ?d and src = "src + ?u" and n = n and w = 0 and num = "w - ?u" and m = ?m1]
        n src(1) v(1) w(2) by simp_all
    have m': "m' = libc_memcpy (?d + 0) (src + ?u) (w - ?u) ?m1"
      unfolding v(2) [symmetric] using two
      by (simp add: m'_def circular_buffer_write_def Let_def w_def [symmetric])
    have src_old: "?m1 (src + ?u + of_nat i) = m (src + ?u + of_nat i)" if "i < unat (w - ?u)" for i
    proof (rule m1(2))
      have "src + ?u + of_nat i \<in> area (src + ?u) (unat (w - ?u))"
        using that unat_le32 by (rule area_offset)
      then show "src + ?u + of_nat i \<notin> area ?d n" using dis sub' by (auto simp: n_def)
    qed
    have en: "e \<le> n" "e + unat ?u = n" using u fit by (simp_all add: e_def n_def)
    have off: "cb_off b \<le> e" by (simp add: e_def)
    have new: "m' (?d + of_nat ((e + j) mod n)) = m (src + of_nat j)" if j: "j < unat w" for j
    proof (cases "j < unat ?u")
      case True
      then have "e + j < n" "\<not> e + j < unat (w - ?u)" using le w(2) en off by simp_all
      then show ?thesis using m2(1) [of "e + j"] m1(1) [of "e + j"] True unfolding m' by simp
    next
      case False
      have i: "j - unat ?u < unat (w - ?u)" using j w False by simp
      then have "j - unat ?u < n" using le(2) w(2) n(3) by simp
      moreover have "e + j = n + (j - unat ?u)" using en(2) False by simp
      ultimately have i': "(e + j) mod n = j - unat ?u" "j - unat ?u < n" by simp_all
      have s: "src + ?u + of_nat (j - unat ?u) = src + of_nat j" using False by (simp add: of_nat_diff)
      have "m' (?d + of_nat (j - unat ?u)) = ?m1 (src + ?u + of_nat (j - unat ?u))"
        unfolding m' m2(1) [OF i'(2)] by (rule if_P [OF i])
      also have "\<dots> = m (src + of_nat j)" using src_old [OF i] unfolding s .
      finally show ?thesis unfolding i'(1) .
    qed
    have "m' (?d + of_nat (cb_off b + j)) = m (?d + of_nat (cb_off b + j))"
      if "j < unat (unread_len b)" for j
    proof -
      have "cb_off b + j < e" "\<not> cb_off b + j < unat (w - ?u)"
        using that le(2) w(2) by (simp_all add: e_def)
      then show ?thesis
        using m2(1) [of "cb_off b + j"] m1(1) [of "cb_off b + j"] en(1) unfolding m' by simp
    qed
    then show ?thesis using new m1(2) m2(2) unfolding m' by simp
  qed
  then show "j < unat w \<Longrightarrow> m' (cb_data b + of_nat ((e + j) mod n)) = m (src + of_nat j)"
    and "j < unat (unread_len b) \<Longrightarrow>
      m' (cb_data b + of_nat ((cb_off b + j) mod n)) = m (cb_data b + of_nat ((cb_off b + j) mod n))"
    and "x \<notin> area (cb_data b) n \<Longrightarrow> m' x = m x"
    using old by auto
qed

lemma cb_init_inv:
  "data \<noteq> 0 \<Longrightarrow> unat data + unat len < 2 ^ 32 \<Longrightarrow>
   fst (circular_buffer_init b data len) = 0 \<and> cb_inv (snd (circular_buffer_init b data len)) \<and>
   cb_contents (snd (circular_buffer_init b data len)) m = []"
  by (simp add: circular_buffer_init_def cb_inv_def cb_off_def cb_contents_def)

lemma unat_clip: "unat (if a > b then b else a) = min (unat a) (unat b)" for a b :: "32 word"
  by (auto simp: word_less_nat_alt min_def)

lemma read_state:
  fixes b num out m
  defines "r \<equiv> min (unat num) (unat (unread_len b))" and "n \<equiv> unat (buf_len b)"
  assumes "cb_inv b"
  obtains b' m' where "circular_buffer_read b num out m = (of_nat r, b', m')"
    and "cb_data b' = cb_data b" "buf_len b' = buf_len b" "unat (unread_len b') = unat (unread_len b) - r"
    and "cb_off b' = (if cb_off b + r \<le> n then cb_off b + r else cb_off b + r - n)"
proof
  let ?w = "if num > unread_len b then unread_len b else num"
  let ?u = "cb_data b + buf_len b - cb_ptr b" and ?b = "fst (snd (circular_buffer_read b num out m))"
  have w: "unat ?w = r" unfolding unat_clip r_def ..
  have "of_nat (unat w) = w" for w :: "32 word" by simp
  from this [of ?w] have w': "?w = of_nat r" unfolding w ..
  have u: "unat ?u = n - cb_off b" unfolding n_def by (rule upper_size [OF assms(3)])
  have n: "cb_off b \<le> n" "r \<le> n" using assms(3) by (auto simp: cb_inv_def n_def r_def word_le_nat_alt)
  show "circular_buffer_read b num out m = (of_nat r, ?b, snd (snd (circular_buffer_read b num out m)))"
    unfolding circular_buffer_read_def Let_def w' by (simp split: prod.split)
  show "cb_data ?b = cb_data b" "buf_len ?b = buf_len b"
    by (simp_all add: circular_buffer_read_def Let_def)
  have "unread_len ?b = unread_len b - ?w" by (simp add: circular_buffer_read_def Let_def)
  moreover have "?w \<le> unread_len b" by auto
  ultimately show "unat (unread_len ?b) = unat (unread_len b) - r" using w by (simp add: unat_sub)
  have gt: "?w > ?u \<longleftrightarrow> \<not> cb_off b + r \<le> n"
    unfolding word_less_nat_alt [of ?u ?w] w u using n by auto
  show "cb_off ?b = (if cb_off b + r \<le> n then cb_off b + r else cb_off b + r - n)"
  proof (cases "cb_off b + r \<le> n")
    case True
    then have "\<not> ?w > ?u" using gt by blast
    then have "cb_ptr ?b = cb_ptr b + ?w" unfolding circular_buffer_read_def Let_def by simp
    then have "cb_off ?b = unat ((cb_ptr b - cb_data b) + ?w)"
      using \<open>cb_data ?b = cb_data b\<close> by (simp add: cb_off_def algebra_simps)
    also have "\<dots> = cb_off b + r"
      using True w unat_less32 [of "buf_len b"] by (subst unat_add_block) (simp_all add: cb_off_def n_def)
    finally show ?thesis using True by simp
  next
    case False
    then have g: "?w > ?u" using gt by blast
    then have "cb_ptr ?b = cb_data b + (?w - ?u)" unfolding circular_buffer_read_def Let_def by simp
    then have "cb_off ?b = unat (?w - ?u)"
      unfolding cb_off_def \<open>cb_data ?b = cb_data b\<close> by (simp only: add_diff_cancel_left')
    also have "\<dots> = r - (n - cb_off b)" using g w u by (subst unat_sub) simp_all
    finally show ?thesis using False n by simp
  qed
qed

lemma read_refines:
  fixes b num out m
  defines "r \<equiv> min (unat num) (unat (unread_len b))"
  assumes inv: "cb_inv b" and out: "out \<noteq> 0" "unat out + r < 2 ^ 32"
    and dis: "area out r \<inter> area (cb_data b) (unat (buf_len b)) = {}"
  obtains b' m' where "circular_buffer_read b num out m = (of_nat r, b', m')" and "cb_inv b'"
    and "bytes m' out r = take r (cb_contents b m)" and "cb_contents b' m' = drop r (cb_contents b m)"
    and "\<forall>x. x \<notin> area out r \<longrightarrow> m' x = m x"
proof -
  let ?n = "unat (buf_len b)" and ?w = "if num > unread_len b then unread_len b else num"
  obtain b' m' where b': "circular_buffer_read b num out m = (of_nat r, b', m')"
    "cb_data b' = cb_data b" "buf_len b' = buf_len b" "unat (unread_len b') = unat (unread_len b) - r"
    "cb_off b' = (if cb_off b + r \<le> ?n then cb_off b + r else cb_off b + r - ?n)"
    by (rule read_state [OF inv, of num out m, folded r_def])
  have w: "unat ?w = r" unfolding unat_clip r_def ..
  have m': "m' x = (if x \<in> area out r then m (cb_data b + of_nat ((cb_off b + unat (x - out)) mod ?n)) else m x)" for x
    using read_mem [OF inv out(1), of num m x, unfolded w, OF out(2) dis] b'(1) by simp
  have n: "r \<le> unat (unread_len b)" "unat (unread_len b) \<le> ?n" "cb_off b \<le> ?n" "?n < 2 ^ 32"
    using inv unat_less32 by (simp_all add: cb_inv_def r_def word_le_nat_alt)
  have inv': "cb_inv b'" using inv b'(2-5) n by (auto simp: cb_inv_def word_le_nat_alt)
  have by': "bytes m' out r = take r (cb_contents b m)"
  proof (rule nth_equalityI)
    show "length (bytes m' out r) = length (take r (cb_contents b m))"
      using n by (simp add: cb_contents_def)
    fix j assume "j < length (bytes m' out r)"
    then have j: "j < r" by simp
    then have "out + of_nat j \<in> area out r" "unat (of_nat j :: 32 word) = j"
      using n by (simp_all add: area_offset unat_of_nat_small)
    then show "bytes m' out r ! j = take r (cb_contents b m) ! j"
      using j n m' by (simp add: cb_contents_def)
  qed
  have ct: "cb_contents b' m' = drop r (cb_contents b m)"
  proof -
    have f: "m' (cb_data b + of_nat i) = m (cb_data b + of_nat i)" if "i < ?n" for i
    proof -
      have "cb_data b + of_nat i \<in> area (cb_data b) ?n" using that n(4) by (intro area_offset) simp_all
      then show ?thesis using m' dis by auto
    qed
    have "cb_contents b' m' =
        ring (\<lambda>i. m' (cb_data b + of_nat i)) ?n (cb_off b + r) (unat (unread_len b) - r)"
      unfolding cb_contents_def b'(2-5)
      by (subst (1 2) ring_mod [symmetric]) (simp add: le_mod_geq)
    also have "\<dots> = ring (\<lambda>i. m (cb_data b + of_nat i)) ?n (cb_off b + r) (unat (unread_len b) - r)"
      using f n by (intro ring_cong) simp
    finally show ?thesis by (simp add: cb_contents_def drop_ring)
  qed
  show thesis by (rule that [OF b'(1) inv' by' ct]) (simp add: m')
qed

lemma write_refines:
  fixes b num src m
  defines "w \<equiv> min (unat num) (unat (buf_len b) - unat (unread_len b))"
  assumes inv: "cb_inv b" and fit: "cb_off b + unat (unread_len b) \<le> unat (buf_len b)"
    and src: "src \<noteq> 0" "unat src + w < 2 ^ 32"
    and dis: "area src w \<inter> area (cb_data b) (unat (buf_len b)) = {}"
  obtains b' m' where "circular_buffer_write b num src m = (of_nat w, b', m')" and "cb_inv b'"
    and "cb_contents b' m' = cb_contents b m @ bytes m src w"
    and "\<forall>x. x \<notin> area (cb_data b) (unat (buf_len b)) \<longrightarrow> m' x = m x"
proof -
  let ?n = "unat (buf_len b)" and ?l = "buf_len b - unread_len b"
  let ?w = "if num > ?l then ?l else num"
  define m' where "m' = snd (snd (circular_buffer_write b num src m))"
  define b' where "b' = b\<lparr>unread_len := unread_len b + ?w\<rparr>"
  have l: "unat ?l = ?n - unat (unread_len b)" using inv by (intro unat_sub) (simp add: cb_inv_def)
  have w: "unat ?w = w" unfolding unat_clip w_def l ..
  have "of_nat (unat w) = w" for w :: "32 word" by simp
  from this [of ?w] have w': "?w = of_nat w" unfolding w ..
  have e: "circular_buffer_write b num src m = (of_nat w, b', m')"
    unfolding m'_def b'_def circular_buffer_write_def Let_def w' by simp
  have n: "unat (unread_len b) \<le> ?n" "unat (unread_len b) + w \<le> ?n" "?n < 2 ^ 32"
    using inv unat_less32 by (auto simp: cb_inv_def w_def word_le_nat_alt)
  have u: "unat (unread_len b') = unat (unread_len b) + w"
    using n w by (simp add: b'_def unat_add_block)
  have b': "cb_data b' = cb_data b" "buf_len b' = buf_len b" "cb_off b' = cb_off b"
    by (simp_all add: b'_def cb_off_def)
  note mem = write_mem [OF inv fit src(1), where num = num and m = m, unfolded w, OF src(2) dis, folded m'_def]
  have "cb_inv b'" using inv b' u n by (simp add: cb_inv_def word_le_nat_alt)
  moreover have "cb_contents b' m' = cb_contents b m @ bytes m src w"
  proof -
    have "ring (\<lambda>i. m' (cb_data b + of_nat i)) ?n (cb_off b + unat (unread_len b)) w = bytes m src w"
      using mem(1) by (intro nth_equalityI) simp_all
    moreover have "ring (\<lambda>i. m' (cb_data b + of_nat i)) ?n (cb_off b) (unat (unread_len b)) =
        ring (\<lambda>i. m (cb_data b + of_nat i)) ?n (cb_off b) (unat (unread_len b))"
      using mem(2) by (rule ring_cong)
    ultimately show ?thesis by (simp add: cb_contents_def b' u ring_append)
  qed
  ultimately show thesis using mem(3) by (intro that [OF e]) simp_all
qed

text \<open>
  Once the unread bytes wrap around the end of the block, a write goes behind the block: the bytes
  are stored at the end of the unread bytes as if the block went on.
\<close>

lemma write_overruns:
  fixes b num src m
  defines "w \<equiv> min (unat num) (unat (buf_len b) - unat (unread_len b))"
    and "n \<equiv> unat (buf_len b)" and "e \<equiv> cb_off b + unat (unread_len b)"
  assumes inv: "cb_inv b" and wrap: "n < e" and room: "unat (cb_data b) + e + w < 2 ^ 32"
    and src: "src \<noteq> 0" and dis: "area src w \<inter> area (cb_data b) (e + w) = {}" and j: "j < w"
  shows "snd (snd (circular_buffer_write b num src m)) (cb_data b + of_nat (e + j)) = m (src + of_nat j)"
    and "cb_data b + of_nat (e + j) \<notin> area (cb_data b) n"
proof -
  let ?l = "buf_len b - unread_len b" and ?v = "cb_ptr b - cb_data b + unread_len b"
  let ?w = "if num > ?l then ?l else num"
  let ?u = "cb_data b + buf_len b - (cb_ptr b + unread_len b)"
  have l: "unat ?l = n - unat (unread_len b)" unfolding n_def using inv by (intro unat_sub) (simp add: cb_inv_def)
  have w: "unat ?w = w" unfolding unat_clip w_def l n_def ..
  have v: "unat ?v = e" "cb_ptr b + unread_len b = cb_data b + ?v"
    using room by (simp_all add: e_def cb_off_def unat_add_block)
  have n: "cb_off b \<le> n" "unat (unread_len b) \<le> n" "e \<le> 2 * n" "w \<le> n"
    using inv by (auto simp: cb_inv_def n_def e_def w_def word_le_nat_alt)
  have q: "?u = buf_len b - ?v" by simp
  have "unat ?u = n + 2 ^ 32 - e"
    unfolding q using unat_sub_if' [of "buf_len b" ?v] wrap by (simp add: v n_def)
  then have "\<not> unat ?u < unat ?w" unfolding w using room n by simp
  then have "\<not> ?w > ?u" unfolding word_less_nat_alt [of ?u ?w] .
  then have m': "snd (snd (circular_buffer_write b num src m)) = libc_memcpy (cb_data b + ?v) src ?w m"
    unfolding v(2) [symmetric] circular_buffer_write_def Let_def by simp
  show "snd (snd (circular_buffer_write b num src m)) (cb_data b + of_nat (e + j)) = m (src + of_nat j)"
    unfolding m'
    using memcpy_in(1) [where a = "cb_data b" and src = src and n = "e + w" and w = ?v and num = ?w
        and m = m and i = "e + j", unfolded w v(1)] inv src room dis j
    by (simp add: cb_inv_def del: of_nat_add)
  have "unat (of_nat (e + j) :: 32 word) = e + j" using room j by (intro unat_of_nat_small) simp
  then show "cb_data b + of_nat (e + j) \<notin> area (cb_data b) n"
    using wrap by (simp add: area_def del: of_nat_add)
qed

section \<open>The queue of elements is a queue\<close>

definition cq_fill :: "CQueue \<Rightarrow> nat" where
  "cq_fill c =
     (case cq_state c of
        CQUEUE_EMPTY \<Rightarrow> 0
      | CQUEUE_FULL \<Rightarrow> unat (n_elems c)
      | CQUEUE_PARTIAL \<Rightarrow> (unat (cq_tail c) + unat (n_elems c) - unat (cq_head c)) mod unat (n_elems c))"

definition cq_elem :: "CQueue \<Rightarrow> cmem \<Rightarrow> nat \<Rightarrow> 8 word list" where
  "cq_elem c m i = bytes m (elem_at c (of_nat i)) (unat (elem_size c))"

definition cq_contents :: "CQueue \<Rightarrow> cmem \<Rightarrow> 8 word list list" where
  "cq_contents c m = ring (cq_elem c m) (unat (n_elems c)) (unat (cq_head c)) (cq_fill c)"

definition cq_size :: "CQueue \<Rightarrow> nat" where
  "cq_size c = unat (n_elems c) * unat (elem_size c)"

definition cq_inv :: "CQueue \<Rightarrow> bool" where
  "cq_inv c \<longleftrightarrow> cq_queue c \<noteq> 0 \<and> unat (cq_queue c) + cq_size c < 2 ^ 32 \<and>
     cq_head c < n_elems c \<and> cq_tail c < n_elems c \<and>
     (cq_state c = CQUEUE_PARTIAL \<longleftrightarrow> cq_head c \<noteq> cq_tail c)"

lemma Suc_mod_word:
  fixes a n :: "32 word"
  assumes "a < n"
  shows "unat ((a + 1) mod n) = (unat a + 1) mod unat n" "(a + 1) mod n < n"
proof -
  have "unat a + 1 < 2 ^ 32" using assms unat_less32 [of n] by (simp add: word_less_nat_alt)
  then have "unat (a + 1) = unat a + 1" using unat_add_block [of a 1] by simp
  then show "unat ((a + 1) mod n) = (unat a + 1) mod unat n" by (simp add: unat_mod_distrib)
  show "(a + 1) mod n < n" using assms by (metis word_gt_0 word_mod_less_divisor word_not_simps(1))
qed

lemma ring_index_inj:
  assumes "(h + x) mod n = (h + y) mod n" "x < n" "y < n"
  shows "x = (y :: nat)"
proof -
  have "x = y" if "x \<le> y" "y < n" "(h + y) mod n = (h + x) mod n" for x y
  proof -
    have "n dvd (h + y) - (h + x)" using that by (subst mod_eq_dvd_iff_nat [symmetric]) simp_all
    then have "n dvd y - x" by simp
    moreover have "y - x < n" using that by simp
    ultimately show ?thesis using that(1) by (metis dvd_imp_le diff_is_0_eq le_antisym not_less neq0_conv)
  qed
  from this [of x y] this [of y x] show ?thesis using assms by (cases "x \<le> y") simp_all
qed

lemma cq_tail_eq:
  assumes "cq_inv c"
  shows "unat (cq_tail c) = (unat (cq_head c) + cq_fill c) mod unat (n_elems c)"
    and "cq_fill c \<le> unat (n_elems c)"
    and "cq_state c = CQUEUE_FULL \<longleftrightarrow> cq_fill c = unat (n_elems c)"
    and "cq_state c = CQUEUE_EMPTY \<longleftrightarrow> cq_fill c = 0"
proof -
  let ?h = "unat (cq_head c)" and ?t = "unat (cq_tail c)" and ?n = "unat (n_elems c)"
  have b: "?h < ?n" "?t < ?n" and st: "cq_state c = CQUEUE_PARTIAL \<longleftrightarrow> ?h \<noteq> ?t"
    using assms by (simp_all add: cq_inv_def word_less_nat_alt word_unat_eq_iff)
  have m: "(?h + (?t + ?n - ?h) mod ?n) mod ?n = ?t"
    using b by (simp add: mod_add_right_eq)
  have "?t = (?h + cq_fill c) mod ?n \<and> cq_fill c \<le> ?n \<and>
    (cq_state c = CQUEUE_FULL \<longleftrightarrow> cq_fill c = ?n) \<and> (cq_state c = CQUEUE_EMPTY \<longleftrightarrow> cq_fill c = 0)"
  proof (cases "cq_state c")
    case CQUEUE_PARTIAL
    then have f: "cq_fill c = (?t + ?n - ?h) mod ?n" by (simp add: cq_fill_def)
    have "cq_fill c < ?n" unfolding f using b by simp
    moreover have "cq_fill c \<noteq> 0"
    proof
      assume "cq_fill c = 0"
      then have "?t = ?h" using m b unfolding f by simp
      then show False using st CQUEUE_PARTIAL by simp
    qed
    ultimately show ?thesis using m CQUEUE_PARTIAL unfolding f by simp
  qed (use b st in \<open>simp_all add: cq_fill_def\<close>)
  then show "?t = (?h + cq_fill c) mod ?n" "cq_fill c \<le> ?n"
    "cq_state c = CQUEUE_FULL \<longleftrightarrow> cq_fill c = ?n" "cq_state c = CQUEUE_EMPTY \<longleftrightarrow> cq_fill c = 0"
    by blast+
qed

text \<open>The number of elements is determined by the indices and the state.\<close>

lemma cq_fill_eq:
  assumes "cq_inv c" and "k \<le> unat (n_elems c)"
    and "unat (cq_tail c) = (unat (cq_head c) + k) mod unat (n_elems c)"
    and "cq_state c = CQUEUE_FULL \<longleftrightarrow> k = unat (n_elems c)" and "cq_state c = CQUEUE_EMPTY \<longleftrightarrow> k = 0"
  shows "cq_fill c = k"
proof (cases "cq_fill c < unat (n_elems c) \<and> k < unat (n_elems c)")
  case True
  then show ?thesis using ring_index_inj cq_tail_eq(1) [OF assms(1)] assms(3) by metis
next
  case False
  then show ?thesis using cq_tail_eq [OF assms(1)] assms(2,4) by auto
qed

text \<open>The places of the elements.\<close>

lemma elem_at_index: "elem_at c (of_nat i) + of_nat k = cq_queue c + of_nat (i * unat (elem_size c) + k)"
  by (simp add: elem_at_def)

lemma elem_fits:
  assumes "i < unat (n_elems c)"
  shows "i * unat (elem_size c) + unat (elem_size c) \<le> cq_size c"
  using mult_le_mono1 [of "Suc i" "unat (n_elems c)" "unat (elem_size c)"] assms
  by (simp add: cq_size_def)

lemma other_elem:
  fixes i t es k :: nat
  assumes "i \<noteq> t" "k < es"
  shows "\<not> (t * es \<le> i * es + k \<and> i * es + k < t * es + es)"
proof (cases "i < t")
  case True
  then have "Suc i * es \<le> t * es" by (intro mult_le_mono1) simp
  then show ?thesis using assms(2) by simp
next
  case False
  then have "Suc t * es \<le> i * es" using assms(1) by (intro mult_le_mono1) simp
  then show ?thesis by simp
qed

lemma put_elem:
  fixes c buf m
  assumes inv: "cq_inv c" and buf: "buf \<noteq> 0"
    and dis: "area buf (unat (elem_size c)) \<inter> area (cq_queue c) (cq_size c) = {}"
    and ix: "t < unat (n_elems c)"
  defines "m' \<equiv> libc_memcpy (elem_at c (of_nat t)) buf (elem_size c) m"
  shows "i < unat (n_elems c) \<Longrightarrow>
      cq_elem c m' i = (if i = t then bytes m buf (unat (elem_size c)) else cq_elem c m i)"
    and "x \<notin> area (cq_queue c) (cq_size c) \<Longrightarrow> m' x = m x"
proof -
  let ?es = "unat (elem_size c)" and ?w = "of_nat t * elem_size c"
  have q: "cq_queue c \<noteq> 0" "unat (cq_queue c) + cq_size c < 2 ^ 32" using inv by (simp_all add: cq_inv_def)
  have "?w = of_nat (t * ?es)" by simp
  moreover have "t * ?es < 2 ^ 32" using elem_fits [OF ix] q(2) by simp
  ultimately have w: "unat ?w = t * ?es" using unat_of_nat_small [of "t * ?es", where 'a = 32] by simp
  note mem = memcpy_in [where a = "cq_queue c" and src = buf and n = "cq_size c" and w = ?w
      and num = "elem_size c" and m = m, unfolded w, OF q(1) buf q(2) elem_fits [OF ix] dis]
  show "x \<notin> area (cq_queue c) (cq_size c) \<Longrightarrow> m' x = m x"
    unfolding m'_def elem_at_def by (rule mem(2))
  assume i: "i < unat (n_elems c)"
  show "cq_elem c m' i = (if i = t then bytes m buf ?es else cq_elem c m i)"
  proof (rule nth_equalityI)
    fix k assume "k < length (cq_elem c m' i)"
    then have k: "k < ?es" by (simp add: cq_elem_def)
    then have lt: "i * ?es + k < cq_size c" using elem_fits [OF i] by simp
    have "cq_elem c m' i ! k = m' (cq_queue c + of_nat (i * ?es + k))"
      using k unfolding cq_elem_def by (simp only: nth_bytes elem_at_index)
    also have "\<dots> = (if t * ?es \<le> i * ?es + k \<and> i * ?es + k < t * ?es + ?es
        then m (buf + of_nat (i * ?es + k - t * ?es)) else m (cq_queue c + of_nat (i * ?es + k)))"
      unfolding m'_def elem_at_def by (rule mem(1) [OF lt])
    also have "\<dots> = (if i = t then m (buf + of_nat k) else m (cq_queue c + of_nat (i * ?es + k)))"
    proof (cases "i = t")
      case False
      show ?thesis using other_elem [OF False k] False by (simp only: if_False)
    qed (use k in simp)
    also have "\<dots> = (if i = t then bytes m buf ?es else cq_elem c m i) ! k"
      using k by (simp only: cq_elem_def nth_bytes elem_at_index if_distrib [of "\<lambda>xs. xs ! k"] split: if_split)
    finally show "cq_elem c m' i ! k = (if i = t then bytes m buf ?es else cq_elem c m i) ! k" .
  qed (simp add: cq_elem_def)
qed

lemma cq_frame:
  "cq_inv c \<Longrightarrow> i < unat (n_elems c) \<Longrightarrow> \<forall>x\<in>area (cq_queue c) (cq_size c). m' x = m x \<Longrightarrow>
   cq_elem c m' i = cq_elem c m i"
proof (rule nth_equalityI)
  let ?es = "unat (elem_size c)"
  assume a: "cq_inv c" "i < unat (n_elems c)" "\<forall>x\<in>area (cq_queue c) (cq_size c). m' x = m x"
  fix k assume "k < length (cq_elem c m' i)"
  then have k: "k < ?es" by (simp add: cq_elem_def)
  then have "i * ?es + k < cq_size c" using elem_fits [OF a(2)] by simp
  then have "cq_queue c + of_nat (i * ?es + k) \<in> area (cq_queue c) (cq_size c)"
    using a(1) by (intro area_offset) (simp_all add: cq_inv_def)
  then show "cq_elem c m' i ! k = cq_elem c m i ! k"
    using k a(3) unfolding cq_elem_def by (simp only: nth_bytes elem_at_index)
qed (simp add: cq_elem_def)

lemma put_one_refines:
  fixes c buf m
  assumes inv: "cq_inv c" and room: "cq_state c \<noteq> CQUEUE_FULL" and buf: "buf \<noteq> 0"
    and dis: "area buf (unat (elem_size c)) \<inter> area (cq_queue c) (cq_size c) = {}"
  obtains c' m' where "put_one c buf m = (c', m')" and "cq_inv c'" and "cq_fill c' = Suc (cq_fill c)"
    and "cq_contents c' m' = cq_contents c m @ [bytes m buf (unat (elem_size c))]"
    and "cq_queue c' = cq_queue c" "elem_size c' = elem_size c" "n_elems c' = n_elems c"
    and "\<forall>x. x \<notin> area (cq_queue c) (cq_size c) \<longrightarrow> m' x = m x"
proof -
  let ?n = "unat (n_elems c)" and ?h = "unat (cq_head c)" and ?f = "cq_fill c"
  obtain c' m' where c': "put_one c buf m = (c', m')" by (cases "put_one c buf m")
  let ?t = "(cq_tail c + 1) mod n_elems c"
  have e: "c' = c\<lparr>cq_tail := ?t, cq_state := if ?t = cq_head c then CQUEUE_FULL else CQUEUE_PARTIAL\<rparr>"
    and m': "m' = libc_memcpy (elem_at c (cq_tail c)) buf (elem_size c) m"
    using c' by (auto simp: put_one_def Let_def)
  have b: "cq_head c < n_elems c" "cq_tail c < n_elems c" "?h < ?n" "unat (cq_tail c) < ?n"
    using inv by (simp_all add: cq_inv_def word_less_nat_alt)
  note tail = cq_tail_eq [OF inv]
  have f: "?f < ?n" using tail(2,3) room by linarith
  have t: "unat ?t = (?h + Suc ?f) mod ?n"
    unfolding Suc_mod_word(1) [OF b(2)] tail(1) by (simp add: mod_Suc_eq)
  have same: "cq_queue c' = cq_queue c" "elem_size c' = elem_size c" "n_elems c' = n_elems c"
    "cq_head c' = cq_head c" "cq_tail c' = ?t" by (simp_all add: e)
  have inv': "cq_inv c'"
    using inv Suc_mod_word(2) [OF b(2)] by (auto simp: cq_inv_def cq_size_def e)
  have full: "?t = cq_head c \<longleftrightarrow> Suc ?f = ?n"
  proof -
    have "?t = cq_head c \<longleftrightarrow> (?h + Suc ?f) mod ?n = ?h" by (simp add: word_unat_eq_iff t)
    also have "\<dots> \<longleftrightarrow> Suc ?f = ?n"
      using ring_index_inj [of ?h "Suc ?f" ?n 0] f b(3) by (cases "Suc ?f = ?n") auto
    finally show ?thesis .
  qed
  have fill: "cq_fill c' = Suc ?f"
    using f t full by (intro cq_fill_eq [OF inv']) (auto simp: e)
  have elem: "cq_elem c' m'' i = cq_elem c m'' i" for m'' i by (simp add: cq_elem_def elem_at_def e)
  have tl: "elem_at c (of_nat (unat (cq_tail c))) = elem_at c (cq_tail c)" by simp
  note put = put_elem [OF inv buf dis b(4), unfolded tl, where m = m, folded m']
  have "cq_contents c' m' = ring (cq_elem c m') ?n ?h (?f + 1)"
    unfolding cq_contents_def fill same elem [abs_def] by simp
  also have "\<dots> = ring (cq_elem c m') ?n ?h ?f @ [cq_elem c m' ((?h + ?f) mod ?n)]"
    unfolding ring_append by (simp add: ring_def)
  also have "cq_elem c m' ((?h + ?f) mod ?n) = bytes m buf (unat (elem_size c))"
    using put(1) [OF b(4)] tail(1) by simp
  also have "ring (cq_elem c m') ?n ?h ?f = cq_contents c m"
    unfolding cq_contents_def
  proof (rule ring_cong)
    fix j assume j: "j < ?f"
    then have "(?h + j) mod ?n \<noteq> unat (cq_tail c)" using ring_index_inj [of ?h j ?n ?f] f tail(1) by auto
    then show "cq_elem c m' ((?h + j) mod ?n) = cq_elem c m ((?h + j) mod ?n)"
      using put(1) [of "(?h + j) mod ?n"] b(3) by simp
  qed
  finally show thesis using that [OF c' inv' fill] same put(2) by blast
qed

lemma get_one_refines:
  fixes c buf m
  assumes inv: "cq_inv c" and some: "cq_state c \<noteq> CQUEUE_EMPTY"
    and buf: "store \<Longrightarrow> buf \<noteq> 0"
      "store \<Longrightarrow> area buf (unat (elem_size c)) \<inter> area (cq_queue c) (cq_size c) = {}"
  obtains c' m' x where "get_one store c buf m = (c', m')" and "cq_inv c'" and "cq_fill c = Suc (cq_fill c')"
    and "cq_contents c m = x # cq_contents c' m'" and "store \<longrightarrow> bytes m' buf (unat (elem_size c)) = x"
    and "cq_queue c' = cq_queue c" "elem_size c' = elem_size c" "n_elems c' = n_elems c"
    and "\<forall>a. \<not> store \<or> a \<notin> area buf (unat (elem_size c)) \<longrightarrow> m' a = m a"
proof -
  let ?n = "unat (n_elems c)" and ?h = "unat (cq_head c)" and ?f = "cq_fill c"
  let ?es = "unat (elem_size c)" and ?w = "cq_head c * elem_size c"
  obtain c' m' where c': "get_one store c buf m = (c', m')" by (cases "get_one store c buf m")
  let ?t = "(cq_head c + 1) mod n_elems c"
  have e: "c' = c\<lparr>cq_head := ?t, cq_state := if cq_tail c = ?t then CQUEUE_EMPTY else CQUEUE_PARTIAL\<rparr>"
    and m': "m' = (if store then libc_memcpy buf (cq_queue c + ?w) (elem_size c) m else m)"
    using c' by (auto simp: get_one_def Let_def elem_at_def)
  have b: "cq_head c < n_elems c" "cq_tail c < n_elems c" "?h < ?n" "unat (cq_tail c) < ?n"
    using inv by (simp_all add: cq_inv_def word_less_nat_alt)
  have q: "cq_queue c \<noteq> 0" "unat (cq_queue c) + cq_size c < 2 ^ 32" using inv by (simp_all add: cq_inv_def)
  note tail = cq_tail_eq [OF inv]
  obtain k where k: "?f = Suc k" using tail(4) some by (cases ?f) auto
  have h: "unat ?t = (?h + 1) mod ?n" by (rule Suc_mod_word(1) [OF b(1)])
  have t: "unat (cq_tail c) = (unat ?t + k) mod ?n"
    unfolding h tail(1) k by (simp add: mod_add_left_eq)
  have same: "cq_queue c' = cq_queue c" "elem_size c' = elem_size c" "n_elems c' = n_elems c"
    "cq_head c' = ?t" "cq_tail c' = cq_tail c" by (simp_all add: e)
  have inv': "cq_inv c'"
    using inv Suc_mod_word(2) [OF b(1)] by (auto simp: cq_inv_def cq_size_def e)
  have empty: "cq_tail c = ?t \<longleftrightarrow> k = 0"
  proof -
    have "cq_tail c = ?t \<longleftrightarrow> (unat ?t + k) mod ?n = unat ?t" by (simp add: word_unat_eq_iff t)
    also have "\<dots> \<longleftrightarrow> k = 0"
      using ring_index_inj [of "unat ?t" k ?n 0] tail(2) k h b(3) by auto
    finally show ?thesis .
  qed
  have fill: "cq_fill c' = k"
    using t empty tail(2) k by (intro cq_fill_eq [OF inv']) (auto simp: e)
  have "unat ?w = ?h * ?es"
  proof -
    have "?w = of_nat (?h * ?es)" by simp
    moreover have "?h * ?es < 2 ^ 32" using elem_fits [OF b(3)] q(2) by simp
    ultimately show ?thesis using unat_of_nat_small [of "?h * ?es", where 'a = 32] by simp
  qed
  then have w: "unat ?w + ?es \<le> cq_size c" using elem_fits [OF b(3)] by simp
  have copy: "m' = (\<lambda>x. if x \<in> area buf ?es then m (cq_queue c + ?w + (x - buf)) else m x)" if store
    unfolding m' using that memcpy_out [OF q(1) buf(1) q(2) w buf(2)] by simp
  have stored: "bytes m' buf ?es = cq_elem c m ?h" if store
  proof (rule nth_equalityI)
    fix i assume "i < length (bytes m' buf ?es)"
    then have i: "i < ?es" by simp
    then have "buf + of_nat i \<in> area buf ?es" by (intro area_offset unat_le32)
    then show "bytes m' buf ?es ! i = cq_elem c m ?h ! i"
      using i by (simp add: copy [OF that] cq_elem_def elem_at_def)
  qed (simp add: cq_elem_def)
  have outside: "m' a = m a" if "\<not> store \<or> a \<notin> area buf ?es" for a
    using that copy by (cases store) (simp_all add: m')
  have "\<forall>x\<in>area (cq_queue c) (cq_size c). m' x = m x"
    using outside buf(2) by (cases store) auto
  from cq_frame [OF inv _ this] have fr: "cq_elem c m' i = cq_elem c m i" if "i < ?n" for i using that .
  have elem: "cq_elem c' m'' i = cq_elem c m'' i" for m'' i by (simp add: cq_elem_def elem_at_def e)
  have "cq_contents c' m' = ring (cq_elem c m') ?n (Suc ?h) k"
    unfolding cq_contents_def fill same elem [abs_def] h by (simp add: ring_mod)
  also have "\<dots> = ring (cq_elem c m) ?n (Suc ?h) k" using fr b(3) by (intro ring_cong) simp
  finally have "cq_contents c m = cq_elem c m ?h # cq_contents c' m'"
    unfolding cq_contents_def [of c] k ring_Suc using b(3) by simp
  then show thesis using that [OF c' inv'] stored same(1-3) outside fill k by blast
qed

section \<open>Several elements at a time\<close>

primrec elems :: "cmem \<Rightarrow> 32 word \<Rightarrow> 32 word \<Rightarrow> nat \<Rightarrow> 8 word list list" where
  "elems m buf es 0 = []"
| "elems m buf es (Suc k) = bytes m buf (unat es) # elems m (buf + es) es k"

lemma elems_area:
  assumes "unat es + k * unat es < 2 ^ 32"
  shows "area buf (unat es) \<subseteq> area buf (Suc k * unat es)"
    and "area (buf + es) (k * unat es) \<subseteq> area buf (Suc k * unat es)"
    and "area buf (unat es) \<inter> area (buf + es) (k * unat es) = {}"
  using assms area_add_word [of es "k * unat es" _ buf]
  by (auto intro!: area_mono area_sub_block)

lemma elems_cong:
  "k * unat es < 2 ^ 32 \<Longrightarrow> \<forall>x\<in>area buf (k * unat es). m' x = m x \<Longrightarrow> elems m' buf es k = elems m buf es k"
proof (induction k arbitrary: buf)
  case (Suc k)
  then have s: "unat es + k * unat es < 2 ^ 32" by simp
  have "bytes m' buf (unat es) = bytes m buf (unat es)"
    using Suc.prems(2) elems_area(1) [OF s, of buf] by (intro bytes_cong unat_le32) blast
  moreover have "elems m' (buf + es) es k = elems m (buf + es) es k"
    using Suc.prems(2) elems_area(2) [OF s, of buf] s by (intro Suc.IH) auto
  ultimately show ?case by simp
qed simp

lemma length_cq_contents [simp]: "length (cq_contents c m) = cq_fill c"
  by (simp add: cq_contents_def)

lemma put_loop_refines:
  assumes "cq_inv c" "buf \<noteq> 0" "unat buf + k * unat (elem_size c) < 2 ^ 32"
    and "area buf (k * unat (elem_size c)) \<inter> area (cq_queue c) (cq_size c) = {}"
  shows "\<exists>c' m'. put_loop k c buf m =
      (if unat (n_elems c) - cq_fill c < k then - 2 else if cq_fill c + k = unat (n_elems c) then 1 else 0, c', m') \<and>
    cq_inv c' \<and> cq_contents c' m' =
      cq_contents c m @ elems m buf (elem_size c) (min k (unat (n_elems c) - cq_fill c)) \<and>
    (\<forall>x. x \<notin> area (cq_queue c) (cq_size c) \<longrightarrow> m' x = m x)"
  using assms
proof (induction k arbitrary: c buf m)
  case 0
  then show ?case using cq_tail_eq(3) [OF 0(1)] by simp
next
  case (Suc k)
  let ?n = "unat (n_elems c)" and ?es = "unat (elem_size c)"
  note tail = cq_tail_eq [OF Suc.prems(1)]
  show ?case
  proof (cases "cq_state c = CQUEUE_FULL")
    case True
    then show ?thesis using Suc.prems(1) tail(3) by simp
  next
    case False
    have s: "?es + k * ?es < 2 ^ 32" using Suc.prems(3) by simp
    note ar = elems_area [OF s, of buf]
    have d: "area buf ?es \<inter> area (cq_queue c) (cq_size c) = {}"
        "area (buf + elem_size c) (k * ?es) \<inter> area (cq_queue c) (cq_size c) = {}"
      using Suc.prems(4) ar by auto
    obtain c1 m1 where one: "put_one c buf m = (c1, m1)" "cq_inv c1" "cq_fill c1 = Suc (cq_fill c)"
      "cq_contents c1 m1 = cq_contents c m @ [bytes m buf ?es]"
      "cq_queue c1 = cq_queue c" "elem_size c1 = elem_size c" "n_elems c1 = n_elems c"
      "\<forall>x. x \<notin> area (cq_queue c) (cq_size c) \<longrightarrow> m1 x = m x"
      by (rule put_one_refines [OF Suc.prems(1) False Suc.prems(2) d(1), of m])
    have size: "cq_size c1 = cq_size c" by (simp add: cq_size_def one)
    show ?thesis
    proof (cases "k = 0")
      case True
      then show ?thesis using one False tail size cq_tail_eq(3) [OF one(2)] by auto
    next
      case k: False
      have "unat (buf + elem_size c) = unat buf + ?es" using Suc.prems(3) by (intro unat_add_block) simp
      then have "buf + elem_size c \<noteq> 0" "unat (buf + elem_size c) + k * ?es < 2 ^ 32"
        using Suc.prems(2,3) by (auto simp: unat_eq_0)
      from Suc.IH [of c1 "buf + elem_size c" m1, unfolded one(5-7) size, OF one(2) this d(2)]
      obtain c' m' where r: "put_loop k c1 (buf + elem_size c) m1 =
          (if ?n - cq_fill c1 < k then - 2 else if cq_fill c1 + k = ?n then 1 else 0, c', m')" "cq_inv c'"
        "cq_contents c' m' = cq_contents c1 m1 @ elems m1 (buf + elem_size c) (elem_size c) (min k (?n - cq_fill c1))"
        "\<forall>x. x \<notin> area (cq_queue c) (cq_size c) \<longrightarrow> m' x = m1 x" by blast
      have f: "cq_fill c < ?n" using tail(2,3) False by linarith
      let ?k = "min k (?n - cq_fill c1)"
      have le: "?k * ?es \<le> k * ?es" by (intro mult_le_mono1) simp
      have "?k * ?es < 2 ^ 32" using le s by linarith
      moreover have "area (buf + elem_size c) (?k * ?es) \<subseteq> area (buf + elem_size c) (k * ?es)"
        by (rule area_mono [OF le])
      ultimately have "elems m1 (buf + elem_size c) (elem_size c) ?k = elems m (buf + elem_size c) (elem_size c) ?k"
        using d(2) one(8) by (intro elems_cong) auto
      moreover have "min (Suc k) (?n - cq_fill c) = Suc ?k" using f one(3) by simp
      ultimately have ct: "cq_contents c' m' = cq_contents c m @ elems m buf (elem_size c) (min (Suc k) (?n - cq_fill c))"
        using r(3) one(4) by simp
      have "put_loop (Suc k) c buf m =
          (if ?n - cq_fill c < Suc k then - 2 else if cq_fill c + Suc k = ?n then 1 else 0, c', m')"
        using r(1) one(1,3) False f by auto
      then show ?thesis using r(2,4) ct one(8) by auto
    qed
  qed
qed

lemma get_loop_refines:
  assumes "cq_inv c" and "store \<Longrightarrow> buf \<noteq> 0" "store \<Longrightarrow> unat buf + k * unat (elem_size c) < 2 ^ 32"
    and "store \<Longrightarrow> area buf (k * unat (elem_size c)) \<inter> area (cq_queue c) (cq_size c) = {}"
  shows "\<exists>c' m'. get_loop store k c buf m =
      (if cq_fill c < k then - 2 else if cq_fill c = k then 1 else 0, c', m') \<and> cq_inv c' \<and>
    cq_contents c' m' = drop k (cq_contents c m) \<and>
    (store \<longrightarrow> elems m' buf (elem_size c) (min k (cq_fill c)) = take k (cq_contents c m)) \<and>
    (\<forall>x. \<not> store \<or> x \<notin> area buf (k * unat (elem_size c)) \<longrightarrow> m' x = m x)"
  using assms
proof (induction k arbitrary: c buf m)
  case 0
  then show ?case using cq_tail_eq(4) [OF 0(1)] by auto
next
  case (Suc k)
  let ?es = "unat (elem_size c)" and ?buf = "if store then buf + elem_size c else buf"
  note tail = cq_tail_eq [OF Suc.prems(1)]
  show ?case
  proof (cases "cq_state c = CQUEUE_EMPTY")
    case True
    then have "cq_contents c m = []" using tail(4) by (metis length_cq_contents length_0_conv)
    then show ?thesis using True Suc.prems(1) tail(4) by simp
  next
    case False
    have s: "store \<Longrightarrow> ?es + k * ?es < 2 ^ 32" using Suc.prems(3) by simp
    have d: "store \<Longrightarrow> area buf ?es \<inter> area (cq_queue c) (cq_size c) = {}"
        "store \<Longrightarrow> area ?buf (k * ?es) \<inter> area (cq_queue c) (cq_size c) = {}"
      using Suc.prems(4) elems_area [OF s, of buf] by auto
    obtain c1 m1 x where one: "get_one store c buf m = (c1, m1)" "cq_inv c1" "cq_fill c = Suc (cq_fill c1)"
      "cq_contents c m = x # cq_contents c1 m1" "store \<longrightarrow> bytes m1 buf ?es = x"
      "cq_queue c1 = cq_queue c" "elem_size c1 = elem_size c" "n_elems c1 = n_elems c"
      "\<forall>a. \<not> store \<or> a \<notin> area buf ?es \<longrightarrow> m1 a = m a"
      by (rule get_one_refines [OF Suc.prems(1) False Suc.prems(2) d(1), where m = m])
    have size: "cq_size c1 = cq_size c" by (simp add: cq_size_def one)
    have b: "?buf \<noteq> 0" "unat ?buf + k * ?es < 2 ^ 32" if store
    proof -
      have "unat (buf + elem_size c) = unat buf + ?es" using Suc.prems(3) [OF that] by (intro unat_add_block) simp
      then show "?buf \<noteq> 0" "unat ?buf + k * ?es < 2 ^ 32"
        using that Suc.prems(2,3) by (auto simp: unat_eq_0)
    qed
    from Suc.IH [of c1 ?buf m1, unfolded one(6-8) size, OF one(2) b d(2)]
    obtain c' m' where r: "get_loop store k c1 ?buf m1 =
        (if cq_fill c1 < k then - 2 else if cq_fill c1 = k then 1 else 0, c', m')" "cq_inv c'"
      "cq_contents c' m' = drop k (cq_contents c1 m1)"
      "store \<longrightarrow> elems m' ?buf (elem_size c) (min k (cq_fill c1)) = take k (cq_contents c1 m1)"
      "\<forall>x. \<not> store \<or> x \<notin> area ?buf (k * ?es) \<longrightarrow> m' x = m1 x" by blast
    have "bytes m' buf ?es = x" if store
    proof -
      have "\<forall>a\<in>area buf ?es. m' a = m1 a" using r(5) elems_area(3) [OF s [OF that], of buf] that by auto
      then show ?thesis using one(5) bytes_cong [OF unat_le32, of buf "elem_size c"] that by metis
    qed
    then have el: "store \<longrightarrow> elems m' buf (elem_size c) (min (Suc k) (cq_fill c)) = take (Suc k) (cq_contents c m)"
      using r(4) one(3,4) by simp
    have fr: "m' a = m a" if "\<not> store \<or> a \<notin> area buf (Suc k * ?es)" for a
    proof (cases store)
      case True
      then have "a \<notin> area buf ?es" "a \<notin> area ?buf (k * ?es)" using that elems_area(1,2) [OF s, of buf] by auto
      then show ?thesis using one(9) r(5) by auto
    qed (use one(9) r(5) in simp)
    have "get_loop store (Suc k) c buf m =
        (if cq_fill c < Suc k then - 2 else if cq_fill c = Suc k then 1 else 0, c', m')"
      using r(1) one(1,3) False by simp
    moreover have "cq_contents c' m' = drop (Suc k) (cq_contents c m)" using r(3) one(4) by simp
    ultimately show ?thesis using r(2) el fr by blast
  qed
qed

section \<open>Results\<close>

text \<open>
  C35. The byte buffer is a queue. A read takes the bytes that were written first, as many as are asked
  for or there are, and puts them into the caller's buffer in order, also where they wrap around the
  end of the block. A write appends as many bytes as fit, as long as the unread bytes do not wrap
  around. Neither touches other memory.
\<close>

theorem circular_buffer_fifo:
  fixes b num p m
  defines "r \<equiv> min (unat num) (length (cb_contents b m))"
    and "w \<equiv> min (unat num) (unat (buf_len b) - length (cb_contents b m))"
  assumes "cb_inv b" and "p \<noteq> 0" and "unat p + unat num < 2 ^ 32"
    and "area p (unat num) \<inter> area (cb_data b) (unat (buf_len b)) = {}"
  shows "(\<exists>b' m'. circular_buffer_read b num p m = (of_nat r, b', m') \<and> cb_inv b' \<and>
      bytes m' p r = take r (cb_contents b m) \<and> cb_contents b' m' = drop r (cb_contents b m) \<and>
      (\<forall>x. x \<notin> area p r \<longrightarrow> m' x = m x)) \<and>
    (cb_off b + unat (unread_len b) \<le> unat (buf_len b) \<longrightarrow>
     (\<exists>b' m'. circular_buffer_write b num p m = (of_nat w, b', m') \<and> cb_inv b' \<and>
      cb_contents b' m' = cb_contents b m @ bytes m p w \<and>
      (\<forall>x. x \<notin> area (cb_data b) (unat (buf_len b)) \<longrightarrow> m' x = m x)))"
proof -
  have l: "length (cb_contents b m) = unat (unread_len b)" by (simp add: cb_contents_def)
  have r: "r \<le> unat num" "w \<le> unat num" by (simp_all add: r_def w_def)
  have a: "area p r \<subseteq> area p (unat num)" "area p w \<subseteq> area p (unat num)" using r by (simp_all add: area_mono)
  have rd: "unat p + r < 2 ^ 32" "area p r \<inter> area (cb_data b) (unat (buf_len b)) = {}"
    and wd: "unat p + w < 2 ^ 32" "area p w \<inter> area (cb_data b) (unat (buf_len b)) = {}"
    using assms(5,6) r a by auto
  obtain b1 m1 where "circular_buffer_read b num p m = (of_nat r, b1, m1)" "cb_inv b1"
    "bytes m1 p r = take r (cb_contents b m)" "cb_contents b1 m1 = drop r (cb_contents b m)"
    "\<forall>x. x \<notin> area p r \<longrightarrow> m1 x = m x"
    by (rule read_refines [OF assms(3,4), of num m, folded l, folded r_def, OF rd])
  moreover have "\<exists>b' m'. circular_buffer_write b num p m = (of_nat w, b', m') \<and> cb_inv b' \<and>
      cb_contents b' m' = cb_contents b m @ bytes m p w \<and>
      (\<forall>x. x \<notin> area (cb_data b) (unat (buf_len b)) \<longrightarrow> m' x = m x)"
    if fit: "cb_off b + unat (unread_len b) \<le> unat (buf_len b)"
  proof -
    obtain b2 m2 where "circular_buffer_write b num p m = (of_nat w, b2, m2)" "cb_inv b2"
      "cb_contents b2 m2 = cb_contents b m @ bytes m p w"
      "\<forall>x. x \<notin> area (cb_data b) (unat (buf_len b)) \<longrightarrow> m2 x = m x"
      by (rule write_refines [OF assms(3) fit assms(4), of num m, folded l, folded w_def, OF wd])
    then show ?thesis by blast
  qed
  ultimately show ?thesis by blast
qed

definition ex_cb :: CircularBuffer where
  "ex_cb = \<lparr>cb_data = 0x2000, cb_ptr = 0x2006, unread_len = 1, buf_len = 8\<rparr>"

theorem circular_buffer_fifo_witness:
  "cb_inv ex_cb \<and> cb_contents ex_cb ucast = [6] \<and>
   (\<exists>b' m'. circular_buffer_write ex_cb 3 0x3000 ucast = (3, b', m') \<and> cb_contents b' m' = [6, 0, 1, 2])"
proof -
  have i: "cb_inv ex_cb" by (simp add: cb_inv_def cb_off_def ex_cb_def)
  have c: "cb_contents ex_cb ucast = [6]"
    by (simp add: cb_contents_def cb_off_def ex_cb_def ring_def)
  have d: "area 0x3000 (unat (3 :: 32 word)) \<inter> area (cb_data ex_cb) (unat (buf_len ex_cb)) = {}"
    by (auto simp: area_unat ex_cb_def)
  have "bytes ucast 0x3000 3 = [0, 1, 2]" by (simp add: numeral_3_eq_3)
  then show ?thesis
    using circular_buffer_fifo [OF i _ _ d, of ucast] i c by (simp add: cb_off_def ex_cb_def) blast
qed

text \<open>
  C36. The queue of elements is a queue: putting appends the elements of the buffer until the queue is
  full, and getting takes the oldest elements until it is empty, storing them in order. The result
  tells whether the queue is full or empty afterwards, or that it was so before all elements were
  done.
\<close>

theorem cqueue_fifo:
  fixes c k p m
  defines "n \<equiv> unat (n_elems c)" and "l \<equiv> length (cq_contents c m)" and "es \<equiv> unat (elem_size c)"
  assumes "cq_inv c" and "p \<noteq> 0" and "unat p + unat k * es < 2 ^ 32"
    and "area p (unat k * es) \<inter> area (cq_queue c) (cq_size c) = {}"
  shows "(\<exists>c' m'. cqueue_put (Some c) p k m =
        (if n - l < unat k then - 2 else if l + unat k = n then 1 else 0, Some c', m') \<and> cq_inv c' \<and>
      cq_contents c' m' = cq_contents c m @ elems m p (elem_size c) (min (unat k) (n - l)) \<and>
      (\<forall>x. x \<notin> area (cq_queue c) (cq_size c) \<longrightarrow> m' x = m x)) \<and>
    (\<exists>c' m'. cqueue_get (Some c) p k m =
        (if l < unat k then - 2 else if l = unat k then 1 else 0, Some c', m') \<and> cq_inv c' \<and>
      cq_contents c' m' = drop (unat k) (cq_contents c m) \<and>
      elems m' p (elem_size c) (min (unat k) l) = take (unat k) (cq_contents c m) \<and>
      (\<forall>x. x \<notin> area p (unat k * es) \<longrightarrow> m' x = m x))"
proof -
  note put = put_loop_refines [OF assms(4,5), of "unat k" m, folded es_def n_def, OF assms(6,7)]
  note get = get_loop_refines [OF assms(4), of True p "unat k" m, folded es_def, OF assms(5-7)]
  have l: "l = cq_fill c" by (simp add: l_def)
  show ?thesis
    unfolding l using put get assms(5) by (auto simp: cqueue_put_def cqueue_get_def)
qed

definition ex_cq :: CQueue where
  "ex_cq = \<lparr>cq_queue = 0x2000, elem_size = 2, n_elems = 2, cq_head = 1, cq_tail = 0, cq_state = CQUEUE_PARTIAL\<rparr>"

theorem cqueue_fifo_witness:
  "cq_inv ex_cq \<and> cq_contents ex_cq ucast = [[2, 3]] \<and>
   (\<exists>c' m'. cqueue_put (Some ex_cq) 0x3000 2 ucast = (- 2, Some c', m') \<and>
      cq_contents c' m' = [[2, 3], [0, 1]])"
proof -
  have two: "bytes m a 2 = [m a, m (a + 1)]" for m a by (simp add: numeral_2_eq_2)
  have i: "cq_inv ex_cq" by (simp add: cq_inv_def cq_size_def ex_cq_def)
  have c: "cq_contents ex_cq ucast = [[2, 3]]"
    by (simp add: cq_contents_def cq_fill_def cq_elem_def elem_at_def ex_cq_def ring_def two)
  have d: "area 0x3000 (unat (2 :: 32 word) * unat (elem_size ex_cq)) \<inter> area (cq_queue ex_cq) (cq_size ex_cq) = {}"
    by (auto simp: area_unat ex_cq_def cq_size_def)
  have "elems ucast 0x3000 2 (Suc 0) = [[0, 1]]" by (simp add: two)
  then show ?thesis
    using cqueue_fifo [OF i _ _ d, of ucast] i c by (simp add: ex_cq_def cq_fill_def) blast
qed

end
