(* ===== verification/Libc_Time.thy ===== *)
theory Libc_Time
  imports Prelude "HOL-Library.Monad_Syntax"
begin

text \<open>
  Calendar time in the C library (\<^verbatim>\<open>lib/libc/time\<close>, \<^verbatim>\<open>include/time.h\<close>): the conversion of a number of
  seconds into a date (\<^verbatim>\<open>gmtime\<close>) and back (\<^verbatim>\<open>mktime\<close>). A \<^verbatim>\<open>time_t\<close> is an unsigned number of 64 bits;
  the fields of a date are of type \<^verbatim>\<open>int\<close>, and \<open>None\<close> is an overflow of that type, which C leaves
  undefined.
\<close>

section \<open>Dates\<close>

definition isleap :: "int \<Rightarrow> bool" where
  "isleap year = (year mod 4 = 0 \<and> year mod 100 \<noteq> 0 \<or> year mod 400 = 0)"

record tm =
  tm_sec :: int
  tm_min :: int
  tm_hour :: int
  tm_mday :: int
  tm_mon :: int
  tm_year :: int
  tm_wday :: int
  tm_yday :: int
  tm_isdst :: int

definition c_int :: "int \<Rightarrow> int option" where
  "c_int x = (if - (2 ^ 31) \<le> x \<and> x < 2 ^ 31 then Some x else None)"

text \<open>The conversion of a \<^verbatim>\<open>time_t\<close> to \<^verbatim>\<open>int\<close>.\<close>

abbreviation int_of :: "64 word \<Rightarrow> int" where
  "int_of t \<equiv> sint (ucast t :: 32 word)"

definition month_days :: "int list" where
  "month_days = [31, 28, 31, 30, 31, 30, 31, 31, 30, 31, 30, 31]"

definition year_days :: "int \<Rightarrow> int" where
  "year_days year = (if isleap year then 366 else 365)"

section \<open>gmtime\<close>

function gm_years :: "64 word \<Rightarrow> int \<Rightarrow> int \<Rightarrow> (64 word \<times> int \<times> int) option" where
  "gm_years t year wday = do {
     y \<leftarrow> c_int (1900 + year);
     if word_of_int (year_days y) \<le> t then do {
       year' \<leftarrow> c_int (year + 1);
       gm_years (t - word_of_int (year_days y)) year' ((wday + year_days y) mod 7) }
     else Some (t, year, wday) }"
  by pat_completeness auto

lemma unat_sub_less: "0 < c \<Longrightarrow> c \<le> t \<Longrightarrow> unat (t - c) < unat t" for t c :: "'a::len word"
  by (simp add: unat_sub word_le_nat_alt word_less_nat_alt)

termination gm_years
  by (relation "measure (\<lambda>(t, year, wday). unat t)") (auto simp: year_days_def intro!: unat_sub_less)

definition feb_29 :: "nat \<Rightarrow> int \<Rightarrow> int" where
  "feb_29 i year = (if i = 1 \<and> isleap (1900 + year) then 1 else 0)"

function gm_months :: "nat \<Rightarrow> 64 word \<Rightarrow> tm \<Rightarrow> tm" where
  "gm_months i t ts =
     (if i < 12 then
        if t < word_of_int (month_days ! i + feb_29 i (tm_year ts)) then
          ts\<lparr>tm_wday := (tm_wday ts + int_of t) mod 7, tm_mday := 1 + int_of t\<rparr>
        else gm_months (i + 1) (t - word_of_int (month_days ! i + feb_29 i (tm_year ts)))
               (ts\<lparr>tm_wday := (tm_wday ts + feb_29 i (tm_year ts)) mod 7,
                   tm_mday := 1 + feb_29 i (tm_year ts), tm_mon := tm_mon ts + 1\<rparr>)
      else ts)"
  by pat_completeness auto

termination gm_months
  by (relation "measure (\<lambda>(i, t, ts). 12 - i)") auto

definition EFAULT :: int where "EFAULT = 21"

text \<open>
  \<^verbatim>\<open>ts\<close> is the static structure \<^verbatim>\<open>__timestruct\<close>. A left value is the error number of a call that
  returns a null pointer, and a right value the structure that the returned pointer refers to.
\<close>

definition gmtime :: "64 word option \<Rightarrow> tm \<Rightarrow> (int + tm) option" where
  "gmtime timer ts =
     (case timer of
        None \<Rightarrow> Some (Inl EFAULT)
      | Some t \<Rightarrow>
          let ts = ts\<lparr>tm_isdst := 0, tm_year := 70, tm_sec := int_of (t mod 60)\<rparr>;
              t = t div 60;
              ts = ts\<lparr>tm_min := int_of (t mod 60)\<rparr>;
              t = t div 60;
              ts = ts\<lparr>tm_hour := int_of (t mod 24)\<rparr>;
              t = t div 24;
              ts = ts\<lparr>tm_yday := 0, tm_mon := 0, tm_wday := 4\<rparr>
          in do {
            (t, year, wday) \<leftarrow> gm_years t (tm_year ts) (tm_wday ts);
            let ts = ts\<lparr>tm_year := year, tm_wday := wday, tm_yday := int_of t\<rparr>;
            Some (Inr (gm_months 0 t ts)) })"

section \<open>mktime\<close>

function mk_years :: "int \<Rightarrow> int \<Rightarrow> 64 word \<Rightarrow> 64 word" where
  "mk_years i year t =
     (if i < year then mk_years (i + 1) year (t + word_of_int (year_days i * 60 * 60 * 24)) else t)"
  by pat_completeness auto

termination mk_years
  by (relation "measure (\<lambda>(i, year, t). nat (year - i))") auto

definition mktime :: "tm option \<Rightarrow> 64 word option" where
  "mktime timestruct =
     (case timestruct of
        None \<Rightarrow> Some 0
      | Some ts \<Rightarrow> do {
          m \<leftarrow> c_int (tm_min ts * 60);
          h \<leftarrow> c_int (tm_hour ts * 60 * 60);
          d \<leftarrow> c_int (tm_yday ts * 60 * 60 * 24);
          Some (mk_years 1970 (tm_year ts)
                 (word_of_int (tm_sec ts) + word_of_int m + word_of_int h + word_of_int d)) })"

declare gm_years.simps [simp del] gm_months.simps [simp del] mk_years.simps [simp del]

section \<open>The calendar\<close>

text \<open>
  The Gregorian calendar, on its own terms: which years are leap years, and how long years and
  months are. A month is counted from 0 and its year from 1900, as in \<^verbatim>\<open>struct tm\<close>.
\<close>

definition leap_year :: "int \<Rightarrow> bool" where
  "leap_year y \<longleftrightarrow> 4 dvd y \<and> (100 dvd y \<longrightarrow> 400 dvd y)"

definition year_len :: "int \<Rightarrow> int" where
  "year_len y = 365 + of_bool (leap_year y)"

definition month_len :: "int \<Rightarrow> nat \<Rightarrow> int" where
  "month_len year m =
     (if m = 1 then 28 + of_bool (leap_year (1900 + year)) else if m \<in> {3, 5, 8, 10} then 30 else 31)"

definition days_to :: "int \<Rightarrow> int" where
  "days_to y = (\<Sum>k\<in>{1970..<y}. year_len k)"

definition days_before :: "int \<Rightarrow> nat \<Rightarrow> int" where
  "days_before year m = (\<Sum>i<m. month_len year i)"

text \<open>The tables and the test of the code agree with it.\<close>

lemma isleap_leap_year: "isleap y = leap_year y"
  unfolding isleap_def leap_year_def by presburger

lemma year_days_len: "year_days y = year_len y"
  by (simp add: year_days_def year_len_def isleap_leap_year)

lemma feb_29_leap: "feb_29 1 year = of_bool (leap_year (1900 + year))"
  by (simp add: feb_29_def isleap_leap_year)

lemma month_len_code:
  assumes "i < 12"
  shows "month_days ! i + feb_29 i year = month_len year i"
proof -
  have "i \<in> {0, 1, 2, 3, 4, 5, 6, 7, 8, 9, 10, 11}" using assms unfolding insert_iff empty_iff by presburger
  then show ?thesis by (elim insertE) (simp_all add: month_days_def month_len_def feb_29_def isleap_leap_year)
qed

lemma year_days_bounds: "365 \<le> year_days y" "year_days y \<le> 366"
  by (auto simp: year_days_def)

lemma days_to_Suc: "1970 \<le> y \<Longrightarrow> days_to (y + 1) = days_to y + year_days y"
proof -
  assume "1970 \<le> y"
  then have "{1970..<y + 1} = insert y {1970..<y}" by auto
  then show ?thesis by (simp add: days_to_def year_days_len)
qed

section \<open>gmtime computes the date\<close>

lemma uint_diff_small:
  fixes t :: "64 word"
  assumes "word_of_int c \<le> t" "0 \<le> c" "c < 2 ^ 31"
  shows "uint (t - word_of_int c) = uint t - c"
  using assms by (simp add: uint_sub_if' word_le_def take_bit_int_eq_self unsigned_of_int)

lemma c_int_Some [simp]: "- (2 ^ 31) \<le> x \<Longrightarrow> x < 2 ^ 31 \<Longrightarrow> c_int x = Some x"
  by (simp add: c_int_def)

lemma word_of_int_le_iff: "word_of_int c \<le> t \<longleftrightarrow> c \<le> uint t" if "0 \<le> c" "c < 2 ^ 31" for t :: "64 word"
  using that by (simp add: word_le_def unsigned_of_int take_bit_int_eq_self)

lemma mod_add_shift: "a + b = c \<Longrightarrow> (a mod n + b) mod n = c mod (n :: int)"
  by (auto simp: mod_add_left_eq)

lemma mod_add_out: "(x mod n + e + d - 1) mod n = (x + e + d - 1) mod (n :: int)"
  using mod_add_shift [of x "e + d - 1" "x + e + d - 1" n] by (simp add: add.assoc add_diff_eq)

lemma gm_years_result:
  assumes "70 \<le> year" and "uint t < 365 * (2 ^ 31 - 1900 - year)" and "0 \<le> wday" and "wday < 7"
  shows "\<exists>t' year' wday'. gm_years t year wday = Some (t', year', wday') \<and> year \<le> year' \<and>
           year' < 2 ^ 31 - 1900 \<and>
           uint t' < year_days (1900 + year') \<and>
           uint t' + days_to (1900 + year') = uint t + days_to (1900 + year) \<and>
           wday' = (wday + (uint t - uint t')) mod 7"
  using assms
proof (induction t year wday rule: gm_years.induct)
  case (1 t year wday)
  let ?y = "1900 + year" and ?d = "year_days (1900 + year)"
  have yb: "year < 2 ^ 31 - 1900" 
  proof -
    have "0 < 365 * (2 ^ 31 - 1900 - year)" by (rule le_less_trans [OF uint_ge_0 1(3)])
    then show ?thesis by simp
  qed
  have y: "c_int ?y = Some ?y" "c_int (year + 1) = Some (year + 1)"
    using 1(2) yb by (auto intro!: c_int_Some)
  have d: "365 \<le> ?d" "?d \<le> 366" "?d < 2 ^ 31" by (simp_all add: year_days_def)
  show ?case
  proof (cases "word_of_int ?d \<le> t")
    case True
    let ?t = "t - word_of_int ?d"
    have t: "uint ?t = uint t - ?d" using True d by (intro uint_diff_small) auto
    have le: "uint ?t < 365 * (2 ^ 31 - 1900 - (year + 1))" using t d 1(3) by simp
    obtain t' year' wday' where r:
      "gm_years ?t (year + 1) ((wday + ?d) mod 7) = Some (t', year', wday')"
      "year + 1 \<le> year'" "year' < 2 ^ 31 - 1900" "uint t' < year_days (1900 + year')"
      "uint t' + days_to (1900 + year') = uint ?t + days_to (1900 + (year + 1))"
      "wday' = ((wday + ?d) mod 7 + (uint ?t - uint t')) mod 7"
      using 1(1) [OF y(1) True y(2) _ le] 1(2) by auto
    have "days_to (1900 + (year + 1)) = days_to ?y + ?d"
      using days_to_Suc [of ?y] 1(2) by (simp add: algebra_simps)
    moreover have "gm_years t year wday = Some (t', year', wday')"
      using r(1) True by (subst gm_years.simps) (simp add: y)
    moreover have "wday' = (wday + (uint t - uint t')) mod 7"
      unfolding r(6) t by (rule mod_add_shift) simp
    ultimately show ?thesis using r t by auto
  next
    case False
    then have "gm_years t year wday = Some (t, year, wday)"
      by (subst gm_years.simps) (simp add: y)
    moreover have "uint t < ?d" using False word_of_int_le_iff [of ?d t] d by auto
    ultimately show ?thesis using 1(4,5) yb by auto
  qed
qed

lemma int_of_small: "uint t < 2 ^ 31 \<Longrightarrow> int_of t = uint t"
  by (simp add: sint_uint unsigned_ucast_eq take_bit_int_eq_self)
    (rule signed_take_bit_int_eq_self, simp_all add: order_trans [OF _ uint_ge_0])

text \<open>The days of the months from a given one on: the months of a year make up its days.\<close>

lemma days_before_Suc: "days_before year (Suc i) = days_before year i + month_len year i"
  by (simp add: days_before_def)

lemma month_len_bounds: "28 \<le> month_len year i" "month_len year i \<le> 31"
  by (auto simp: month_len_def)

lemma days_before_year: "days_before year 12 = year_days (1900 + year)"
  by (simp add: days_before_def month_len_def year_days_len year_len_def eval_nat_numeral)

lemma gm_months_result:
  assumes "i < 12" and "tm_mon ts = int i" and "tm_year ts = year"
    and "uint t + days_before year i < year_days (1900 + year)"
    and "0 \<le> tm_wday ts" "tm_wday ts < 7"
  shows "\<exists>m d. gm_months i t ts =
             ts\<lparr>tm_mon := int m, tm_mday := d,
                tm_wday := (tm_wday ts + (if i \<le> 1 \<and> 1 < m then feb_29 1 year else 0) + d - 1) mod 7\<rparr> \<and>
           i \<le> m \<and> m < 12 \<and> 1 \<le> d \<and> d \<le> month_len year m \<and>
           uint t + days_before year i = days_before year m + d - 1"
  using assms
proof (induction "12 - i" arbitrary: i t ts rule: less_induct)
  case less
  let ?d = "month_len year i"
  have d: "28 \<le> ?d" "?d \<le> 31" "?d < 2 ^ 31" using month_len_bounds [of year i] by auto
  note gm = gm_months.simps [of i t ts, unfolded less(4) month_len_code [OF less(2)]]
  show ?case
  proof (cases "word_of_int ?d \<le> t")
    case False
    then have t: "uint t < ?d" using word_of_int_le_iff [of ?d t] d by auto
    then have "int_of t = uint t" using d by (intro int_of_small) simp
    then have "gm_months i t ts =
        ts\<lparr>tm_wday := (tm_wday ts + uint t) mod 7, tm_mday := 1 + uint t\<rparr>"
      using less(2) False gm by (simp add: not_le)
    then show ?thesis using t less(2,3) uint_ge_0 [of t]
      by (intro exI [of _ i] exI [of _ "1 + uint t"]) auto
  next
    case True
    let ?t = "t - word_of_int ?d"
    let ?ts = "ts\<lparr>tm_wday := (tm_wday ts + feb_29 i year) mod 7, tm_mday := 1 + feb_29 i year,
                   tm_mon := tm_mon ts + 1\<rparr>"
    have t: "uint ?t = uint t - ?d" using True d by (intro uint_diff_small) auto
    have le: "uint ?t + days_before year (Suc i) < year_days (1900 + year)"
      using less(5) t by (simp add: days_before_Suc)
    have i: "Suc i < 12"
    proof (rule ccontr)
      assume "\<not> Suc i < 12"
      then have "Suc i = 12" using less(2) by simp
      then show False using le days_before_year [of year] uint_ge_0 [of ?t] by simp
    qed
    have p: "12 - Suc i < 12 - i" "tm_mon ?ts = int (Suc i)" "tm_year ?ts = year"
        "0 \<le> tm_wday ?ts" "tm_wday ?ts < 7"
      using less(2-4) by auto
    have "gm_months i t ts = gm_months (Suc i) ?t ?ts"
      using less(2,4) True gm by (simp add: not_le)
    moreover obtain m d where r: "gm_months (Suc i) ?t ?ts =
             ?ts\<lparr>tm_mon := int m, tm_mday := d,
                tm_wday := (tm_wday ?ts + (if Suc i \<le> 1 \<and> 1 < m then feb_29 1 year else 0) + d - 1) mod 7\<rparr>"
           "Suc i \<le> m" "m < 12" "1 \<le> d" "d \<le> month_len year m"
           "uint ?t + days_before year (Suc i) = days_before year m + d - 1"
      using less(1) [OF p(1) i p(2,3) le p(4,5)] by blast
    moreover have "(tm_wday ?ts + (if Suc i \<le> 1 \<and> 1 < m then feb_29 1 year else 0) + d - 1) mod 7 =
        (tm_wday ts + (if i \<le> 1 \<and> 1 < m then feb_29 1 year else 0) + d - 1) mod 7"
    proof -
      define a b where ab_def: "a = (if Suc i \<le> 1 \<and> 1 < m then feb_29 1 year else 0)"
        "b = (if i \<le> 1 \<and> 1 < m then feb_29 1 year else 0)"
      have "b = feb_29 i year + a" using r(2) by (auto simp: ab_def feb_29_def)
      then show ?thesis unfolding ab_def [symmetric] by (simp add: mod_add_out) (simp add: add.assoc)
    qed
    ultimately show ?thesis using t
      by (intro exI [of _ m] exI [of _ d]) (simp add: days_before_Suc)
  qed
qed

lemma seconds_split:
  "u = u mod 60 + 60 * (u div 60 mod 60 + 60 * (u div 60 div 60 mod 24 + 24 * (u div 60 div 60 div 24)))"
  for u :: int
  by presburger

lemma int_of_mod: "0 < c \<Longrightarrow> c < 2 ^ 31 \<Longrightarrow> int_of (t mod word_of_int c) = uint t mod c"
proof -
  assume c: "0 < c" "c < 2 ^ 31"
  have "uint (word_of_int c :: 64 word) = c"
    using c by (simp add: unsigned_of_int take_bit_int_eq_self)
  then have "uint (t mod word_of_int c) = uint t mod c" by (simp add: uint_mod_distrib)
  moreover have "uint t mod c < 2 ^ 31" using pos_mod_bound [of c "uint t"] c by linarith
  ultimately show ?thesis by (simp add: int_of_small)
qed

lemma days_to_1970: "days_to 1970 = 0"
  by (simp add: days_to_def)

text \<open>
  The date of a number of seconds, with \<open>m\<close> the month. The day of the week is the one that \<^verbatim>\<open>gmtime\<close>
  computes.
\<close>

definition calendar_date :: "int \<Rightarrow> tm \<Rightarrow> nat \<Rightarrow> bool" where
  "calendar_date u d m \<longleftrightarrow>
      0 \<le> tm_sec d \<and> tm_sec d < 60 \<and> 0 \<le> tm_min d \<and> tm_min d < 60 \<and>
      0 \<le> tm_hour d \<and> tm_hour d < 24 \<and> 70 \<le> tm_year d \<and> tm_isdst d = 0 \<and>
      u = tm_sec d + 60 * (tm_min d + 60 * (tm_hour d + 24 * (tm_yday d + days_to (1900 + tm_year d)))) \<and>
      tm_mon d = int m \<and> m < 12 \<and> 1 \<le> tm_mday d \<and> tm_mday d \<le> month_len (tm_year d) m \<and>
      tm_yday d = days_before (tm_year d) m + tm_mday d - 1 \<and>
      tm_wday d = (4 + days_to (1900 + tm_year d) + of_bool (1 < m \<and> leap_year (1900 + tm_year d)) +
                   tm_mday d - 1) mod 7"

lemma gmtime_date:
  assumes "t < 2 ^ 55"
  shows "\<exists>d m. gmtime (Some t) ts = Some (Inr d) \<and> calendar_date (uint t) d m"
proof -
  let ?t = "t div 60 div 60 div 24"
  have ut: "uint ?t = uint t div 60 div 60 div 24" by (simp add: uint_div_distrib)
  have "uint t < 2 ^ 55" using assms by (simp add: word_less_def)
  then have small: "uint ?t < 365 * (2 ^ 31 - 1900 - 70)" unfolding ut by simp
  obtain t' year wday where y: "gm_years ?t 70 4 = Some (t', year, wday)" "70 \<le> year"
      "uint t' < year_days (1900 + year)" "uint t' + days_to (1900 + year) = uint ?t"
      "wday = (4 + (uint ?t - uint t')) mod 7"
    using gm_years_result [OF _ small, of 4] by (auto simp: days_to_1970)
  have t': "int_of t' = uint t'"
    using y(3) year_days_bounds(2) [of "1900 + year"] by (intro int_of_small) simp
  have w: "wday = (4 + days_to (1900 + year)) mod 7" unfolding y(5) y(4) [symmetric] by simp
  define ts' where "ts' = ts\<lparr>tm_isdst := 0, tm_sec := uint t mod 60, tm_min := uint t div 60 mod 60,
      tm_hour := uint t div 60 div 60 mod 24, tm_mon := 0, tm_year := year, tm_wday := wday,
      tm_yday := uint t'\<rparr>"
  let ?d = "gm_months 0 t' ts'"
  have i: "int_of (t mod 60) = uint t mod 60" "int_of (t div 60 mod 60) = uint t div 60 mod 60"
      "int_of (t div 60 div 60 mod 24) = uint t div 60 div 60 mod 24"
    using int_of_mod [of 60 t] int_of_mod [of 60 "t div 60"] int_of_mod [of 24 "t div 60 div 60"]
    by (simp_all add: uint_div_distrib)
  have gm: "gmtime (Some t) ts = Some (Inr ?d)"
    unfolding gmtime_def Let_def ts'_def by (simp add: y(1) t' i)
  have ts': "tm_mon ts' = int 0" "tm_year ts' = year" "tm_wday ts' = wday" by (simp_all add: ts'_def)
  have p: "uint t' + days_before year 0 < year_days (1900 + year)" "0 \<le> tm_wday ts'" "tm_wday ts' < 7"
    using y(3) by (simp_all add: ts' days_before_def w)
  obtain m d where m: "?d = ts'\<lparr>tm_mon := int m, tm_mday := d,
      tm_wday := (wday + (if 1 < m then feb_29 1 year else 0) + d - 1) mod 7\<rparr>"
      "m < 12" "1 \<le> d" "d \<le> month_len year m" "uint t' = days_before year m + d - 1"
    using gm_months_result [OF zero_less_numeral ts'(1,2) p, unfolded ts'(3)] by (auto simp: days_before_def)
  have "(if 1 < m then feb_29 1 year else 0) = of_bool (1 < m \<and> leap_year (1900 + year))"
    unfolding feb_29_leap by simp
  then have wd: "(wday + (if 1 < m then feb_29 1 year else 0) + d - 1) mod 7 =
      (4 + days_to (1900 + year) + of_bool (1 < m \<and> leap_year (1900 + year)) + d - 1) mod 7"
    unfolding w by (simp only: mod_add_out)
  have secs: "uint t = uint t mod 60 + 60 * (uint t div 60 mod 60 +
      60 * (uint t div 60 div 60 mod 24 + 24 * (uint t' + days_to (1900 + year))))"
    unfolding y(4) ut by (rule seconds_split)
  have f: "tm_sec ?d = uint t mod 60" "tm_min ?d = uint t div 60 mod 60"
      "tm_hour ?d = uint t div 60 div 60 mod 24" "tm_year ?d = year" "tm_isdst ?d = 0"
      "tm_yday ?d = uint t'" "tm_mon ?d = int m" "tm_mday ?d = d"
      "tm_wday ?d = (wday + (if 1 < m then feb_29 1 year else 0) + d - 1) mod 7"
    unfolding m(1) by (simp_all add: ts'_def)
  show ?thesis
    unfolding calendar_date_def
    by (intro exI [of _ ?d] exI [of _ m] conjI; (unfold f)?; (rule gm secs wd m y(2) | simp))
qed

text \<open>
  C37. \<^verbatim>\<open>gmtime\<close> computes the date of a time: for every number of seconds below \<open>2 ^ 55\<close> the call
  returns, each field is within its range, and the seconds, minutes, hours and days of the year
  after the years since 1970 add up to the time. The month and the day of the month are those of
  the day of the year. Leap years and the lengths of years and months are those of the Gregorian
  calendar, defined apart from the tables of the code. The day of the week is not right: it counts
  from Thursday for the years and the days of the month, but of the months that have passed it
  only counts the leap day.
\<close>

theorem gmtime_is_calendar:
  assumes "t < 2 ^ 55"
  shows "\<exists>d m. gmtime (Some t) ts = Some (Inr d) \<and>
      0 \<le> tm_sec d \<and> tm_sec d < 60 \<and> 0 \<le> tm_min d \<and> tm_min d < 60 \<and>
      0 \<le> tm_hour d \<and> tm_hour d < 24 \<and> 70 \<le> tm_year d \<and> tm_isdst d = 0 \<and>
      uint t = tm_sec d + 60 * (tm_min d + 60 * (tm_hour d + 24 * (tm_yday d + days_to (1900 + tm_year d)))) \<and>
      tm_mon d = int m \<and> m < 12 \<and> 1 \<le> tm_mday d \<and> tm_mday d \<le> month_len (tm_year d) m \<and>
      tm_yday d = days_before (tm_year d) m + tm_mday d - 1 \<and>
      tm_wday d = (4 + days_to (1900 + tm_year d) + of_bool (1 < m \<and> leap_year (1900 + tm_year d)) +
                   tm_mday d - 1) mod 7"
  using gmtime_date [OF assms] unfolding calendar_date_def .

definition no_tm :: tm where
  "no_tm = \<lparr>tm_sec = 0, tm_min = 0, tm_hour = 0, tm_mday = 0, tm_mon = 0, tm_year = 0, tm_wday = 0,
             tm_yday = 0, tm_isdst = 0\<rparr>"

theorem gmtime_is_calendar_witness:
  "(951782400 :: 64 word) < 2 ^ 55 \<and>
   (\<exists>d m. gmtime (Some 951782400) no_tm = Some (Inr d) \<and> tm_mon d = int m \<and> m < 12 \<and>
      tm_yday d = days_before (tm_year d) m + tm_mday d - 1 \<and>
      951782400 = tm_sec d + 60 * (tm_min d + 60 * (tm_hour d + 24 * (tm_yday d + days_to (1900 + tm_year d)))))"
proof -
  have "(951782400 :: 64 word) < 2 ^ 55" by simp
  then show ?thesis using gmtime_is_calendar [of 951782400 no_tm] by auto
qed

text \<open>
  The first of February 1970 was a Sunday; \<^verbatim>\<open>gmtime\<close> makes it a Thursday, as the first of January.
\<close>

lemma gmtime_weekday_wrong:
  "\<exists>d. gmtime (Some (31 * 86400)) no_tm = Some (Inr d) \<and> tm_year d = 70 \<and> tm_mon d = 1 \<and>
       tm_mday d = 1 \<and> tm_wday d = 4"
  by (rule exI [of _ "\<lparr>tm_sec = 0, tm_min = 0, tm_hour = 0, tm_mday = 1, tm_mon = 1, tm_year = 70,
                       tm_wday = 4, tm_yday = 31, tm_isdst = 0\<rparr>"], code_simp)

section \<open>mktime\<close>

text \<open>
  \<^verbatim>\<open>mktime\<close> compares the years since 1900 with 1970: for the dates before the year 3870 it forgets
  the year, and the way back from a date only gives the time within the year.
\<close>

lemma mktime_forgets_year:
  assumes "tm_year d \<le> 1970"
    and "0 \<le> tm_sec d" "tm_sec d < 60" "0 \<le> tm_min d" "tm_min d < 60" "0 \<le> tm_hour d" "tm_hour d < 24"
    and "0 \<le> tm_yday d" "tm_yday d < 366"
  shows "mktime (Some d) =
    Some (word_of_int (tm_sec d + 60 * (tm_min d + 60 * (tm_hour d + 24 * tm_yday d))))"
  using assms by (simp add: mktime_def mk_years.simps [of 1970] distrib_left flip: of_int_add of_int_mult)
    (simp add: mult.commute add.assoc)

end
