(* ===== verification/Rtc.thy ===== *)
theory Rtc
  imports Libc_Time
begin

text \<open>
  The clock server (\<^verbatim>\<open>servers/rtc_server/main.c\<close>): it reads the date from the registers of the
  real-time clock and converts it to the seconds since 1970. The clock is hardware: \<open>rd k reg\<close> is what
  the \<open>k\<close>-th read of the data port returns when the register \<open>reg\<close> is selected. \<open>None\<close> is an index
  outside the table of months or a clock that never finishes its update.
\<close>

section \<open>The registers of the clock\<close>

abbreviation RTC_SECOND :: "8 word" where "RTC_SECOND \<equiv> 0x00"
abbreviation RTC_MINUTE :: "8 word" where "RTC_MINUTE \<equiv> 0x02"
abbreviation RTC_HOUR :: "8 word" where "RTC_HOUR \<equiv> 0x04"
abbreviation RTC_DAY :: "8 word" where "RTC_DAY \<equiv> 0x07"
abbreviation RTC_MONTH :: "8 word" where "RTC_MONTH \<equiv> 0x08"
abbreviation RTC_YEAR :: "8 word" where "RTC_YEAR \<equiv> 0x09"
abbreviation RTC_STATUS_A :: "8 word" where "RTC_STATUS_A \<equiv> 0x0a"
abbreviation RTC_A_UPDATING :: "8 word" where "RTC_A_UPDATING \<equiv> 0x80"
abbreviation RTC_STATUS_B :: "8 word" where "RTC_STATUS_B \<equiv> 0x0b"
abbreviation RTC_24_HR :: "8 word" where "RTC_24_HR \<equiv> 0x02"
abbreviation RTC_BINARY :: "8 word" where "RTC_BINARY \<equiv> 0x04"

section \<open>Conversion\<close>

definition isLeap :: "32 word \<Rightarrow> bool" where
  "isLeap year = (year mod 4 = 0 \<and> year mod 100 \<noteq> 0 \<or> year mod 400 = 0)"

definition bcd2bin :: "32 word \<Rightarrow> 32 word" where
  "bcd2bin num = (num AND 0x0F) + 10 * drop_bit 4 (num AND 0xF0) + 100 * drop_bit 8 (num AND 0xF00) +
     1000 * drop_bit 12 (num AND 0xF000)"

definition monthDays :: "32 word list" where
  "monthDays = [31, 28, 31, 30, 31, 30, 31, 31, 30, 31, 30, 31]"

function add_months :: "nat \<Rightarrow> nat \<Rightarrow> 32 word \<Rightarrow> 32 word option" where
  "add_months i month elapsed =
     (if i < month then
        if i < length monthDays then add_months (i + 1) month (elapsed + monthDays ! i * 24 * 60 * 60)
        else None
      else Some elapsed)"
  by pat_completeness auto

termination add_months
  by (relation "measure (\<lambda>(i, month, elapsed). month - i)") auto

function add_leap_days :: "nat \<Rightarrow> nat \<Rightarrow> 32 word \<Rightarrow> 32 word" where
  "add_leap_days i year elapsed =
     (if i < year then
        add_leap_days (i + 1) year (if isLeap (of_nat i) then elapsed + 60 * 60 * 24 else elapsed)
      else elapsed)"
  by pat_completeness auto

termination add_leap_days
  by (relation "measure (\<lambda>(i, year, elapsed). year - i)") auto

definition getTimeInSecs ::
    "32 word \<Rightarrow> 32 word \<Rightarrow> 32 word \<Rightarrow> 32 word \<Rightarrow> 32 word \<Rightarrow> 32 word \<Rightarrow> 32 word option" where
  "getTimeInSecs year month day hour minute second = (
     let year = year + 2000;
         elapsed = second + 60 * (minute + 60 * (hour + 24 * (day + 365 * (year - 1970))))
     in do {
       elapsed \<leftarrow> add_months 0 (unat month) elapsed;
       let elapsed = (if isLeap year \<and> 1 < month then elapsed + 24 * 60 * 60 else elapsed);
       Some (add_leap_days 1970 (unat year) elapsed) })"

declare add_months.simps [simp del] add_leap_days.simps [simp del]

section \<open>Reading the clock\<close>

definition isUpdateInProgress :: "(nat \<Rightarrow> 8 word \<Rightarrow> 8 word) \<Rightarrow> nat \<Rightarrow> bool" where
  "isUpdateInProgress rd k = (rd k RTC_STATUS_A AND RTC_A_UPDATING \<noteq> 0)"

partial_function (option) wait_update :: "(nat \<Rightarrow> 8 word \<Rightarrow> 8 word) \<Rightarrow> nat \<Rightarrow> nat option" where
  "wait_update rd k = (if isUpdateInProgress rd k then wait_update rd (k + 1) else Some (k + 1))"

definition rtc_field :: "bool \<Rightarrow> 8 word \<Rightarrow> 32 word" where
  "rtc_field bcd b = (if bcd then bcd2bin (ucast b) else ucast b)"

definition hour_of :: "bool \<Rightarrow> 32 word \<Rightarrow> 32 word" where
  "hour_of is_24hr hour =
     (if \<not> is_24hr then
        let hour = hour - 1
        in if hour AND 0x80 \<noteq> 0 then 12 + (hour AND 0x7F) else hour AND 0x7F
      else hour)"

text \<open>
  The result is the returned time, which is also the new value of \<^verbatim>\<open>currentTime\<close>, and the number of
  reads so far.
\<close>

definition getTime :: "(nat \<Rightarrow> 8 word \<Rightarrow> 8 word) \<Rightarrow> 32 word \<Rightarrow> nat \<Rightarrow> (32 word \<times> nat) option" where
  "getTime rd currentTime k = (
     let statusData = rd k RTC_STATUS_B;
         bcd = (statusData AND RTC_BINARY = 0);
         is_24hr = (statusData AND RTC_24_HR \<noteq> 0)
     in do {
       k \<leftarrow> wait_update rd (k + 1);
       let second = rtc_field bcd (rd k RTC_SECOND);
       let minute = rtc_field bcd (rd (k + 1) RTC_MINUTE);
       let hour = hour_of is_24hr (rtc_field bcd (rd (k + 2) RTC_HOUR));
       let day = rtc_field bcd (rd (k + 3) RTC_DAY) - 1;
       let month = rtc_field bcd (rd (k + 4) RTC_MONTH) - 1;
       let year = rtc_field bcd (rd (k + 5) RTC_YEAR);
       if \<not> isUpdateInProgress rd (k + 6) then do {
         t \<leftarrow> getTimeInSecs year month day hour minute second;
         Some (t, k + 7) }
       else Some (currentTime, k + 7) })"

section \<open>The seconds since 1970\<close>

lemma word_mod_eq_0:
  assumes "y < 2 ^ 32" and "n < 2 ^ 32"
  shows "(of_nat y :: 32 word) mod of_nat n = 0 \<longleftrightarrow> int y mod int n = 0"
proof -
  have "(of_nat y :: 32 word) mod of_nat n = 0 \<longleftrightarrow> unat ((of_nat y :: 32 word) mod of_nat n) = 0"
    by (simp only: unat_eq_0)
  also have "\<dots> \<longleftrightarrow> y mod n = 0"
    using assms by (simp add: unat_mod_distrib unat_of_nat_small)
  also have "\<dots> \<longleftrightarrow> int y mod int n = 0" by (simp flip: of_nat_mod)
  finally show ?thesis .
qed

lemma isLeap_eq: "y < 2 ^ 32 \<Longrightarrow> isLeap (of_nat y) = isleap (int y)"
  using word_mod_eq_0 [of y 4] word_mod_eq_0 [of y 100] word_mod_eq_0 [of y 400]
  by (simp add: isLeap_def isleap_def)

lemma add_months_eq:
  assumes "i \<le> m" and "m \<le> 12"
  shows "add_months i m e = Some (e + of_int (86400 * (\<Sum>j\<in>{i..<m}. month_days ! j)))"
  using assms
proof (induction "m - i" arbitrary: i e)
  case 0
  then show ?case by (simp add: add_months.simps)
next
  case (Suc n)
  then have i: "i < m" "i < 12" by auto
  then have "i < length monthDays" by (simp add: monthDays_def)
  moreover have "monthDays ! i = of_int (month_days ! i)"
  proof -
    have "monthDays = map of_int month_days" by (simp add: monthDays_def month_days_def)
    moreover have "i < length month_days" using i by (simp add: month_days_def)
    ultimately show ?thesis by (metis nth_map)
  qed
  moreover have "add_months (i + 1) m e' =
      Some (e' + of_int (86400 * (\<Sum>j\<in>{i + 1..<m}. month_days ! j)))" for e'
    using Suc i by (intro Suc(1)) auto
  moreover have "(\<Sum>j\<in>{i..<m}. month_days ! j) = month_days ! i + (\<Sum>j\<in>{i + 1..<m}. month_days ! j)"
    using i by (simp add: sum.atLeast_Suc_lessThan)
  ultimately show ?case using i by (subst add_months.simps) (simp add: algebra_simps)
qed

definition leap_days :: "nat \<Rightarrow> nat \<Rightarrow> int" where
  "leap_days i y = (\<Sum>j\<in>{i..<y}. year_days (int j) - 365)"

lemma leap_days_step: "i < y \<Longrightarrow> leap_days i y = (if isleap (int i) then 1 else 0) + leap_days (i + 1) y"
  by (simp add: leap_days_def sum.atLeast_Suc_lessThan year_days_def)

lemma add_leap_days_eq:
  assumes "i \<le> y" and "y < 2 ^ 32"
  shows "add_leap_days i y e = e + of_int (86400 * leap_days i y)"
  using assms
proof (induction "y - i" arbitrary: i e)
  case 0
  then show ?case by (simp add: add_leap_days.simps leap_days_def)
next
  case (Suc n)
  then have i: "i < y" by auto
  have "add_leap_days (i + 1) y e' = e' + of_int (86400 * leap_days (i + 1) y)" for e'
    using Suc i by (intro Suc(1)) auto
  moreover have "isLeap (of_nat i) = isleap (int i)" using Suc i by (intro isLeap_eq) auto
  ultimately show ?case using i leap_days_step [OF i]
    by (subst add_leap_days.simps) (simp add: algebra_simps)
qed

lemma days_to_leap_days:
  assumes "1970 \<le> y"
  shows "days_to (int y) = 365 * (int y - 1970) + leap_days 1970 y"
  using assms
proof (induction y rule: nat_induct_at_least)
  case base
  then show ?case by (simp add: days_to_def leap_days_def)
next
  case (Suc y)
  then have "days_to (int (Suc y)) = days_to (int y) + year_days (int y)"
    using days_to_Suc [of "int y"] by (simp add: add.commute)
  then show ?case using Suc by (simp add: sum.atLeastLessThan_Suc leap_days_def)
qed

lemma days_before_leap_day:
  assumes "m \<le> 12"
  shows "days_before year m = (\<Sum>j\<in>{0..<m}. month_days ! j) + (if 1 < m then feb_29 1 year else 0)"
  using assms
proof (induction m)
  case 0
  then show ?case by (simp add: days_before_def)
next
  case (Suc m)
  then show ?case using month_len_code [of m year, symmetric] by (auto simp: days_before_Suc feb_29_def)
qed

lemma getTimeInSecs_eq:
  assumes "y < 100" and "m < 12"
  shows "getTimeInSecs (of_nat y) (of_nat m) (of_nat d) (of_nat h) (of_nat mi) (of_nat s) =
    Some (of_int (int s + 60 * (int mi + 60 * (int h + 24 * (int d + days_before (100 + int y) m +
      days_to (2000 + int y))))))"
proof -
  let ?y = "y + 2000" and ?e = "of_int (int s + 60 * (int mi + 60 * (int h + 24 * (int d + 365 * (int y + 30)))))
    :: 32 word"
  let ?M = "\<Sum>j\<in>{0..<m}. month_days ! j" and ?L = "leap_days 1970 ?y"
  have y: "of_nat y + 2000 = (of_nat ?y :: 32 word)" by simp
  have uy: "unat (of_nat ?y :: 32 word) = ?y" using assms by (intro unat_of_nat_small) simp
  have um: "unat (of_nat m :: 32 word) = m" using assms by (intro unat_of_nat_small) simp
  have m1: "(1 :: 32 word) < of_nat m \<longleftrightarrow> 1 < m" by (simp add: word_less_nat_alt um)
  have lp: "isLeap (of_nat ?y) = isleap (int ?y)" using assms by (intro isLeap_eq) simp
  have e: "of_nat s + 60 * (of_nat mi + 60 * (of_nat h + 24 * (of_nat d + 365 * (of_nat ?y - 1970)))) = ?e"
    by simp
  have "getTimeInSecs (of_nat y) (of_nat m) (of_nat d) (of_nat h) (of_nat mi) (of_nat s) =
      Some ((if isleap (int ?y) \<and> 1 < m then ?e + of_int (86400 * ?M) + 24 * 60 * 60 else ?e + of_int (86400 * ?M)) +
        of_int (86400 * ?L))"
    using assms add_months_eq [of 0 m] add_leap_days_eq [of 1970 ?y]
    by (simp add: getTimeInSecs_def y uy um m1 lp e Let_def del: of_nat_add)
      (simp add: algebra_simps)
  also have "\<dots> = Some (of_int (int s + 60 * (int mi + 60 * (int h + 24 * (int d + days_before (100 + int y) m +
      days_to (2000 + int y))))))"
    using days_to_leap_days [of ?y]
    assms(2) by (simp add: days_before_leap_day feb_29_def algebra_simps)
  finally show ?thesis .
qed

section \<open>A date is determined by its seconds\<close>

lemma digit_unique:
  fixes a b c :: int
  assumes "a + c * b = a' + c * b'" and "0 \<le> a" "a < c" "0 \<le> a'" "a' < c"
  shows "a = a'" and "b = b'"
proof -
  have "(a + c * b) mod c = (a' + c * b') mod c" using assms(1) by simp
  then show "a = a'" using assms(2-) by simp
  then show "b = b'" using assms by simp
qed

lemma slot_unique:
  fixes F L :: "'a::linorder \<Rightarrow> int"
  assumes mono: "\<And>a b. P a \<Longrightarrow> P b \<Longrightarrow> a < b \<Longrightarrow> F a + L a \<le> F b"
    and "F a + x = F b + y" "P a" "P b" "0 \<le> x" "x < L a" "0 \<le> y" "y < L b"
  shows "a = b" and "x = y"
proof -
  show "a = b" using assms(2-) mono [of a b] mono [of b a] by (cases a b rule: linorder_cases) auto
  then show "x = y" using assms(2) by simp
qed

lemma days_to_mono: "1970 \<le> a \<Longrightarrow> a < b \<Longrightarrow> days_to a + year_days a \<le> days_to b"
proof -
  assume "1970 \<le> a" "a < b"
  then have "days_to (a + 1) \<le> days_to b"
    unfolding days_to_def by (intro sum_mono2) (auto simp: year_len_def)
  then show ?thesis using days_to_Suc [OF \<open>1970 \<le> a\<close>] by simp
qed

lemma days_before_mono: "a < b \<Longrightarrow> b \<le> 12 \<Longrightarrow> days_before year a + month_len year a \<le> days_before year b"
proof -
  assume ab: "a < b" "b \<le> 12"
  have "0 \<le> month_len year i" if "i < b" for i
    using month_len_bounds(1) [of year i] that ab by simp
  then have "days_before year (Suc a) \<le> days_before year b"
    unfolding days_before_def using ab by (intro sum_mono2) auto
  then show ?thesis by (simp add: days_before_Suc)
qed

lemma days_to_le: "1970 \<le> y \<Longrightarrow> days_to y \<le> 366 * (y - 1970)"
  using sum_bounded_above [of "{1970..<y}" year_len 366] year_days_bounds(2) by (simp add: days_to_def year_days_len)

lemma days_before_day:
  assumes "m < 12" and "1 \<le> d" and "d \<le> month_len year m"
  shows "0 \<le> days_before year m + d - 1" and "days_before year m + d - 1 < year_days (1900 + year)"
proof -
  have "0 \<le> month_len year i" if "i < m" for i
    using month_len_bounds(1) [of year i] that assms(1) by simp
  then have "0 \<le> days_before year m" unfolding days_before_def by (intro sum_nonneg) auto
  then show "0 \<le> days_before year m + d - 1" using assms by simp
  show "days_before year m + d - 1 < year_days (1900 + year)"
    using days_before_mono [of m 12 year] assms days_before_year [of year] by simp
qed

lemma date_unique:
  assumes "s + 60 * (mi + 60 * (h + 24 * (days_before y m + d - 1 + days_to (1900 + y)))) =
           s' + 60 * (mi' + 60 * (h' + 24 * (days_before y' m' + d' - 1 + days_to (1900 + y'))))"
    and "0 \<le> s" "s < 60" "0 \<le> s'" "s' < 60" "0 \<le> mi" "mi < 60" "0 \<le> mi'" "mi' < 60"
    and "0 \<le> h" "h < 24" "0 \<le> h'" "h' < 24" "70 \<le> y" "70 \<le> y'"
    and m: "m < 12" "1 \<le> d" "d \<le> month_len y m" "m' < 12" "1 \<le> d'" "d' \<le> month_len y' m'"
  shows "s = s' \<and> mi = mi' \<and> h = h' \<and> y = y' \<and> m = m' \<and> d = d'"
proof -
  note s = digit_unique [OF assms(1-5)]
  note mi = digit_unique [OF s(2) assms(6-9)]
  note h = digit_unique [OF mi(2) assms(10-13)]
  have years: "days_to (1900 + y) + (days_before y m + d - 1) = days_to (1900 + y') + (days_before y' m' + d' - 1)"
    using h(2) by simp
  have mono: "days_to a + year_days a \<le> days_to b" if "1970 \<le> a" "1970 \<le> b" "a < b" for a b
    using days_to_mono that by simp
  have p: "1970 \<le> 1900 + y" "1970 \<le> 1900 + y'" using assms(14,15) by auto
  note y = slot_unique [where P = "\<lambda>a. 1970 \<le> a", OF mono years p days_before_day [OF m(1-3)]
      days_before_day [OF m(4-6)]]
  have yy: "y' = y" using y(1) by simp
  have months: "days_before y m + (d - 1) = days_before y m' + (d' - 1)" using y(2) yy by simp
  have mono: "days_before y a + month_len y a \<le> days_before y b" if "a < 12" "b < 12" "a < b" for a b
    using days_before_mono that by simp
  have "m = m'" "d - 1 = d' - 1"
    using slot_unique [where P = "\<lambda>a. a < 12", OF mono months m(1,4)] m yy by auto
  then show ?thesis using s(1) mi(1) h(1) yy by simp
qed

section \<open>The date of the clock\<close>

definition rtc_enc :: "bool \<Rightarrow> nat \<Rightarrow> 8 word" where
  "rtc_enc bcd n = (if bcd then of_nat (16 * (n div 10) + n mod 10) else of_nat n)"

lemma rtc_field_enc:
  assumes "n < 100"
  shows "rtc_field bcd (rtc_enc bcd n) = of_nat n"
proof (cases bcd)
  case True
  have "list_all (\<lambda>n. rtc_field True (rtc_enc True n) = of_nat n) [0..<100]" by code_simp
  then show ?thesis using True assms by (simp add: list_all_iff)
next
  case False
  have "list_all (\<lambda>n. rtc_field False (rtc_enc False n) = of_nat n) [0..<100]" by code_simp
  then show ?thesis using False assms by (simp add: list_all_iff)
qed

lemma wait_update_done: "\<not> isUpdateInProgress rd k \<Longrightarrow> wait_update rd k = Some (k + 1)"
  by (subst wait_update.simps) simp

text \<open>
  C22. The date that the clock shows is the date that a program prints: when the clock counts 24 hours,
  in binary or in BCD, and is not being updated, the server's time converted by \<^verbatim>\<open>gmtime\<close> has the
  seconds, minutes, hours, day, month and year of the clock's registers, for all dates of the years
  2000 to 2099. No intermediate value leaves the 32 bits it is computed in.
\<close>

theorem clock_date_roundtrip:
  assumes "rd = (\<lambda>k. R)"
    and "R RTC_STATUS_A AND RTC_A_UPDATING = 0" and "R RTC_STATUS_B AND RTC_24_HR \<noteq> 0"
    and bcd: "bcd = (R RTC_STATUS_B AND RTC_BINARY = 0)"
    and R: "R RTC_SECOND = rtc_enc bcd s" "R RTC_MINUTE = rtc_enc bcd mi" "R RTC_HOUR = rtc_enc bcd h"
      "R RTC_DAY = rtc_enc bcd d" "R RTC_MONTH = rtc_enc bcd (m + 1)" "R RTC_YEAR = rtc_enc bcd y"
    and date: "s < 60" "mi < 60" "h < 24" "1 \<le> d" "int d \<le> month_len (100 + int y) m" "m < 12" "y < 100"
  shows "\<exists>t k' ts'. getTime rd currentTime k = Some (t, k') \<and>
      gmtime (Some (ucast t)) ts = Some (Inr ts') \<and>
      tm_sec ts' = int s \<and> tm_min ts' = int mi \<and> tm_hour ts' = int h \<and> tm_mday ts' = int d \<and>
      tm_mon ts' = int m \<and> tm_year ts' = 100 + int y"
proof -
  let ?T = "int s + 60 * (int mi + 60 * (int h + 24 * (int (d - 1) + days_before (100 + int y) m +
      days_to (2000 + int y))))"
  let ?t = "of_int ?T :: 32 word"
  have "d < 100" using date(5) month_len_bounds(2) [of "100 + int y" m] by simp
  then have f: "rtc_field bcd (R RTC_SECOND) = of_nat s" "rtc_field bcd (R RTC_MINUTE) = of_nat mi"
      "rtc_field bcd (R RTC_HOUR) = of_nat h" "rtc_field bcd (R RTC_DAY) = of_nat d"
      "rtc_field bcd (R RTC_MONTH) = of_nat (m + 1)" "rtc_field bcd (R RTC_YEAR) = of_nat y"
    using date unfolding R by (simp_all only: rtc_field_enc)
  have u: "\<not> isUpdateInProgress (\<lambda>k. R) j" for j using assms(2) by (simp add: isUpdateInProgress_def)
  have m1: "of_nat (m + 1) - 1 = (of_nat m :: 32 word)" by simp
  have d1: "of_nat d - 1 = (of_nat (d - 1) :: 32 word)" using date(4) by (simp add: of_nat_diff)
  have get: "getTime rd currentTime k = Some (?t, k + 1 + 1 + 7)"
    using getTimeInSecs_eq [OF date(7,6), of "d - 1" h mi s] assms(3)
    unfolding getTime_def assms(1) Let_def bcd [symmetric]
    by (simp only: wait_update_done [OF u] u f d1 m1 hour_of_def bind.simps if_True not_False_eq_True
        not_not simp_thms if_False)
  have T: "0 \<le> ?T" "?T < 2 ^ 32"
  proof -
    have b: "0 \<le> days_before (100 + int y) m + int d - 1"
        "days_before (100 + int y) m + int d - 1 < year_days (2000 + int y)"
      using days_before_day [of m "int d" "100 + int y"] date by auto
    have "0 \<le> days_to (2000 + int y)" "days_to (2000 + int y) + year_days (2000 + int y) \<le> 366 * 130"
      using days_to_mono [of 1970 "2000 + int y"] days_to_mono [of "2000 + int y" 2100] days_to_le [of 2100]
        year_days_bounds(1) [of 1970] date(7) by (auto simp: days_to_1970)
    then show "0 \<le> ?T" "?T < 2 ^ 32" using b date by auto
  qed
  then have ut: "uint (ucast ?t :: 64 word) = ?T"
    by (simp add: unsigned_ucast_eq unsigned_of_int take_bit_int_eq_self del: of_int_add of_int_mult)
  then have "(ucast ?t :: 64 word) < 2 ^ 55" using T by (simp add: word_less_def)
  then obtain ts' m' where g: "gmtime (Some (ucast ?t)) ts = Some (Inr ts')" "calendar_date ?T ts' m'"
    using gmtime_date [of "ucast ?t" ts] unfolding ut by auto
  note g' = g(2) [unfolded calendar_date_def]
  have "tm_sec ts' = int s \<and> tm_min ts' = int mi \<and> tm_hour ts' = int h \<and> tm_year ts' = 100 + int y \<and>
      m' = m \<and> tm_mday ts' = int d"
    using g' date by (intro date_unique) auto
  then show ?thesis using get g g' by auto
qed

text \<open>A clock that shows 12:34:56 on the 29th of February 2024, in BCD.\<close>

definition leap_clock :: "8 word \<Rightarrow> 8 word" where
  "leap_clock reg =
     (if reg = RTC_SECOND then 0x56 else if reg = RTC_MINUTE then 0x34 else if reg = RTC_HOUR then 0x12
      else if reg = RTC_DAY then 0x29 else if reg = RTC_MONTH then 0x02 else if reg = RTC_YEAR then 0x24
      else if reg = RTC_STATUS_B then RTC_24_HR else 0)"

theorem clock_date_roundtrip_witness:
  "\<exists>t k' ts'. getTime (\<lambda>k. leap_clock) 0 0 = Some (t, k') \<and>
      gmtime (Some (ucast t)) no_tm = Some (Inr ts') \<and>
      tm_sec ts' = 56 \<and> tm_min ts' = 34 \<and> tm_hour ts' = 12 \<and> tm_mday ts' = 29 \<and>
      tm_mon ts' = 1 \<and> tm_year ts' = 124"
proof -
  have "leap_clock RTC_STATUS_A AND RTC_A_UPDATING = 0" "leap_clock RTC_STATUS_B AND RTC_24_HR \<noteq> 0"
      "True = (leap_clock RTC_STATUS_B AND RTC_BINARY = 0)"
      "leap_clock RTC_SECOND = rtc_enc True 56" "leap_clock RTC_MINUTE = rtc_enc True 34"
      "leap_clock RTC_HOUR = rtc_enc True 12" "leap_clock RTC_DAY = rtc_enc True 29"
      "leap_clock RTC_MONTH = rtc_enc True (1 + 1)" "leap_clock RTC_YEAR = rtc_enc True 24"
      "(56 :: nat) < 60" "(34 :: nat) < 60" "(12 :: nat) < 24" "(1 :: nat) \<le> 29"
      "int 29 \<le> month_len (100 + int 24) 1" "(1 :: nat) < 12" "(24 :: nat) < 100"
    by code_simp+
  from clock_date_roundtrip [OF refl this, of 0 0 no_tm] show ?thesis by simp
qed

text \<open>
  A clock that counts twelve hours is misread. In BCD the bit for the afternoon is taken for a part of
  the number, so that one o'clock in the afternoon becomes the hour 80; in binary midnight, which such
  a clock shows as 12, becomes 11 o'clock, and noon 11 o'clock in the evening.
\<close>

lemma twelve_hours_misread:
  "hour_of False (rtc_field True 0x81) = 80"
  "hour_of False (rtc_field False 12) = 11"
  "hour_of False (rtc_field False (0x80 OR 12)) = 23"
  by code_simp+

end
