(* ===== verification/Os_Util.thy ===== *)
theory Os_Util
  imports Libc_String
begin

text \<open>
  Small parts of the OS library: memory regions of the C programs (\<^verbatim>\<open>include/os/region.h\<close>), bit arrays
  (\<^verbatim>\<open>include/os/bitarray.h\<close>, \<^verbatim>\<open>lib/libos/bitarray.c\<close>) on the memory of a process, and the byte order
  conversions (\<^verbatim>\<open>lib/libos/endian.c\<close>).
\<close>

section \<open>Memory regions\<close>

record MemRegion =
  mr_start :: "32 word"
  mr_end :: "32 word"

definition region_init :: "MemRegion \<Rightarrow> 32 word \<Rightarrow> 32 word \<Rightarrow> int \<times> MemRegion" where
  "region_init region start end' =
     (if start < end' then (0, region\<lparr>mr_start := start, mr_end := end'\<rparr>) else (- 1, region))"

definition region_length_c :: "MemRegion \<Rightarrow> 32 word" where
  "region_length_c region = mr_end region - mr_start region"

text \<open>
  \<open>differences\<close> has the type of a pointer to arrays of two regions, so that \<open>differences[count]\<close> is
  the array that starts \<open>2 * count\<close> regions behind it, and the arrow selects its first region. \<open>out\<close>
  are the regions in memory from that pointer on.
\<close>

definition put_difference :: "nat \<Rightarrow> 32 word \<Rightarrow> 32 word \<Rightarrow> (nat \<Rightarrow> MemRegion) \<Rightarrow> nat \<Rightarrow> MemRegion" where
  "put_difference count s e out = out(2 * count := (out (2 * count))\<lparr>mr_start := s, mr_end := e\<rparr>)"

definition region_difference_c ::
    "MemRegion \<Rightarrow> MemRegion \<Rightarrow> (nat \<Rightarrow> MemRegion) \<Rightarrow> nat \<times> (nat \<Rightarrow> MemRegion)" where
  "region_difference_c minuend subtrahend out = (
     let (count, out) =
           (if mr_start minuend < mr_start subtrahend
            then (1, put_difference 0 (mr_start minuend) (mr_start subtrahend) out) else (0, out))
     in if mr_end subtrahend < mr_end minuend
        then (count + 1, put_difference count (mr_end subtrahend) (mr_end minuend) out) else (count, out))"

definition region_equals :: "MemRegion \<Rightarrow> MemRegion \<Rightarrow> bool" where
  "region_equals region other = (mr_start region = mr_start other \<and> mr_end region = mr_end other)"

definition region_contains_c :: "MemRegion \<Rightarrow> 32 word \<Rightarrow> bool" where
  "region_contains_c region addr = (mr_start region \<le> addr \<and> addr < mr_end region)"

definition region_is_adjacent :: "MemRegion \<Rightarrow> MemRegion \<Rightarrow> bool" where
  "region_is_adjacent region other = (mr_end region = mr_start other \<or> mr_end other = mr_start region)"

definition region_intersects :: "MemRegion \<Rightarrow> MemRegion \<Rightarrow> bool" where
  "region_intersects region other =
     (region_contains_c region (mr_start other) \<or> region_contains_c other (mr_start region))"

definition region_can_concatenate :: "MemRegion \<Rightarrow> MemRegion \<Rightarrow> bool" where
  "region_can_concatenate region other = (region_intersects region other \<or> region_is_adjacent region other)"

definition region_concatenate :: "MemRegion \<Rightarrow> MemRegion \<Rightarrow> bool \<times> MemRegion" where
  "region_concatenate augend addend =
     (if \<not> region_can_concatenate augend addend then (False, augend)
      else (True, \<lparr>mr_start = (if mr_start augend \<le> mr_start addend then mr_start augend else mr_start addend),
                   mr_end = (if mr_end addend \<le> mr_end augend then mr_end augend else mr_end addend)\<rparr>))"

section \<open>Bit arrays\<close>

definition bitarray_bytes :: "32 word \<Rightarrow> 32 word" where
  "bitarray_bytes num_bits = num_bits div 8 + (if num_bits mod 8 \<noteq> 0 then 1 else 0)"

definition bitarray_init :: "32 word \<Rightarrow> 32 word \<Rightarrow> cmem \<Rightarrow> int \<times> cmem" where
  "bitarray_init bitarray num_entries m = (
     let length = bitarray_bytes num_entries
     in if length = 0 then (- 1, m) else (0, libc_memset bitarray 0 length m))"

definition bit_mask :: "32 word \<Rightarrow> 8 word" where
  "bit_mask b = push_bit (unat (b AND 7)) 1"

definition bitarray_is_set :: "32 word \<Rightarrow> 32 word \<Rightarrow> cmem \<Rightarrow> bool" where
  "bitarray_is_set bitarray b m = (0 < m (bitarray + drop_bit 3 b) AND bit_mask b)"

definition bitarray_set :: "32 word \<Rightarrow> 32 word \<Rightarrow> cmem \<Rightarrow> cmem" where
  "bitarray_set bitarray b m =
     m(bitarray + drop_bit 3 b := m (bitarray + drop_bit 3 b) OR bit_mask b)"

definition bitarray_clear :: "32 word \<Rightarrow> 32 word \<Rightarrow> cmem \<Rightarrow> cmem" where
  "bitarray_clear bitarray b m =
     m(bitarray + drop_bit 3 b := m (bitarray + drop_bit 3 b) AND bit_mask b)"

section \<open>Byte order\<close>

definition endianSwap16 :: "16 word \<Rightarrow> 16 word" where
  "endianSwap16 i = drop_bit 8 i OR push_bit 8 i"

definition endianSwap32 :: "32 word \<Rightarrow> 32 word" where
  "endianSwap32 i = drop_bit 24 i OR (drop_bit 8 i AND 0xFF00) OR (push_bit 8 i AND 0xFF0000) OR push_bit 24 i"

definition endianSwap64 :: "64 word \<Rightarrow> 64 word" where
  "endianSwap64 i = drop_bit 56 i OR (push_bit 40 i AND 0xFF000000000000)
     OR (push_bit 24 i AND 0xFF0000000000) OR (push_bit 8 i AND 0xFF00000000)
     OR (drop_bit 8 i AND 0xFF000000) OR (drop_bit 24 i AND 0xFF0000)
     OR (drop_bit 40 i AND 0xFF00) OR push_bit 56 i"

section \<open>Regions are sets of addresses\<close>

definition mr_addrs :: "MemRegion \<Rightarrow> 32 word set" where
  "mr_addrs r = {a. mr_start r \<le> a \<and> a < mr_end r}"

definition wf_mr :: "MemRegion \<Rightarrow> bool" where
  "wf_mr r \<longleftrightarrow> mr_start r < mr_end r"

lemma mr_addrs_eq: "mr_addrs r = {mr_start r..<mr_end r}"
  by (auto simp: mr_addrs_def)

lemma region_contains_iff: "region_contains_c r x \<longleftrightarrow> x \<in> mr_addrs r"
  by (simp add: region_contains_c_def mr_addrs_def)

lemma mr_addrs_nonempty: "wf_mr r \<Longrightarrow> mr_start r \<in> mr_addrs r"
  by (simp add: mr_addrs_eq wf_mr_def)

lemma region_intersects_iff:
  assumes "wf_mr r" and "wf_mr q"
  shows "region_intersects r q \<longleftrightarrow> mr_addrs r \<inter> mr_addrs q \<noteq> {}"
proof
  assume "region_intersects r q"
  then show "mr_addrs r \<inter> mr_addrs q \<noteq> {}"
    using mr_addrs_nonempty [OF assms(1)] mr_addrs_nonempty [OF assms(2)]
    by (auto simp: region_intersects_def region_contains_iff)
next
  assume "mr_addrs r \<inter> mr_addrs q \<noteq> {}"
  then show "region_intersects r q"
    by (auto simp: mr_addrs_eq region_intersects_def region_contains_c_def)
qed

lemma card_mr_addrs: "wf_mr r \<Longrightarrow> card (mr_addrs r) = unat (region_length_c r)"
proof -
  assume "wf_mr r"
  then have le: "mr_start r \<le> mr_end r" by (simp add: wf_mr_def)
  have "unat ` {mr_start r..<mr_end r} = {unat (mr_start r)..<unat (mr_end r)}"
  proof safe
    fix n assume n: "n \<in> {unat (mr_start r)..<unat (mr_end r)}"
    then have "unat (of_nat n :: 32 word) = n"
      using unat_less32 [of "mr_end r"] by (intro unat_of_nat_small) auto
    then show "n \<in> unat ` {mr_start r..<mr_end r}"
      using n by (intro image_eqI [of _ _ "of_nat n"]) (auto simp: word_le_nat_alt word_less_nat_alt)
  qed (auto simp: word_le_nat_alt word_less_nat_alt)
  moreover have "inj_on unat {mr_start r..<mr_end r}" by (auto simp: inj_on_def intro: word_unat_eq_iff [THEN iffD2])
  ultimately have "card {mr_start r..<mr_end r} = unat (mr_end r) - unat (mr_start r)"
    by (metis card_atLeastLessThan card_image)
  then show ?thesis using le by (simp add: mr_addrs_eq region_length_c_def unat_sub)
qed

lemma region_concatenate_union:
  assumes "wf_mr r" and "wf_mr q" and "region_can_concatenate r q"
  shows "wf_mr (snd (region_concatenate r q))"
    and "mr_addrs (snd (region_concatenate r q)) = mr_addrs r \<union> mr_addrs q"
proof -
  have o: "mr_start r \<le> mr_end q" "mr_start q \<le> mr_end r"
    using assms by (auto simp: region_can_concatenate_def region_intersects_def region_is_adjacent_def
        region_contains_c_def wf_mr_def)
  show "wf_mr (snd (region_concatenate r q))"
    using assms by (auto simp: region_concatenate_def wf_mr_def)
  show "mr_addrs (snd (region_concatenate r q)) = mr_addrs r \<union> mr_addrs q"
    using assms o by (auto simp: region_concatenate_def mr_addrs_eq wf_mr_def)
qed

lemma no_gap:
  fixes a b c d e f :: "'a::linorder"
  assumes "a < b" and "c < d" and "{e..<f} = {a..<b} \<union> {c..<d}"
  shows "c \<le> b"
proof (rule ccontr)
  assume "\<not> c \<le> b"
  moreover have "a \<in> {e..<f}" "c \<in> {e..<f}" using assms by auto
  ultimately have "b \<in> {e..<f}" using assms(1) by auto
  then show False using assms(3) \<open>\<not> c \<le> b\<close> by auto
qed

lemma region_can_concatenate_iff:
  assumes "wf_mr r" and "wf_mr q"
  shows "region_can_concatenate r q \<longleftrightarrow> (\<exists>c. wf_mr c \<and> mr_addrs c = mr_addrs r \<union> mr_addrs q)"
proof
  assume "region_can_concatenate r q"
  then show "\<exists>c. wf_mr c \<and> mr_addrs c = mr_addrs r \<union> mr_addrs q"
    using region_concatenate_union [OF assms] by blast
next
  assume "\<exists>c. wf_mr c \<and> mr_addrs c = mr_addrs r \<union> mr_addrs q"
  then obtain c :: MemRegion where c: "{mr_start c..<mr_end c} = {mr_start r..<mr_end r} \<union> {mr_start q..<mr_end q}"
    unfolding mr_addrs_eq by blast
  have "mr_start q \<le> mr_end r" "mr_start r \<le> mr_end q"
    using no_gap [OF _ _ c] no_gap [OF _ _ c [unfolded Un_commute [of "{mr_start r..<mr_end r}"]]] assms
    by (auto simp: wf_mr_def)
  then show "region_can_concatenate r q"
    by (auto simp: region_can_concatenate_def region_intersects_def region_is_adjacent_def region_contains_c_def)
qed

lemma interval_difference:
  fixes a b c d :: "'a::linorder"
  assumes "a < d" and "c < b" and "c < d"
  shows "{a..<b} - {c..<d} = (if a < c then {a..<c} else {}) \<union> (if d < b then {d..<b} else {})"
  using assms by auto

lemma region_difference_sets:
  assumes "wf_mr a" and "wf_mr b" and "region_intersects a b"
    and "region_difference_c a b out = (count, out')"
  shows "mr_addrs a - mr_addrs b = (\<Union>i<count. mr_addrs (out' (2 * i)))"
    and "count \<le> 2" and "\<forall>i<count. wf_mr (out' (2 * i))" and "\<forall>i. odd i \<longrightarrow> out' i = out i"
proof -
  have i: "mr_start a < mr_end b" "mr_start b < mr_end a"
    using assms(1-3) by (auto simp: region_intersects_def region_contains_c_def wf_mr_def)
  consider "mr_start a < mr_start b" "mr_end b < mr_end a" | "mr_start a < mr_start b" "\<not> mr_end b < mr_end a"
    | "\<not> mr_start a < mr_start b" "mr_end b < mr_end a" | "\<not> mr_start a < mr_start b" "\<not> mr_end b < mr_end a"
    by blast
  then have "mr_addrs a - mr_addrs b = (\<Union>i<count. mr_addrs (out' (2 * i))) \<and> count \<le> 2 \<and>
      (\<forall>i<count. wf_mr (out' (2 * i))) \<and> (\<forall>i. odd i \<longrightarrow> out' i = out i)"
  proof cases
    case 1
    then have "count = 2" and o: "out' = put_difference 1 (mr_end b) (mr_end a)
        (put_difference 0 (mr_start a) (mr_start b) out)"
      using assms(4) by (auto simp: region_difference_c_def)
    moreover have "{..<2} = {0, 1 :: nat}" by auto
    ultimately show ?thesis using 1
      by (simp add: mr_addrs_eq interval_difference [OF i assms(2) [unfolded wf_mr_def]] put_difference_def
          wf_mr_def less_2_cases_iff Un_commute)
  next
    case 2
    then have "count = 1" "out' = put_difference 0 (mr_start a) (mr_start b) out"
      using assms(4) by (auto simp: region_difference_c_def)
    then show ?thesis using 2
      by (simp add: mr_addrs_eq interval_difference [OF i assms(2) [unfolded wf_mr_def]] put_difference_def
          wf_mr_def lessThan_Suc)
  next
    case 3
    then have "count = 1" "out' = put_difference 0 (mr_end b) (mr_end a) out"
      using assms(4) by (auto simp: region_difference_c_def)
    then show ?thesis using 3
      by (simp add: mr_addrs_eq interval_difference [OF i assms(2) [unfolded wf_mr_def]] put_difference_def
          wf_mr_def lessThan_Suc)
  next
    case 4
    then have "count = 0" "out' = out" using assms(4) by (auto simp: region_difference_c_def)
    then show ?thesis using 4
      by (simp add: mr_addrs_eq interval_difference [OF i assms(2) [unfolded wf_mr_def]])
  qed
  then show "mr_addrs a - mr_addrs b = (\<Union>i<count. mr_addrs (out' (2 * i)))" "count \<le> 2"
    "\<forall>i<count. wf_mr (out' (2 * i))" "\<forall>i. odd i \<longrightarrow> out' i = out i" by blast+
qed

text \<open>The regions do not have to intersect: then the one result also has the addresses between them.\<close>

lemma region_difference_disjoint:
  assumes "wf_mr a" and "wf_mr b" and "\<not> region_intersects a b"
    and "region_difference_c a b out = (count, out')"
  shows "count = 1"
    and "mr_addrs (out' 0) = mr_addrs a \<union> {mr_end a..<mr_start b} \<union> {mr_end b..<mr_start a}"
proof -
  consider "mr_end a \<le> mr_start b" | "mr_end b \<le> mr_start a"
    using assms(1-3) by (auto simp: region_intersects_def region_contains_c_def wf_mr_def not_le not_less)
  then have "count = 1 \<and>
      mr_addrs (out' 0) = mr_addrs a \<union> {mr_end a..<mr_start b} \<union> {mr_end b..<mr_start a}"
  proof cases
    case 1
    then have "mr_start a < mr_start b" "\<not> mr_end b < mr_end a" "\<not> mr_end b < mr_start a"
      using assms(1,2) by (auto simp: wf_mr_def)
    moreover from this have "count = 1" "out' = put_difference 0 (mr_start a) (mr_start b) out"
      using assms(4) by (auto simp: region_difference_c_def)
    ultimately show ?thesis using 1 assms(1)
      by (auto simp: mr_addrs_eq put_difference_def wf_mr_def)
  next
    case 2
    then have "\<not> mr_start a < mr_start b" "mr_end b < mr_end a" "\<not> mr_end a < mr_start b"
      using assms(1,2) by (auto simp: wf_mr_def)
    moreover from this have "count = 1" "out' = put_difference 0 (mr_end b) (mr_end a) out"
      using assms(4) by (auto simp: region_difference_c_def)
    ultimately show ?thesis using 2 assms(1)
      by (auto simp: mr_addrs_eq put_difference_def wf_mr_def)
  qed
  then show "count = 1"
    "mr_addrs (out' 0) = mr_addrs a \<union> {mr_end a..<mr_start b} \<union> {mr_end b..<mr_start a}" by blast+
qed

section \<open>Bits\<close>

lemma mask_3: "b AND 7 = take_bit 3 b" for b :: "'a::len word"
proof -
  have "(7 :: 'a word) = mask 3" by (simp add: mask_eq_exp_minus_1)
  then show ?thesis by (simp add: take_bit_eq_mask)
qed

lemma byte_index_eq: "drop_bit 3 b = drop_bit 3 c \<and> b AND 7 = c AND 7 \<longleftrightarrow> b = c" for b c :: "32 word"
  unfolding mask_3 by (metis bits_ident)

lemma bitarray_is_set_bit: "bitarray_is_set a b m = bit (m (a + drop_bit 3 b)) (unat (b AND 7))"
  by (simp add: bitarray_is_set_def bit_mask_def word_neq_0_conv [symmetric] bit_iff_and_push_bit_not_eq_0
      del: word_neq_0_conv)

lemma bit_mask_bit: "bit (bit_mask b) n \<longleftrightarrow> n = unat (b AND 7)"
proof -
  have "b AND 7 \<le> 7" by (rule word_and_le1)
  then have "unat (b AND 7) < 8" by (simp add: word_le_nat_alt)
  then show ?thesis by (auto simp: bit_mask_def bit_simps)
qed

lemma bitarray_set_is_set:
  "bitarray_is_set a c (bitarray_set a b m) \<longleftrightarrow> c = b \<or> bitarray_is_set a c m"
  using byte_index_eq [of c b] by (auto simp: bitarray_is_set_bit bitarray_set_def bit_simps bit_mask_bit
      simp flip: word_unat_eq_iff)

lemma bitarray_clear_is_set:
  "bitarray_is_set a c (bitarray_clear a b m) \<longleftrightarrow>
     bitarray_is_set a c m \<and> (drop_bit 3 c = drop_bit 3 b \<longrightarrow> c = b)"
  using byte_index_eq [of c b] by (auto simp: bitarray_is_set_bit bitarray_clear_def bit_simps bit_mask_bit
      simp flip: word_unat_eq_iff)

section \<open>Bytes\<close>

definition byte :: "nat \<Rightarrow> 'a::len word \<Rightarrow> 8 word" where
  "byte n w = ucast (drop_bit (8 * n) w)"

lemma byte_masks:
  "(0xFF00 :: 'a::len word) = push_bit 8 (mask 8)"
  "(0xFF0000 :: 'a::len word) = push_bit 16 (mask 8)"
  "(0xFF000000 :: 'a::len word) = push_bit 24 (mask 8)"
  "(0xFF00000000 :: 'a::len word) = push_bit 32 (mask 8)"
  "(0xFF0000000000 :: 'a::len word) = push_bit 40 (mask 8)"
  "(0xFF000000000000 :: 'a::len word) = push_bit 48 (mask 8)"
  by (simp_all add: push_bit_eq_mult mask_eq_exp_minus_1)

lemma bit_byte: "bit (byte n w) k \<longleftrightarrow> k < 8 \<and> bit w (8 * n + k)"
  by (auto simp: byte_def bit_simps)

lemma swap16_bytes: "byte 0 (endianSwap16 i) = byte 1 i" "byte 1 (endianSwap16 i) = byte 0 i"
  by (rule bit_word_eqI; auto simp: bit_byte endianSwap16_def bit_simps dest: bit_imp_le_length)+

lemma swap32_bytes:
  "byte 0 (endianSwap32 i) = byte 3 i" "byte 1 (endianSwap32 i) = byte 2 i"
  "byte 2 (endianSwap32 i) = byte 1 i" "byte 3 (endianSwap32 i) = byte 0 i"
  by (rule bit_word_eqI; auto simp: bit_byte endianSwap32_def byte_masks bit_simps dest: bit_imp_le_length)+

lemma swap64_bytes:
  "byte 0 (endianSwap64 i) = byte 7 i" "byte 1 (endianSwap64 i) = byte 6 i"
  "byte 2 (endianSwap64 i) = byte 5 i" "byte 3 (endianSwap64 i) = byte 4 i"
  "byte 4 (endianSwap64 i) = byte 3 i" "byte 5 (endianSwap64 i) = byte 2 i"
  "byte 6 (endianSwap64 i) = byte 1 i" "byte 7 (endianSwap64 i) = byte 0 i"
  by (rule bit_word_eqI; auto simp: bit_byte endianSwap64_def byte_masks bit_simps dest: bit_imp_le_length)+

definition word_bytes :: "'a::len word \<Rightarrow> 8 word list" where
  "word_bytes w = map (\<lambda>n. byte n w) [0..<LENGTH('a) div 8]"

lemma word_bytes_eqI:
  fixes v w :: "'a::len word"
  assumes "word_bytes v = word_bytes w" and "8 dvd LENGTH('a)"
  shows "v = w"
proof (rule bit_word_eqI)
  fix n assume "n < LENGTH('a)"
  then have "n div 8 < LENGTH('a) div 8" using assms(2) by auto
  then have "byte (n div 8) v = byte (n div 8) w" using assms(1) by (simp add: word_bytes_def map_eq_conv)
  then have "bit (byte (n div 8) v) (n mod 8) = bit (byte (n div 8) w) (n mod 8)" by simp
  then show "bit v n = bit w n" by (simp add: bit_byte)
qed

lemma byte_counts: "[0..<2] = [0, 1 :: nat]" "[0..<4] = [0, 1, 2, 3 :: nat]" "[0..<8] = [0, 1, 2, 3, 4, 5, 6, 7 :: nat]"
  by code_simp+

lemma word_bytes_list:
  "word_bytes a = [byte 0 a, byte 1 a]"
  "word_bytes b = [byte 0 b, byte 1 b, byte 2 b, byte 3 b]"
  "word_bytes c = [byte 0 c, byte 1 c, byte 2 c, byte 3 c, byte 4 c, byte 5 c, byte 6 c, byte 7 c]"
  for a :: "16 word" and b :: "32 word" and c :: "64 word"
  by (simp_all add: word_bytes_def byte_counts)

lemma swap_bytes_rev:
  "word_bytes (endianSwap16 a) = rev (word_bytes a)"
  "word_bytes (endianSwap32 b) = rev (word_bytes b)"
  "word_bytes (endianSwap64 c) = rev (word_bytes c)"
  by (simp_all add: word_bytes_list swap16_bytes swap32_bytes swap64_bytes del: One_nat_def)

text \<open>
  C40. The byte order conversions reverse the bytes of their argument, and each of them is its own
  inverse.
\<close>

theorem endian_swaps_reverse_bytes:
  "word_bytes (endianSwap16 a) = rev (word_bytes a) \<and> endianSwap16 (endianSwap16 a) = a \<and>
   word_bytes (endianSwap32 b) = rev (word_bytes b) \<and> endianSwap32 (endianSwap32 b) = b \<and>
   word_bytes (endianSwap64 c) = rev (word_bytes c) \<and> endianSwap64 (endianSwap64 c) = c"
  by (intro conjI swap_bytes_rev; rule word_bytes_eqI; simp add: swap_bytes_rev)

text \<open>
  C39. The regions of the C programs are sets of addresses: the length is the number of addresses, an
  address is contained when it is one of them, equal regions have the same addresses, and two
  regions intersect when they share an address. Two regions can be joined exactly when some region
  has the addresses of both, and joining them gives that region and otherwise changes nothing. The
  difference of two regions that intersect consists of up to two regions; the second of them is
  written two places behind the first, and the place between them, the second of the caller's
  array, is left as it was. The difference of two regions that do not intersect is one region that
  has, besides the addresses of the first, all those between the two.
\<close>

theorem c_regions_are_address_sets:
  assumes "wf_mr a" and "wf_mr b"
  shows "card (mr_addrs a) = unat (region_length_c a) \<and>
    (region_contains_c a x \<longleftrightarrow> x \<in> mr_addrs a) \<and>
    (region_equals a b \<longleftrightarrow> mr_addrs a = mr_addrs b) \<and>
    (region_intersects a b \<longleftrightarrow> mr_addrs a \<inter> mr_addrs b \<noteq> {}) \<and>
    (region_can_concatenate a b \<longleftrightarrow> (\<exists>c. wf_mr c \<and> mr_addrs c = mr_addrs a \<union> mr_addrs b)) \<and>
    (case region_concatenate a b of (ok, c) \<Rightarrow>
       if \<exists>c. wf_mr c \<and> mr_addrs c = mr_addrs a \<union> mr_addrs b
       then ok \<and> wf_mr c \<and> mr_addrs c = mr_addrs a \<union> mr_addrs b
       else \<not> ok \<and> c = a) \<and>
    (case region_difference_c a b out of (count, out') \<Rightarrow>
       if mr_addrs a \<inter> mr_addrs b \<noteq> {}
       then count \<le> 2 \<and> (\<forall>i<count. wf_mr (out' (2 * i))) \<and>
         mr_addrs a - mr_addrs b = (\<Union>i<count. mr_addrs (out' (2 * i))) \<and> out' 1 = out 1
       else count = 1 \<and>
         mr_addrs (out' 0) = mr_addrs a \<union> {mr_end a..<mr_start b} \<union> {mr_end b..<mr_start a})"
proof -
  have "region_equals a b \<longleftrightarrow> mr_addrs a = mr_addrs b"
    using assms by (auto simp: region_equals_def mr_addrs_eq wf_mr_def atLeastLessThan_eq_iff)
  moreover have "case region_concatenate a b of (ok, c) \<Rightarrow>
       if region_can_concatenate a b then ok \<and> wf_mr c \<and> mr_addrs c = mr_addrs a \<union> mr_addrs b
       else \<not> ok \<and> c = a"
    using region_concatenate_union [OF assms] by (auto simp: region_concatenate_def split: if_splits)
  moreover have "case region_difference_c a b out of (count, out') \<Rightarrow>
       if region_intersects a b
       then count \<le> 2 \<and> (\<forall>i<count. wf_mr (out' (2 * i))) \<and>
         mr_addrs a - mr_addrs b = (\<Union>i<count. mr_addrs (out' (2 * i))) \<and> out' 1 = out 1
       else count = 1 \<and>
         mr_addrs (out' 0) = mr_addrs a \<union> {mr_end a..<mr_start b} \<union> {mr_end b..<mr_start a}"
    using region_difference_sets [OF assms] region_difference_disjoint [OF assms]
    by (cases "region_difference_c a b out") auto
  ultimately show ?thesis
    unfolding region_can_concatenate_iff [OF assms] region_intersects_iff [OF assms] region_contains_iff
    using card_mr_addrs [OF assms(1)] by blast
qed

theorem c_regions_are_address_sets_witness:
  "let a = \<lparr>mr_start = 0x1000, mr_end = 0x5000\<rparr>; b = \<lparr>mr_start = 0x2000, mr_end = 0x3000\<rparr> in
   wf_mr a \<and> wf_mr b \<and> card (mr_addrs a) = 0x4000 \<and> 0x4FFF \<in> mr_addrs a \<and> mr_addrs a \<inter> mr_addrs b \<noteq> {} \<and>
   (case region_difference_c a b (\<lambda>i. b) of (count, out') \<Rightarrow>
      count = 2 \<and> out' 1 = b \<and> mr_addrs a - mr_addrs b = (\<Union>i<count. mr_addrs (out' (2 * i))))"
proof -
  let ?a = "\<lparr>mr_start = 0x1000, mr_end = 0x5000\<rparr>" and ?b = "\<lparr>mr_start = 0x2000, mr_end = 0x3000\<rparr>"
  have "wf_mr ?a" "wf_mr ?b" by (simp_all add: wf_mr_def)
  moreover have "region_intersects ?a ?b" "unat (region_length_c ?a) = 0x4000"
      "fst (region_difference_c ?a ?b (\<lambda>i. ?b)) = 2" "region_contains_c ?a 0x4FFF"
    by (simp_all add: region_intersects_def region_contains_c_def region_length_c_def
        region_difference_c_def)
  ultimately show ?thesis
    using c_regions_are_address_sets [of ?a ?b "0x4FFF" "\<lambda>i. ?b"]
    by (auto simp: Let_def split: prod.splits if_splits)
qed

end
