(* ===== verification/Libc_Number.thy ===== *)
theory Libc_Number
  imports Libc_String
begin

text \<open>
  Characters and numbers in the C library: the character classes (\<^verbatim>\<open>lib/libc/ctype\<close>), reading numbers
  (\<^verbatim>\<open>lib/libc/stdlib/strtol.c\<close>) and writing them (\<^verbatim>\<open>lib/libc/stdlib/itoa.c\<close>). An \<^verbatim>\<open>int\<close> and a \<^verbatim>\<open>long\<close> have
  32 bits and a \<^verbatim>\<open>long long\<close> has 64; their arithmetic wraps around, also where C leaves the overflow of
  a signed number undefined, as \<^verbatim>\<open>strtol\<close> does not check for it. \<open>None\<close> is a call that does not return
  or that reads outside the table of digits.
\<close>

section \<open>Character classes\<close>

definition isdigit :: "int \<Rightarrow> bool" where
  "isdigit c = (48 \<le> c \<and> c \<le> 57)"

definition islower :: "int \<Rightarrow> bool" where
  "islower c = (97 \<le> c \<and> c \<le> 122)"

definition isupper :: "int \<Rightarrow> bool" where
  "isupper c = (65 \<le> c \<and> c \<le> 90)"

definition isalpha :: "int \<Rightarrow> bool" where
  "isalpha c = (isupper c \<or> islower c)"

definition isalnum :: "int \<Rightarrow> bool" where
  "isalnum c = (isalpha c \<or> isdigit c)"

definition iscntrl :: "int \<Rightarrow> bool" where
  "iscntrl c = (0 \<le> c \<and> c \<le> 0x1F \<or> c = 0x7F)"

definition isspace :: "int \<Rightarrow> bool" where
  "isspace c = (c = 0x20 \<or> 0x09 \<le> c \<and> c \<le> 0x0D)"

definition isxdigit :: "int \<Rightarrow> bool" where
  "isxdigit c = (isdigit c \<or> 65 \<le> c \<and> c \<le> 70 \<or> 97 \<le> c \<and> c \<le> 102)"

definition isprint :: "int \<Rightarrow> bool" where
  "isprint c = (\<not> iscntrl c)"

definition ispunct :: "int \<Rightarrow> bool" where
  "ispunct c = (0x21 \<le> c \<and> c \<le> 0x2F \<or> 0x3a \<le> c \<and> c \<le> 0x40 \<or> 0x5b \<le> c \<and> c \<le> 0x60 \<or>
     0x7b \<le> c \<and> c \<le> 0x7e)"

definition isgraph :: "int \<Rightarrow> bool" where
  "isgraph c = (isprint c \<and> c \<noteq> 32)"

definition tolower :: "int \<Rightarrow> int" where
  "tolower c = (if isupper c then c - (65 - 97) else c)"

definition toupper :: "int \<Rightarrow> int" where
  "toupper c = (if islower c then c + (65 - 97) else c)"

section \<open>Reading numbers\<close>

abbreviation char_at :: "cmem \<Rightarrow> 32 word \<Rightarrow> int" where
  "char_at m p \<equiv> sint (m p)"

partial_function (option) skip_space :: "32 word \<Rightarrow> cmem \<Rightarrow> 32 word option" where
  "skip_space nptr m = (if isspace (char_at m nptr) then skip_space (nptr + 1) m else Some nptr)"

definition strto_sign :: "32 word \<Rightarrow> cmem \<Rightarrow> bool \<times> 32 word" where
  "strto_sign nptr m =
     (if char_at m nptr = 45 then (True, nptr + 1)
      else if char_at m nptr = 43 then (False, nptr + 1)
      else (False, nptr))"

definition strto_base :: "int \<Rightarrow> 32 word \<Rightarrow> cmem \<Rightarrow> int \<times> 32 word" where
  "strto_base base nptr m =
     (if base = 0 then
        if char_at m nptr = 48 then
          let nptr = nptr + 1
          in if tolower (char_at m nptr) = 120 then (16, nptr + 1) else (8, nptr)
        else (10, nptr)
      else (base, nptr))"

text \<open>The value of a digit, and the loop over the digits with the position of an invalid character.\<close>

definition digit_value :: "int \<Rightarrow> int" where
  "digit_value c = (if isdigit c then c - 48 else tolower c - 97 + 10)"

partial_function (option) strto_digits ::
    "int \<Rightarrow> 'a::len word \<Rightarrow> 32 word \<Rightarrow> cmem \<Rightarrow> ('a word \<times> 32 word option) option" where
  "strto_digits base num nptr m =
     (if m nptr \<noteq> 0 then
        if \<not> isalnum (char_at m nptr) then Some (num, Some nptr)
        else if base \<le> digit_value (char_at m nptr) then Some (num, Some nptr)
        else strto_digits base (num * of_int base + of_int (digit_value (char_at m nptr))) (nptr + 1) m
      else Some (num, None))"

text \<open>
  The width of the words is the one of the type that \<^verbatim>\<open>t\<close> selects. \<open>undef\<close> is the value of the variable
  \<^verbatim>\<open>num\<close> before its first assignment. The second part of the result is what is stored at \<^verbatim>\<open>endptr\<close>, if
  anything is.
\<close>

definition strtotype ::
    "'a::len word \<Rightarrow> 32 word \<Rightarrow> int \<Rightarrow> cmem \<Rightarrow> ('a word \<times> 32 word option) option" where
  "strtotype undef nptr base m =
     (if \<not> (base = 0 \<or> 2 \<le> base \<and> base \<le> 36) then Some (undef, Some nptr)
      else do {
        nptr \<leftarrow> skip_space nptr m;
        let (isNeg, nptr) = strto_sign nptr m;
        let (base, nptr) = strto_base base nptr m;
        (num, err) \<leftarrow> strto_digits base 0 nptr m;
        (case err of
           None \<Rightarrow> Some (num, None)
         | Some nptr \<Rightarrow> Some (if isNeg then - num else num, Some nptr)) })"

definition atoll :: "32 word \<Rightarrow> cmem \<Rightarrow> int option" where
  "atoll nptr m = do { (num, e) \<leftarrow> strtotype (0 :: 64 word) nptr 10 m; Some (sint num) }"

definition atol :: "32 word \<Rightarrow> cmem \<Rightarrow> int option" where
  "atol nptr m = do { (num, e) \<leftarrow> strtotype (0 :: 32 word) nptr 10 m; Some (sint num) }"

definition atoi :: "32 word \<Rightarrow> cmem \<Rightarrow> int option" where
  "atoi nptr m = do { (num, e) \<leftarrow> strtotype (0 :: 32 word) nptr 10 m; Some (sint num) }"

definition strtol :: "32 word \<Rightarrow> 32 word \<Rightarrow> int \<Rightarrow> cmem \<Rightarrow> (int \<times> 32 word option) option" where
  "strtol undef nptr base m = do { (num, e) \<leftarrow> strtotype undef nptr base m; Some (sint num, e) }"

definition strtoul :: "32 word \<Rightarrow> 32 word \<Rightarrow> int \<Rightarrow> cmem \<Rightarrow> (int \<times> 32 word option) option" where
  "strtoul undef nptr base m = do { (num, e) \<leftarrow> strtotype undef nptr base m; Some (uint num, e) }"

definition strtoll :: "64 word \<Rightarrow> 32 word \<Rightarrow> int \<Rightarrow> cmem \<Rightarrow> (int \<times> 32 word option) option" where
  "strtoll undef nptr base m = do { (num, e) \<leftarrow> strtotype undef nptr base m; Some (sint num, e) }"

definition strtoull :: "64 word \<Rightarrow> 32 word \<Rightarrow> int \<Rightarrow> cmem \<Rightarrow> (int \<times> 32 word option) option" where
  "strtoull undef nptr base m = do { (num, e) \<leftarrow> strtotype undef nptr base m; Some (uint num, e) }"

section \<open>Writing numbers\<close>

definition digits :: "8 word list" where
  "digits = map of_char ''0123456789abcdefghijklmnopqrstuvwxyz''"

definition digit_at :: "int \<Rightarrow> 8 word option" where
  "digit_at i = (if 0 \<le> i \<and> i < 36 then Some (digits ! nat i) else None)"

text \<open>
  The \<^verbatim>\<open>do\<close> loop that writes the digits from the last to the first, in unsigned arithmetic and in signed
  arithmetic.
\<close>

partial_function (option) put_digits ::
    "32 word \<Rightarrow> 32 word \<Rightarrow> 32 word \<Rightarrow> 32 word \<Rightarrow> cmem \<Rightarrow> (32 word \<times> cmem) option" where
  "put_digits base value str strEnd m = (
     let quot = base * (value div base)
     in do {
       c \<leftarrow> digit_at (uint (value - quot));
       let m = m(str + strEnd := c);
       let value = quot div base;
       if value \<noteq> 0 then put_digits base value str (strEnd + 1) m else Some (strEnd + 1, m) })"

definition c_div :: "int \<Rightarrow> int \<Rightarrow> int" where
  "c_div a b = (if 0 \<le> a then a div b else - (- a div b))"

partial_function (option) put_digits_signed ::
    "int \<Rightarrow> int \<Rightarrow> 32 word \<Rightarrow> 32 word \<Rightarrow> cmem \<Rightarrow> (32 word \<times> cmem) option" where
  "put_digits_signed base value str strEnd m = (
     let quot = base * c_div value base
     in do {
       c \<leftarrow> digit_at (value - quot);
       let m = m(str + strEnd := c);
       let value = c_div quot base;
       if value \<noteq> 0 then put_digits_signed base value str (strEnd + 1) m else Some (strEnd + 1, m) })"

function reverse_loop :: "32 word \<Rightarrow> 32 word \<Rightarrow> 32 word \<Rightarrow> cmem \<Rightarrow> cmem" where
  "reverse_loop i strEnd str m =
     (if i < strEnd then
        reverse_loop (i + 1) (strEnd - 1) str (m(str + i := m (str + strEnd), str + strEnd := m (str + i)))
      else m)"
  by pat_completeness auto

lemma reverse_measure:
  fixes i e :: "32 word"
  assumes "i < e"
  shows "unat (e - 1) = unat e - 1" and "unat (i + 1) = unat i + 1"
proof -
  have "e \<noteq> 0" using assms by auto
  then show "unat (e - 1) = unat e - 1" by (rule unat_minus_one)
  have "unat i + 1 < 2 ^ 32" using assms unat_less32 [of e] by (simp add: word_less_nat_alt)
  then show "unat (i + 1) = unat i + 1" by (simp add: unat_word_ariths)
qed

termination reverse_loop
  by (relation "measure (\<lambda>(i, e, str, m). unat e - unat i)")
    (auto simp: reverse_measure word_less_nat_alt)

declare reverse_loop.simps [simp del]

text \<open>The sign, and the reversal of what has been written; the result is the number of characters.\<close>

definition put_sign :: "bool \<Rightarrow> 32 word \<Rightarrow> 32 word \<times> cmem \<Rightarrow> 32 word \<times> cmem" where
  "put_sign negative str = (\<lambda>(strEnd, m).
     if negative then (strEnd + 1, m(str + strEnd := 45)) else (strEnd, m))"

definition finish_string :: "32 word \<Rightarrow> 32 word \<times> cmem \<Rightarrow> int \<times> cmem" where
  "finish_string str = (\<lambda>(strEnd, m).
     (sint strEnd, if strEnd \<noteq> 0 then reverse_loop 0 (strEnd - 1) str m else m))"

text \<open>\<^verbatim>\<open>memcpy\<close> of a string literal.\<close>

primrec store :: "32 word \<Rightarrow> 8 word list \<Rightarrow> cmem \<Rightarrow> cmem" where
  "store a [] m = m"
| "store a (x # xs) m = store (a + 1) xs (m(a := x))"

definition INT_MIN_STR :: "8 word list" where
  "INT_MIN_STR = map of_char ''-2147483648''"

definition LLONG_MIN_STR :: "8 word list" where
  "LLONG_MIN_STR = map of_char ''-9223372036854775808''"

definition itostr :: "32 word \<Rightarrow> 32 word \<Rightarrow> int \<Rightarrow> cmem \<Rightarrow> (int \<times> cmem) option" where
  "itostr value str base m = (
     let negative = (base = 10 \<and> sint value < 0)
     in if str = 0 \<or> base < 2 \<or> 36 < base then Some (- 1, m)
        else if negative \<and> value = 0x80000000 then Some (11, store str INT_MIN_STR m)
        else let value = (if negative then NOT value + 1 else value)
             in do { r \<leftarrow> put_digits (of_int base) value str 0 m;
                     Some (finish_string str (put_sign negative str r)) })"

definition uitostr :: "32 word \<Rightarrow> 32 word \<Rightarrow> int \<Rightarrow> cmem \<Rightarrow> (int \<times> cmem) option" where
  "uitostr value str base m =
     (if str = 0 \<or> base < 2 \<or> 36 < base then Some (- 1, m)
      else do { r \<leftarrow> put_digits (of_int base) value str 0 m; Some (finish_string str r) })"

definition litostr :: "32 word \<Rightarrow> 32 word \<Rightarrow> int \<Rightarrow> cmem \<Rightarrow> (int \<times> cmem) option" where
  "litostr value str base m = (
     let negative = (base = 10 \<and> sint value < 0)
     in if str = 0 \<or> base < 2 \<or> 36 < base then Some (- 1, m)
        else if negative \<and> value = 0x80000000 then Some (11, store str INT_MIN_STR m)
        else let value = (if negative then NOT value + 1 else value)
             in do { r \<leftarrow> put_digits_signed base (sint value) str 0 m;
                     Some (finish_string str (put_sign negative str r)) })"

definition ulitostr :: "32 word \<Rightarrow> 32 word \<Rightarrow> int \<Rightarrow> cmem \<Rightarrow> (int \<times> cmem) option" where
  "ulitostr value str base m =
     (if str = 0 \<or> base < 2 \<or> 36 < base then Some (- 1, m)
      else do { r \<leftarrow> put_digits (of_int base) value str 0 m; Some (finish_string str r) })"

text \<open>
  The numbers of 64 bits are written as two halves; the halves are taken before the sign is removed.
\<close>

definition put_halves :: "int \<Rightarrow> 64 word \<Rightarrow> 32 word \<Rightarrow> cmem \<Rightarrow> (32 word \<times> cmem) option" where
  "put_halves base value str m = (
     let low = ucast (value AND 0xFFFFFFFF); high = ucast (drop_bit 32 value)
     in do {
       (strEnd, m) \<leftarrow> put_digits (of_int base) low str 0 m;
       if high = 0 then Some (strEnd, m) else put_digits (of_int base) high str strEnd m })"

definition llitostr :: "64 word \<Rightarrow> 32 word \<Rightarrow> int \<Rightarrow> cmem \<Rightarrow> (int \<times> cmem) option" where
  "llitostr value str base m = (
     let negative = (base = 10 \<and> sint value < 0)
     in if str = 0 \<or> base < 2 \<or> 36 < base then Some (- 1, m)
        else if negative \<and> value = 0x8000000000000000 then Some (20, store str LLONG_MIN_STR m)
        else do { r \<leftarrow> put_halves base value str m;
                  Some (finish_string str (put_sign negative str r)) })"

definition ullitostr :: "64 word \<Rightarrow> 32 word \<Rightarrow> int \<Rightarrow> cmem \<Rightarrow> (int \<times> cmem) option" where
  "ullitostr value str base m =
     (if str = 0 \<or> base < 2 \<or> 36 < base then Some (- 1, m)
      else do { r \<leftarrow> put_halves base value str m; Some (finish_string str r) })"

text \<open>
  \<^verbatim>\<open>itoa\<close> calls \<^verbatim>\<open>itostr\<close>, which a header outside the sources declares; \<open>tostr\<close> is that function.
\<close>

definition itoa ::
    "(32 word \<Rightarrow> 32 word \<Rightarrow> int \<Rightarrow> cmem \<Rightarrow> (int \<times> cmem) option) \<Rightarrow>
     32 word \<Rightarrow> 32 word \<Rightarrow> int \<Rightarrow> cmem \<Rightarrow> (32 word \<times> cmem) option" where
  "itoa tostr value str base m = do {
     (end', m) \<leftarrow> tostr value str base m;
     if end' < 0 then Some (0, m) else Some (str, m(str + of_int end' := 0)) }"

section \<open>The number routines of the kernel\<close>

definition kitoa :: "32 word \<Rightarrow> 32 word \<Rightarrow> int \<Rightarrow> cmem \<Rightarrow> (int \<times> cmem) option" where
  "kitoa value str base m = (
     let negative = (base = 10 \<and> sint value < 0)
     in if base < 2 \<or> 36 < base then Some (- 1, m)
        else if negative \<and> value = 0x80000000 then Some (11, store str INT_MIN_STR m)
        else let value = (if negative then NOT value + 1 else value)
             in do { r \<leftarrow> put_digits_signed base (sint value) str 0 m;
                     Some (finish_string str (put_sign negative str r)) })"

definition kuitoa :: "32 word \<Rightarrow> 32 word \<Rightarrow> int \<Rightarrow> cmem \<Rightarrow> (int \<times> cmem) option" where
  "kuitoa value str base m =
     (if base < 2 \<or> 36 < base then Some (- 1, m)
      else do { r \<leftarrow> put_digits (of_int base) value str 0 m; Some (finish_string str r) })"

definition klitoa :: "32 word \<Rightarrow> 32 word \<Rightarrow> int \<Rightarrow> cmem \<Rightarrow> (int \<times> cmem) option" where
  "klitoa value str base m = (
     let negative = (base = 10 \<and> sint value < 0)
     in if base < 2 \<or> 36 < base then Some (- 1, m)
        else if negative \<and> value = 0x80000000 then Some (11, store str INT_MIN_STR m)
        else let value = (if negative then NOT value + 1 else value)
             in do { r \<leftarrow> put_digits_signed base (sint value) str 0 m;
                     Some (finish_string str (put_sign negative str r)) })"

definition kulitoa :: "32 word \<Rightarrow> 32 word \<Rightarrow> int \<Rightarrow> cmem \<Rightarrow> (int \<times> cmem) option" where
  "kulitoa value str base m =
     (if base < 2 \<or> 36 < base then Some (- 1, m)
      else do { r \<leftarrow> put_digits (of_int base) value str 0 m; Some (finish_string str r) })"

text \<open>\<open>None\<close> is also the failed assertion that the base is a power of two.\<close>

definition kllitoa :: "64 word \<Rightarrow> 32 word \<Rightarrow> int \<Rightarrow> cmem \<Rightarrow> (int \<times> cmem) option" where
  "kllitoa value str base m = (
     let negative = (base = 10 \<and> sint value < 0)
     in if base < 2 \<or> 36 < base then Some (- 1, m)
        else if base AND - base \<noteq> base then None
        else if negative \<and> value = 0x8000000000000000 then Some (20, store str LLONG_MIN_STR m)
        else do { r \<leftarrow> put_halves base value str m;
                  Some (finish_string str (put_sign negative str r)) })"

definition kullitoa :: "64 word \<Rightarrow> 32 word \<Rightarrow> int \<Rightarrow> cmem \<Rightarrow> (int \<times> cmem) option" where
  "kullitoa value str base m =
     (if base < 2 \<or> 36 < base then Some (- 1, m)
      else do { r \<leftarrow> put_halves base value str m; Some (finish_string str r) })"

section \<open>Strings in memory\<close>

lemma store_append: "store a (xs @ ys) m = store (a + of_nat (length xs)) ys (store a xs m)"
  by (induction xs arbitrary: a m) (simp_all add: add.assoc)

lemma store_eq:
  "length xs \<le> 2 ^ 32 \<Longrightarrow>
   store a xs m = (\<lambda>x. if x \<in> area a (length xs) then xs ! unat (x - a) else m x)"
proof (induction xs arbitrary: a m)
  case (Cons y xs)
  show ?case
  proof (rule ext)
    fix x
    have l: "length xs < 2 ^ 32" using Cons(2) by simp
    have IH: "store (a + 1) xs m' z =
        (if z \<in> area (a + 1) (length xs) then xs ! unat (z - (a + 1)) else m' z)" for m' z
      using Cons(1) [of "a + 1" m'] l by simp
    show "store a (y # xs) m x =
        (if x \<in> area a (length (y # xs)) then (y # xs) ! unat (x - a) else m x)"
      using area_head [OF l, of a] unat_sub_Suc [of x a]
      by (cases "x = a") (simp_all add: IH area_Suc [OF l])
  qed
qed simp

lemma store_cstr:
  assumes "length xs < 2 ^ 32" and "0 \<notin> set xs"
  shows "cstr (store a (xs @ [0]) m) a xs"
  using assms
proof (induction xs arbitrary: a m)
  case (Cons y xs)
  have l: "length (xs @ [0]) \<le> 2 ^ 32" "length (xs @ [0]) < 2 ^ 32" using Cons(2) by auto
  have "store (a + 1) (xs @ [0]) (m(a := y)) a = y"
    using store_eq [OF l(1), of "a + 1" "m(a := y)"] area_head [OF l(2), of a] by simp
  then show ?case using Cons by simp
qed simp

lemma reverse_loop_eq:
  assumes "unat i \<le> unat e + 1"
  shows "reverse_loop i e str m =
    (\<lambda>x. if i \<le> x - str \<and> x - str \<le> e then m (str + (i + e - (x - str))) else m x)"
  using assms
proof (induction i e str m rule: reverse_loop.induct)
  case (1 i e str m)
  show ?case
  proof (cases "i < e")
    case False
    then have ie: "e \<le> i" by simp
    have "reverse_loop i e str m = m" using False by (subst reverse_loop.simps) simp
    moreover have "m (str + (i + e - (x - str))) = m x" if "i \<le> x - str" "x - str \<le> e" for x
    proof -
      have "x - str = i" "i = e" using that ie by auto
      then have "x = str + e" by (metis add_diff_cancel_left' diff_add_cancel add.commute)
      then show ?thesis using \<open>i = e\<close> by simp
    qed
    ultimately show ?thesis by auto
  next
    case True
    note u = reverse_measure [OF True]
    let ?m = "m(str + i := m (str + e), str + e := m (str + i))"
    have s: "i + 1 + (e - 1) = i + e" by simp
    have le: "unat (i + 1) \<le> unat (e - 1) + 1" using True u by (simp add: word_less_nat_alt)
    have "reverse_loop i e str m = reverse_loop (i + 1) (e - 1) str ?m"
      using True by (subst reverse_loop.simps) simp
    also have "\<dots> = (\<lambda>x. if i + 1 \<le> x - str \<and> x - str \<le> e - 1 then ?m (str + (i + e - (x - str))) else ?m x)"
      by (rule 1(1) [OF True le, unfolded s])
    also have "\<dots> = (\<lambda>x. if i \<le> x - str \<and> x - str \<le> e then m (str + (i + e - (x - str))) else m x)"
    proof (rule ext)
      fix x
      define k where "k = x - str"
      have x: "x = str + k" by (simp add: k_def)
      have b: "i + 1 \<le> k \<longleftrightarrow> i < k" "k \<le> e - 1 \<longleftrightarrow> k < e"
        using u True by (auto simp: word_le_nat_alt word_less_nat_alt)
      have "i + e - k \<noteq> i" "i + e - k \<noteq> e" if "i < k" "k < e" using that by auto
      then show "(if i + 1 \<le> x - str \<and> x - str \<le> e - 1 then ?m (str + (i + e - (x - str))) else ?m x) =
          (if i \<le> x - str \<and> x - str \<le> e then m (str + (i + e - (x - str))) else m x)"
        unfolding k_def [symmetric] b unfolding x using True by (auto simp: order_le_less)
    qed
    finally show ?thesis .
  qed
qed

lemma finish_string_store:
  assumes "0 < length xs" and "length xs < 2 ^ 31"
  shows "finish_string str (of_nat (length xs), store str xs m) = (int (length xs), store str (rev xs) m)"
proof -
  let ?n = "length xs"
  have u: "unat (of_nat ?n :: 32 word) = ?n" using assms by (intro unat_of_nat_small) simp
  then have nz: "(of_nat ?n :: 32 word) \<noteq> 0" using assms by (metis unat_0 less_irrefl)
  have u1: "unat (of_nat ?n - 1 :: 32 word) = ?n - 1" using u unat_minus_one [OF nz] by simp
  have "sint (of_nat ?n :: 32 word) = int ?n"
    using assms by (simp add: sint_uint unsigned_of_nat take_bit_nat_eq_self signed_take_bit_int_eq_self)
  moreover have "reverse_loop 0 (of_nat ?n - 1) str (store str xs m) = store str (rev xs) m"
  proof (rule ext)
    fix x
    let ?k = "unat (x - str)"
    have in_area: "x \<in> area str ?n \<longleftrightarrow> x - str \<le> of_nat ?n - 1"
      unfolding area_def mem_Collect_eq word_le_nat_alt u1 using assms(1) by linarith
    show "reverse_loop 0 (of_nat ?n - 1) str (store str xs m) x = store str (rev xs) m x"
    proof (cases "x \<in> area str ?n")
      case True
      then have k: "?k < ?n" by (simp add: area_def)
      define j where "j = 0 + (of_nat ?n - 1) - (x - str)"
      have j: "unat j = ?n - 1 - ?k" using True in_area u1 by (simp add: j_def unat_sub)
      then have in_j: "str + j \<in> area str ?n" using assms(1) by (simp add: area_def)
      have "reverse_loop 0 (of_nat ?n - 1) str (store str xs m) x = store str xs m (str + j)"
        using True in_area by (simp add: reverse_loop_eq j_def)
      also have "\<dots> = xs ! (?n - 1 - ?k)"
        using in_j j assms by (simp add: store_eq)
      also have "\<dots> = store str (rev xs) m x" using True k assms by (simp add: store_eq rev_nth)
      finally show ?thesis .
    next
      case False
      then show ?thesis using in_area assms by (simp add: reverse_loop_eq store_eq)
    qed
  qed
  ultimately show ?thesis using nz by (simp add: finish_string_def)
qed

section \<open>The digits of a number\<close>

function digs :: "nat \<Rightarrow> nat \<Rightarrow> 8 word list" where
  "digs b v = digits ! (v mod b) # (if v div b = 0 \<or> b < 2 then [] else digs b (v div b))"
  by pat_completeness auto

termination digs
proof (relation "measure snd")
  fix b v :: nat
  assume "\<not> (v div b = 0 \<or> b < 2)"
  then have "0 < v" "1 < b" by (auto intro: gr0I)
  then show "((b, v div b), b, v) \<in> measure snd" by simp
qed simp

declare digs.simps [simp del]

lemma length_digits: "length digits = 36"
  by code_simp

lemma put_digits_eq:
  assumes "2 \<le> b" and "b \<le> 36"
  shows "put_digits (of_nat b) v str e m =
    Some (e + of_nat (length (digs b (unat v))), store (str + e) (digs b (unat v)) m)"
proof (induction "unat v" arbitrary: v e m rule: less_induct)
  case less
  let ?b = "of_nat b :: 32 word"
  have ub: "unat ?b = b" using assms by (intro unat_of_nat_small) simp
  have ud: "unat (v div ?b) = unat v div b" by (simp add: unat_div_distrib ub)
  have "unat (?b * (v div ?b)) = b * (unat v div b)"
  proof -
    have "b * (unat v div b) < 2 ^ 32"
      by (rule le_less_trans [OF _ unat_less32 [of v]]) simp
    then show ?thesis by (subst unat_word_ariths(2)) (simp add: ub ud)
  qed
  then have q: "?b * (v div ?b) div ?b = v div ?b"
    using assms(1) by (simp add: word_unat_eq_iff unat_div_distrib ub)
  have "v - ?b * (v div ?b) = v mod ?b" by (simp add: minus_mult_div_eq_mod)
  then have "uint (v - ?b * (v div ?b)) = int (unat v mod b)"
    by (metis uint_nat ub unat_mod_distrib)
  moreover have "unat v mod b < 36" using assms mod_less_divisor [of b "unat v"] by linarith
  ultimately have c: "digit_at (uint (v - ?b * (v div ?b))) = Some (digits ! (unat v mod b))"
    by (simp add: digit_at_def)
  have z: "v div ?b = 0 \<longleftrightarrow> unat v div b = 0" by (simp add: word_unat_eq_iff ud)
  let ?m = "m(str + e := digits ! (unat v mod b))"
  have step: "put_digits ?b v str e m =
      (if v div ?b \<noteq> 0 then put_digits ?b (v div ?b) str (e + 1) ?m else Some (e + 1, ?m))"
    by (subst put_digits.simps) (simp add: c q Let_def)
  show ?case
  proof (cases "v div ?b = 0")
    case True
    then show ?thesis using z step by (simp add: digs.simps [of b "unat v"])
  next
    case False
    then have "unat v div b < unat v" using z assms(1) by (intro div_less_dividend) (auto intro: gr0I)
    then have "put_digits ?b (v div ?b) str (e + 1) ?m =
        Some (e + 1 + of_nat (length (digs b (unat v div b))), store (str + (e + 1)) (digs b (unat v div b)) ?m)"
      using less [of "v div ?b" "e + 1" ?m] by (simp add: ud)
    then show ?thesis using False z assms(1) step
      by (simp add: digs.simps [of b "unat v"] add.assoc)
  qed
qed

lemma c_div_nat: "c_div (int a) (int b) = int (a div b)"
  by (simp add: c_div_def zdiv_int)

lemma put_digits_signed_eq:
  assumes "2 \<le> b" and "b \<le> 36"
  shows "put_digits_signed (int b) (int v) str e m =
    Some (e + of_nat (length (digs b v)), store (str + e) (digs b v) m)"
proof (induction v arbitrary: e m rule: less_induct)
  case (less v)
  have d: "c_div (int v) (int b) = int (v div b)" "c_div (int b * int (v div b)) (int b) = int (v div b)"
    using assms(1) c_div_nat [of v b] c_div_nat [of "b * (v div b)" b] by simp_all
  have "int v - int b * int (v div b) = int (v mod b)"
    by (metis minus_mult_div_eq_mod of_nat_mod zdiv_int)
  moreover have "v mod b < 36" using assms mod_less_divisor [of b v] by linarith
  ultimately have c: "digit_at (int v - int b * int (v div b)) = Some (digits ! (v mod b))"
    by (simp add: digit_at_def)
  let ?m = "m(str + e := digits ! (v mod b))"
  have step: "put_digits_signed (int b) (int v) str e m =
      (if v div b \<noteq> 0 then put_digits_signed (int b) (int (v div b)) str (e + 1) ?m else Some (e + 1, ?m))"
    unfolding put_digits_signed.simps [of "int b" "int v"] d c Let_def by simp
  show ?case
  proof (cases "v div b = 0")
    case True
    then show ?thesis using step by (simp add: digs.simps [of b v] fun_upd_def)
  next
    case False
    then have "v div b < v" using assms(1) by (intro div_less_dividend) (auto intro: gr0I)
    from less [OF this, of "e + 1" ?m] show ?thesis using False assms(1) step
      by (simp add: digs.simps [of b v] add.assoc fun_upd_def)
  qed
qed

lemma length_digs:
  assumes "2 \<le> b" and "v < b ^ Suc k"
  shows "length (digs b v) \<le> Suc k"
  using assms(2)
proof (induction k arbitrary: v)
  case 0
  then show ?case by (simp add: digs.simps [of b v])
next
  case (Suc k)
  then have "v div b < b ^ Suc k" using assms(1) by (simp add: less_mult_imp_div_less mult.commute)
  from Suc(1) [OF this] show ?case by (subst digs.simps) simp
qed

lemma digs_nonempty: "0 < length (digs b v)"
  by (subst digs.simps) simp

text \<open>The strings that the conversions write.\<close>

definition num_string :: "bool \<Rightarrow> nat \<Rightarrow> nat \<Rightarrow> 8 word list" where
  "num_string negative b v = (if negative then [45] else []) @ rev (digs b v)"

lemma length_num_string:
  assumes "2 \<le> b" and "v < 2 ^ 32"
  shows "0 < length (num_string neg b v)" and "length (num_string neg b v) \<le> 33"
    and "\<not> neg \<Longrightarrow> length (num_string neg b v) \<le> 32"
proof -
  have "v < b ^ Suc 31" using assms(2) power_mono [OF assms(1), of 32] by simp
  from length_digs [OF assms(1) this] show "length (num_string neg b v) \<le> 33"
      "\<not> neg \<Longrightarrow> length (num_string neg b v) \<le> 32"
    by (auto simp: num_string_def)
  show "0 < length (num_string neg b v)" using digs_nonempty [of b v] by (simp add: num_string_def)
qed

lemma finish_digits:
  assumes "2 \<le> b" and "v < 2 ^ 32"
  shows "finish_string str (put_sign neg str (of_nat (length (digs b v)), store str (digs b v) m)) =
    (int (length (num_string neg b v)), store str (num_string neg b v) m)"
proof -
  let ?s = "digs b v @ (if neg then [45] else [])"
  have s: "num_string neg b v = rev ?s" by (simp add: num_string_def)
  have l: "0 < length ?s" "length ?s < 2 ^ 31"
    using length_num_string [OF assms, of neg] unfolding s by auto
  have "put_sign neg str (of_nat (length (digs b v)), store str (digs b v) m) = (of_nat (length ?s), store str ?s m)"
    by (simp add: put_sign_def store_append)
  then show ?thesis using finish_string_store [OF l, of str m] unfolding s by simp
qed

lemma uitostr_string:
  assumes "str \<noteq> 0" and "2 \<le> b" and "b \<le> 36"
  shows "uitostr v str (int b) m =
    Some (int (length (num_string False b (unat v))), store str (num_string False b (unat v)) m)"
  using assms finish_digits [OF assms(2) unat_less32, of str False v m]
  by (simp add: uitostr_def put_digits_eq [OF assms(2,3)] put_sign_def)

lemma int_min_string: "num_string True 10 2147483648 = INT_MIN_STR"
  by (simp add: num_string_def digs.simps INT_MIN_STR_def digits_def)

text \<open>The number that \<^verbatim>\<open>itostr\<close> writes: the absolute value in base ten, the bits of the value otherwise.\<close>

definition shown :: "32 word \<Rightarrow> nat \<Rightarrow> bool \<times> nat" where
  "shown v b = (if b = 10 \<and> sint v < 0 then (True, unat (- v)) else (False, unat v))"

lemma itostr_string:
  assumes "str \<noteq> 0" and "2 \<le> b" and "b \<le> 36" and "shown v b = (neg, n)"
  shows "itostr v str (int b) m = Some (int (length (num_string neg b n)), store str (num_string neg b n) m)"
proof (cases "b = 10 \<and> sint v < 0")
  case True
  then have n: "neg" "n = unat (- v)" using assms(4) by (auto simp: shown_def)
  show ?thesis
  proof (cases "v = 0x80000000")
    case True
    have "n = 2147483648" using n True by simp
    moreover have "length INT_MIN_STR = 11" by code_simp
    ultimately show ?thesis
      using True n \<open>b = 10 \<and> sint v < 0\<close> assms(1) int_min_string by (simp add: itostr_def Let_def)
  next
    case False
    have "NOT v + 1 = - v" by (simp add: minus_eq_not_plus_1)
    then show ?thesis using False True n assms finish_digits [OF assms(2) unat_less32, of str True "- v" m]
        put_digits_eq [of 10 "- v" str 0 m] by (simp add: itostr_def Let_def)
  qed
next
  case False
  then have n: "\<not> neg" "n = unat v" using assms(4) by (auto simp: shown_def)
  have neg: "(int b = 10 \<and> sint v < 0) = False" using False by auto
  show ?thesis unfolding itostr_def Let_def neg
    using n assms(1-3) finish_digits [OF assms(2) unat_less32, of str False v m]
    by (simp add: put_digits_eq [OF assms(2,3)])
qed

section \<open>Reading digits\<close>

lemma digit_char: "d < 36 \<Longrightarrow> digits ! d = of_nat (if d < 10 then 48 + d else 87 + d)"
proof -
  assume d: "d < 36"
  have "digits = map (\<lambda>d. of_nat (if d < 10 then 48 + d else 87 + d)) [0..<36]" by code_simp
  from arg_cong [OF this, of "\<lambda>xs. xs ! d"] d show ?thesis by simp
qed

lemma sint_char: "n < 128 \<Longrightarrow> sint (of_nat n :: 8 word) = int n"
  by (simp add: sint_uint unsigned_of_nat take_bit_nat_eq_self signed_take_bit_int_eq_self)

lemma digit_chars:
  assumes "d < 36"
  shows "isalnum (sint (digits ! d))" "digit_value (sint (digits ! d)) = int d" "digits ! d \<noteq> 0"
    "\<not> isspace (sint (digits ! d))" "sint (digits ! d) \<noteq> 45" "sint (digits ! d) \<noteq> 43"
proof -
  have s: "sint (digits ! d) = (if d < 10 then 48 + int d else 87 + int d)"
    using assms by (simp add: digit_char sint_char del: of_nat_add)
  show "digits ! d \<noteq> 0"
  proof
    assume "digits ! d = 0"
    then show False using s by (simp split: if_splits)
  qed
  show "isalnum (sint (digits ! d))" "digit_value (sint (digits ! d)) = int d"
    "\<not> isspace (sint (digits ! d))" "sint (digits ! d) \<noteq> 45" "sint (digits ! d) \<noteq> 43"
    unfolding s using assms
    by (auto simp: isalnum_def isalpha_def isdigit_def islower_def isupper_def isspace_def digit_value_def tolower_def)
qed

lemma digs_are_digits:
  assumes "2 \<le> b"
  shows "set (digs b v) \<subseteq> (!) digits ` {..<b}"
proof (induction v rule: less_induct)
  case (less v)
  have "v mod b < b" using assms by simp
  moreover have "set (digs b (v div b)) \<subseteq> (!) digits ` {..<b}" if "v div b \<noteq> 0"
    using that assms by (intro less div_less_dividend) (auto intro: gr0I)
  ultimately show ?case by (subst digs.simps) auto
qed

lemma strto_digits_step:
  assumes "m p = digits ! d" and "d < b" and "b \<le> 36"
  shows "strto_digits (int b) num p m = strto_digits (int b) (num * of_nat b + of_nat d) (p + 1) m"
  using assms digit_chars [of d] by (subst strto_digits.simps) simp

lemma strto_digits_digs:
  fixes num :: "'a::len word"
  assumes "2 \<le> b" and "b \<le> 36" and "cstr m p (rev (digs b v) @ xs)"
  shows "strto_digits (int b) num p m =
    strto_digits (int b) (num * of_nat (b ^ length (digs b v)) + of_nat v) (p + of_nat (length (digs b v))) m"
  using assms(3)
proof (induction v arbitrary: xs num rule: less_induct)
  case (less v)
  let ?c = "digits ! (v mod b)"
  have vb: "v mod b < b" using assms(1) by simp
  show ?case
  proof (cases "v div b = 0")
    case True
    then have d: "digs b v = [?c]" by (subst digs.simps) simp
    then have "m p = ?c" "v mod b = v" using less(2) True assms(1) by (auto simp: div_eq_0_iff)
    then show ?thesis using strto_digits_step [OF _ vb assms(2)] by (simp add: d)
  next
    case False
    let ?ds = "digs b (v div b)"
    have d: "digs b v = ?c # ?ds" using False assms(1) by (subst digs.simps) simp
    have lt: "v div b < v" using False assms(1) by (intro div_less_dividend) (auto intro: gr0I)
    have s: "cstr m p (rev ?ds @ ?c # xs)" using less(2) by (simp add: d)
    then have "m (p + of_nat (length ?ds)) = ?c" using cstr_nth [OF s, of "length ?ds"] by (simp add: nth_append)
    then have "strto_digits (int b) num p m =
        strto_digits (int b) ((num * of_nat (b ^ length ?ds) + of_nat (v div b)) * of_nat b + of_nat (v mod b))
          (p + of_nat (length ?ds) + 1) m"
      using less(1) [OF lt s] strto_digits_step [OF _ vb assms(2)] by simp
    also have "(num * of_nat (b ^ length ?ds) + of_nat (v div b)) * of_nat b + of_nat (v mod b) =
        num * of_nat (b ^ length (digs b v)) + of_nat v"
    proof -
      have "of_nat v = of_nat (v div b) * of_nat b + (of_nat (v mod b) :: 'a word)"
        by (metis div_mult_mod_eq of_nat_add of_nat_mult)
      then show ?thesis by (simp add: d algebra_simps)
    qed
    finally show ?thesis by (simp add: d ac_simps)
  qed
qed

lemma num_string_nonzero: "2 \<le> b \<Longrightarrow> b \<le> 36 \<Longrightarrow> 0 \<notin> set (num_string neg b v)"
  using digs_are_digits [of b v] digit_chars(3) by (fastforce simp: num_string_def)

lemma num_string_head:
  assumes "2 \<le> b" and "b \<le> 36"
  shows "\<exists>d<36. hd (rev (digs b v)) = digits ! d"
proof -
  have "hd (rev (digs b v)) \<in> set (digs b v)"
    using digs_nonempty [of b v] by (metis hd_in_set length_greater_0_conv rev_is_Nil_conv set_rev)
  then obtain d where "d < b" "hd (rev (digs b v)) = digits ! d"
    using digs_are_digits [OF assms(1), of v] by blast
  then show ?thesis using assms(2) by (intro exI [of _ d]) simp
qed

lemma strtotype_num_string:
  fixes undef :: "'a::len word"
  assumes "2 \<le> b" and "b \<le> 36" and "cstr m p (num_string neg b v)"
  shows "strtotype undef p (int b) m = Some (of_nat v, None)"
proof -
  let ?ds = "rev (digs b v)"
  let ?q = "if neg then p + 1 else p"
  have q: "cstr m ?q ?ds" using assms(3) by (auto simp: num_string_def)
  obtain d where d: "d < 36" "hd ?ds = digits ! d" using num_string_head [OF assms(1,2)] by blast
  have "m ?q = digits ! d"
    using q d digs_nonempty [of b v] by (cases ?ds) auto
  note c = digit_chars [OF d(1), folded this]
  have "\<not> isspace (char_at m p)" using c(4) assms(3) by (cases neg) (auto simp: num_string_def isspace_def)
  then have "skip_space p m = Some p" by (subst skip_space.simps) simp
  moreover have "strto_sign p m = (neg, ?q)"
    using c(5,6) assms(3) by (cases neg) (auto simp: num_string_def strto_sign_def)
  moreover have "strto_base (int b) ?q m = (int b, ?q)" using assms(1) by (simp add: strto_base_def)
  moreover have "strto_digits (int b) 0 ?q m = Some (of_nat v :: 'a word, None)"
  proof -
    have "m (?q + of_nat (length (digs b v))) = 0" using cstr_end [OF q] by simp
    then show ?thesis using strto_digits_digs [OF assms(1,2), of m ?q v "[]" 0] q
      by (simp add: strto_digits.simps [of _ "of_nat v"])
  qed
  ultimately show ?thesis using assms(1,2) by (cases neg) (simp_all add: strtotype_def)
qed

text \<open>
  C38. Writing a number and reading it back: in every base from 2 to 36 \<^verbatim>\<open>itoa\<close> with \<^verbatim>\<open>itostr\<close> writes a
  terminated string of at most 34 bytes and changes no other memory, and \<^verbatim>\<open>strtol\<close> reads the number
  from it that was written, up to the sign: of a negative number in base ten, which is written with its
  sign, the absolute value is read, because the sign is only applied when reading stops at
  a character that is no digit.
\<close>

theorem itoa_strtol_roundtrip:
  assumes "str \<noteq> 0" and "2 \<le> b" and "b \<le> 36"
  shows "\<exists>s m'. itoa itostr v str (int b) m = Some (str, m') \<and> cstr m' str s \<and> length s \<le> 33 \<and>
      (\<forall>x. x \<notin> area str (length s + 1) \<longrightarrow> m' x = m x) \<and>
      strtol undef str (int b) m' =
        Some (if b = 10 \<and> sint v < 0 then sint (- v) else sint v, None)"
proof -
  obtain neg n where sh: "shown v b = (neg, n)" by (cases "shown v b")
  let ?s = "num_string neg b n" and ?m = "store str (num_string neg b n @ [0]) m"
  have n: "n < 2 ^ 32" using sh unat_less32 by (auto simp: shown_def split: if_splits)
  have l: "length ?s \<le> 33" by (rule length_num_string(2) [OF assms(2) n])
  have "itoa itostr v str (int b) m = Some (str, ?m)"
    using itostr_string [OF assms sh] by (simp add: itoa_def store_append)
  moreover have "cstr ?m str ?s"
    using store_cstr [of ?s str m] l num_string_nonzero [OF assms(2,3)] by simp
  moreover have "?m x = m x" if "x \<notin> area str (length ?s + 1)" for x
    using that store_eq [of "?s @ [0]" str m] l by simp
  moreover have "strtol undef str (int b) ?m =
      Some (if b = 10 \<and> sint v < 0 then sint (- v) else sint v, None)"
    using strtotype_num_string [OF assms(2,3) calculation(2), where undef = undef] sh
    by (auto simp: strtol_def shown_def split: if_splits)
  ultimately show ?thesis using l by (intro exI [of _ ?s] exI [of _ ?m]) auto
qed

theorem itoa_strtol_roundtrip_witness:
  "\<exists>s m'. itoa itostr (- 42) 0x1000 10 (\<lambda>x. 0) = Some (0x1000, m') \<and> cstr m' 0x1000 s \<and>
      strtol 0 0x1000 10 m' = Some (42, None)"
  using itoa_strtol_roundtrip [of "0x1000" 10 "- 42" "\<lambda>x. 0" 0] by auto

section \<open>Numbers of 64 bits\<close>

text \<open>
  The two halves of a number of 64 bits are written one behind the other, and the digits of the lower
  half are not filled up with zeros: different numbers have the same string.
\<close>

lemma put_halves_eq:
  assumes "2 \<le> b" and "b \<le> 36"
    and "low = (ucast (v AND 0xFFFFFFFF) :: 32 word)" and "high = (ucast (drop_bit 32 v) :: 32 word)"
  shows "put_halves (int b) v str m =
    (let ds = digs b (unat low) @ (if high = 0 then [] else digs b (unat high))
     in Some (of_nat (length ds), store str ds m))"
  using assms by (simp add: put_halves_def put_digits_eq Let_def store_append)

lemma ullitostr_ambiguous: "ullitostr 0x100000001 str 16 m = ullitostr 0x11 str 16 m"
  using put_halves_eq [of 16 _ "0x100000001", OF _ _ refl refl] put_halves_eq [of 16 _ "0x11", OF _ _ refl refl]
  by (simp add: ullitostr_def Let_def digs.simps)

text \<open>
  The routines of the kernel for numbers of 32 bits write the same strings; a negative number in a base
  other than ten leaves the table of digits when the arithmetic is signed.
\<close>

lemma kuitoa_uitostr: "str \<noteq> 0 \<Longrightarrow> kuitoa v str base m = uitostr v str base m"
  by (simp add: kuitoa_def uitostr_def)

lemma kitoa_nonneg:
  assumes "2 \<le> b" and "b \<le> 36" and "0 \<le> sint v" and "str \<noteq> 0"
  shows "kitoa v str (int b) m = itostr v str (int b) m"
proof -
  have v: "sint v = int (unat v)"
    using assms(3) sint_less [of v] by (simp add: uint_sint take_bit_int_eq_self)
  have "shown v b = (False, unat v)" using assms(3) by (simp add: shown_def)
  then show ?thesis
    using itostr_string [OF assms(4,1,2)] finish_digits [OF assms(1) unat_less32, of str False v m] assms
      put_digits_signed_eq [OF assms(1,2), of "unat v" str 0 m]
    by (simp add: kitoa_def Let_def v)
qed

lemma kitoa_negative_hex: "kitoa (- 1) str 16 m = None"
  by (simp add: kitoa_def put_digits_signed.simps c_div_def digit_at_def)

end
