(* ===== verification/Spec2Isabelle.thy ===== *)
theory Spec2Isabelle
  imports Kernel_Steps Example_State Phys_Alloc Pager Name_Map Circ_Queue Rtc Os_Util Libc_Number
begin

text \<open>
  Silverbox OS is a microkernel for the 32-bit x86 with servers and libraries in user space. This
  development models the kernel, the init server written in Rust with the library it uses, and the
  parts of the C libraries that compute rather than talk to a device, and proves what makes each of
  them correct. Where the code does not do what it means to do, the theorem states what it does.

  \<^bold>\<open>The program.\<close> The kernel (\<^verbatim>\<open>src/kernel\<close>) knows threads, address spaces, synchronous messages and
  interrupts. Threads are rows of a table, linked into lists: run queues by priority, the paused
  list, and a queue of waiting senders and one of waiting receivers per thread. A system call or an
  interrupt enters the kernel, changes the table and either returns to the caller or switches to
  the thread the scheduler picks. Page faults and exits become messages to a thread's handler,
  usually the init server (\<^verbatim>\<open>src/servers/init_server\<close>), which hands out page frames, keeps the address
  spaces of its clients, answers faults by asking the kernel to map a page, and keeps the map of
  server names. \<^verbatim>\<open>src/lib\<close> holds the C library, the OS library and the Rust library of the servers.

  \<^bold>\<open>Shared material.\<close> \<^verbatim>\<open>Prelude\<close> has the outcome type of kernel code (\<open>Ret\<close>: returned, \<open>Switch\<close>: left
  for user mode, \<open>Fault\<close>: assertion, panic or access outside the tables) and the combinators of
  state passing with their simplification rules (collection \<open>kexec\<close>), bit fields and alignment.
  \<^verbatim>\<open>Rust_Std\<close> has comparison, checked arithmetic and the ordered collections of Rust, whose laws are
  the locales \<open>keyed\<close> and \<open>ordered_keys\<close>; in Rust components \<open>None\<close> is a panic. \<^verbatim>\<open>Server_Error\<close> has the
  error codes of the init server. The C libraries work on a memory of bytes (\<open>cmem\<close>, \<^verbatim>\<open>Libc_String\<close>).

  \<^bold>\<open>Kernel.\<close>
  \<^item> \<^verbatim>\<open>Kernel_State\<close>: control blocks, processor table, lists and return codes
    (\<^verbatim>\<open>include/kernel/thread.h\<close>, \<^verbatim>\<open>error.h\<close>, \<^verbatim>\<open>lowlevel.h\<close>); the record \<open>kstate\<close> is the kernel's data.
  \<^item> \<^verbatim>\<open>Kernel_Mem\<close>, \<^verbatim>\<open>Mem_Frame\<close>: \<^verbatim>\<open>memset\<close> and \<^verbatim>\<open>memcpy\<close> of \<^verbatim>\<open>kernel/mem.c\<close> on physical memory seen through
    the temporary mapping window, and that they change nothing else.
  \<^item> \<^verbatim>\<open>Thread_List\<close>, \<^verbatim>\<open>Queue_Refinement\<close>: \<^verbatim>\<open>kernel/list.c\<close> and its refinement to lists of thread
    identifiers (locale \<open>thread_queue\<close>, interpreted as \<open>kq\<close>).
  \<^item> \<^verbatim>\<open>Kernel_Invariant\<close>: every thread is on exactly the list its state asks for.
  \<^item> \<^verbatim>\<open>Wait_Queue\<close>, \<^verbatim>\<open>Message\<close>: \<^verbatim>\<open>kernel/message.c\<close>. \<^verbatim>\<open>Thread\<close>, \<^verbatim>\<open>Thread_Create\<close>: \<^verbatim>\<open>kernel/thread.c\<close>.
    \<^verbatim>\<open>Schedule\<close>: \<^verbatim>\<open>kernel/schedule.c\<close>. \<^verbatim>\<open>Interrupt\<close>: \<^verbatim>\<open>kernel/interrupt.c\<close>.
  \<^item> \<^verbatim>\<open>Paging\<close>, \<^verbatim>\<open>Paging_Correct\<close>: \<^verbatim>\<open>kernel/paging.c\<close>; copying between address spaces against the page walk of
    the processor (\<open>x86_walk\<close>), and the contents of a new page directory.
  \<^item> \<^verbatim>\<open>Syscall_Thread\<close>, \<^verbatim>\<open>Syscall_Page\<close>, \<^verbatim>\<open>Syscall\<close>: the handlers, the table and the entry path of
    \<^verbatim>\<open>kernel/syscall.c\<close> with the stub of \<^verbatim>\<open>include/os/syscalls.h\<close>.
  \<^item> \<^verbatim>\<open>Kernel_Steps\<close>: the kernel as a transition system and the invariant of the states it reaches.
    Its steps are the thread operations, scheduling, message calls between two given threads, the
    sleep calls and interrupts; the operations that can lose a thread, among them the message calls
    to or from any thread, are modelled and treated apart.
    \<^verbatim>\<open>Example_State\<close>: a small system on which the statements are instantiated.

  \<^bold>\<open>Init server and its library.\<close>
  \<^item> \<^verbatim>\<open>Bit_Array\<close>: \<^verbatim>\<open>lib/librust/src/types.rs\<close> and \<^verbatim>\<open>align.rs\<close>; bit arrays are sets, and the iterator is a
    linear search (locale \<open>bit_search\<close>). \<^verbatim>\<open>Region\<close>: \<^verbatim>\<open>region.rs\<close> (locale \<open>region_algebra\<close>).
  \<^item> \<^verbatim>\<open>Phys_Alloc\<close>: \<^verbatim>\<open>phys_alloc.rs\<close>, the hierarchy of bit arrays that hands out page frames.
  \<^item> \<^verbatim>\<open>Addr_Space\<close>: \<^verbatim>\<open>device.rs\<close>, \<^verbatim>\<open>page.rs\<close>, \<^verbatim>\<open>mapping.rs\<close>. \<^verbatim>\<open>Pager\<close>: \<^verbatim>\<open>pager.rs\<close> and the kernel messages of
    \<^verbatim>\<open>lib/librust/src/message.rs\<close>. \<^verbatim>\<open>Name_Map\<close>: \<^verbatim>\<open>name.rs\<close>.

  \<^bold>\<open>C libraries.\<close>
  \<^item> \<^verbatim>\<open>Libc_String\<close>: \<^verbatim>\<open>lib/libc/string\<close>. \<^verbatim>\<open>Libc_Number\<close>: \<^verbatim>\<open>lib/libc/ctype\<close>, \<^verbatim>\<open>lib/libc/stdlib/strtol.c\<close> and
    \<^verbatim>\<open>itoa.c\<close>, numbers to text and back, with signed arithmetic that wraps around where C leaves an
    overflow undefined.
  \<^item> \<^verbatim>\<open>Libc_Time\<close>: \<^verbatim>\<open>gmtime.c\<close> and \<^verbatim>\<open>mktime.c\<close> of \<^verbatim>\<open>lib/libc/time\<close> against the Gregorian calendar. \<^verbatim>\<open>Rtc\<close>:
    the clock server \<^verbatim>\<open>servers/rtc_server\<close>, from the registers of the clock to seconds.
  \<^item> \<^verbatim>\<open>Circ_Queue\<close>: \<^verbatim>\<open>lib/libos/ostypes/circbuffer.c\<close> and \<^verbatim>\<open>cqueue.c\<close>. \<^verbatim>\<open>Os_Util\<close>: memory regions, bit arrays
    and byte order of the OS library.

  \<^bold>\<open>Bounds and loops.\<close> Machine integers are words of their width, so additions wrap as in the code. The
  loops of the string functions, which may run forever, are partial functions whose value \<open>None\<close>
  means that they do not return; where a function returns this is part of what is proved. Two
  loops take fuel: the one of \<open>thread_release\<close>, with one unit per thread of the table, which no list
  is longer than, and the block search of the allocator, with one unit more than the blocks there
  are, as an iterator yields no bit twice. Running out of it would be the fault \<open>Hang\<close> in the kernel
  and a panic in the server; that the kernel's loop returns is part of the theorem on it.

  \<^bold>\<open>Not modelled.\<close> The start-up code of the kernel, drivers and debug output: sequences of port accesses
  and stores to hardware tables. Assembly entry code, whose register contents are part of the
  handlers' arguments. \<^verbatim>\<open>malloc\<close>, a copy of a public allocator, whose result is an argument of the
  functions that call it. Buffered files, formatted output and the wrappers that send a message and
  return the answer. The C init server \<^verbatim>\<open>servers/init_old2\<close>, which uses names and types that the
  headers do not declare. The older servers under \<^verbatim>\<open>apps\<close> and \<^verbatim>\<open>servers\<close>, which no makefile builds.
\<close>

section \<open>The kernel invariant\<close>

lemma ex_kok: "kok ex_state"
  using ex_kinv by (auto simp: kok_def)

text \<open>
  C1. Every state the kernel reaches from a state that satisfies the kernel invariant by the steps
  of \<open>kstep\<close> satisfies it again: each thread is on exactly the list its state asks for, the lists
  are well-formed, and the running threads are the current threads of the processors. The steps are
  starting, pausing and waking a thread, scheduling, sending a message to a given thread
  and receiving one from a given thread, the sleep calls, and interrupts with their registration.
  Not among them are messages to or from any thread, which can break the invariant
  (\<open>send_to_any_loses_receiver\<close>), the updates of a control block by a system call, which
  can as well (\<open>update_tcb_pause_loses_thread\<close>), the creation and the release of threads, and
  exceptions.
\<close>

theorem reachable_invariant:
  assumes "kstep\<^sup>*\<^sup>* s s'" and "kok s"
  shows "\<exists>Q. kinv s' Q"
  using reachable_kok [OF assms] by (simp add: kok_def)

theorem reachable_invariant_witness:
  "let s' = upd_tcb 1 (disabled 3) (set_irq_handler 3 None ex_state) in
   kok ex_state \<and> kstep\<^sup>*\<^sup>* ex_state s' \<and> (\<exists>Q. kinv s' Q)"
proof -
  let ?s = "upd_tcb 1 (disabled 3) (set_irq_handler 3 None ex_state)"
  have "kstep ex_state ?s"
    by (rule kstep.irq_unregister [of 1 3]) (simp_all add: irq_unregister_eq)
  then have "kstep\<^sup>*\<^sup>* ex_state ?s" ..
  then show ?thesis using reachable_invariant [OF _ ex_kok] ex_kok by (simp add: Let_def)
qed

section \<open>Scheduling\<close>

text \<open>
  C2. \<^verbatim>\<open>schedule\<close> implements strict priorities with round-robin service: it runs the thread that
  has waited longest in the highest non-empty run queue, puts the thread it replaces at the end
  of its own run queue, and no ready thread has a higher priority than the one chosen. If every
  ready thread has a lower priority than the current one, the current thread goes on; without a
  current thread and a ready thread the kernel panics.
\<close>

theorem schedule_runs_highest:
  assumes k: "kinv s Q" and pid: "pid < num_processors s"
  defines "cur \<equiv> running_thread (processors s pid)"
  shows "case pick Q (min_priority_of s pid) NUM_PRIORITIES of
       Some p \<Rightarrow> \<exists>s'. schedule pid s = Ret (last (Q (RunQueue p))) s' \<and>
           kinv s' (requeued s cur (Q(RunQueue p := butlast (Q (RunQueue p))))) \<and>
           strip s' = dispatched pid cur (last (Q (RunQueue p))) (strip s) \<and>
           (\<forall>t. is_thread t \<longrightarrow> thread_state (tcb_table s t) = READY \<longrightarrow>
              unat (priority (tcb_table s t)) \<le> p)
     | None \<Rightarrow> schedule pid s = (case cur of Some c \<Rightarrow> Ret c s | None \<Rightarrow> Fault Panic) \<and>
         (\<forall>t. is_thread t \<longrightarrow> thread_state (tcb_table s t) = READY \<longrightarrow>
              unat (priority (tcb_table s t)) < min_priority_of s pid)"
proof -
  have q: "Q (RunQueue (unat (priority (tcb_table s t)))) \<noteq> []"
      "unat (priority (tcb_table s t)) < NUM_PRIORITIES"
    if "is_thread t" "thread_state (tcb_table s t) = READY" for t
    using kinv_fields(1) [OF k that(1)] that(2)
      kinv_fields(3) [OF k that(1), of "RunQueue (unat (priority (tcb_table s t)))"]
    by (auto simp: loc_def)
  show ?thesis
  proof (cases "pick Q (min_priority_of s pid) NUM_PRIORITIES")
    case None
    then have "unat (priority (tcb_table s t)) < min_priority_of s pid"
      if "is_thread t" "thread_state (tcb_table s t) = READY" for t
      using q [OF that] unfolding pick_None by (meson not_less)
    then show ?thesis using schedule_refines [OF k pid] None unfolding cur_def by simp
  next
    case (Some p)
    then have "unat (priority (tcb_table s t)) \<le> p"
      if "is_thread t" "thread_state (tcb_table s t) = READY" for t
      using q [OF that] unfolding pick_Some by (metis not_less)
    then show ?thesis
      using schedule_refines [OF k pid] Some unfolding cur_def by (auto simp del: fun_upd_apply)
  qed
qed

theorem schedule_runs_highest_witness:
  "\<exists>s'. schedule 0 ex_state = Ret 2 s' \<and>
     kinv s' (requeued ex_state (Some 1) (ex_Q(RunQueue 2 := [3])))"
proof -
  have "min_priority_of ex_state 0 = 2"
    by (simp add: min_priority_of_def ex_tcb_state NORMAL_PRIORITY_def)
  moreover have "ex_Q (RunQueue 2) = [3, 2]" by (simp add: ex_Q_def)
  ultimately show ?thesis
    using schedule_runs_highest [OF ex_kinv, of 0] by (auto simp: ex_pick simp del: fun_upd_apply)
qed

section \<open>Thread lists\<close>

text \<open>
  C3. The lists are first-in first-out queues: threads put on an empty list with
  \<^verbatim>\<open>list_enqueue\<close> leave it with \<^verbatim>\<open>list_dequeue\<close> in the order in which they entered, all lists are
  as before, and nothing but links and list heads has changed in between.
\<close>

theorem list_fifo:
  assumes "repr s Q" and "queue_ref r" and "Q r = []" and "\<forall>t\<in>set ts. is_thread t"
    and "distinct ts" and "set ts \<inter> members Q = {}"
  shows "\<exists>s'. kthen (kseq (map (list_enqueue r) ts)) (kmapM (\<lambda>_. list_dequeue r) ts) s =
       Ret (map Some ts) s' \<and> repr s' Q \<and> strip s' = strip s"
  using kq.fifo [OF assms] .

theorem list_fifo_witness:
  "\<exists>s'. kthen (kseq (map (list_enqueue (RunQueue 4)) [8, 1]))
      (kmapM (\<lambda>_. list_dequeue (RunQueue 4)) [8, 1]) ex_state = Ret [Some 8, Some 1] s' \<and>
      repr s' ex_Q \<and> strip s' = strip ex_state"
  using list_fifo [OF ex_repr, of "RunQueue 4" "[8, 1]"]
  by (simp add: table_sizes ex_members ex_Q_def)

text \<open>
  C5. \<^verbatim>\<open>list_remove\<close> unlinks a thread from anywhere in its list - head, middle or tail - and
  leaves every other thread where it was; on a thread that is on no list it does nothing.
\<close>

theorem list_remove_unlinks:
  assumes "repr s Q" and "queue_ref r" and "is_thread t" and "t \<in> members Q \<Longrightarrow> t \<in> set (Q r)"
  shows "\<exists>s'. list_remove r t s = Ret () s' \<and> repr s' (Qdel t Q) \<and> strip s' = strip s"
  using kq.del_any [OF assms] .

theorem list_remove_unlinks_witness:
  "\<exists>s'. list_remove (RunQueue 2) 3 ex_state = Ret () s' \<and> repr s' (Qdel 3 ex_Q) \<and>
      strip s' = strip ex_state"
  using list_remove_unlinks [OF ex_repr, of "RunQueue 2" 3] by (simp add: table_sizes ex_Q_def)

section \<open>Threads\<close>

text \<open>
  C8. \<^verbatim>\<open>thread_start\<close> on a thread that is paused or waiting for a message takes it off its list,
  makes it ready and appends it to the run queue of its priority; nothing else changes. On a
  ready or running thread it returns \<^verbatim>\<open>E_DONE\<close>, on any other it fails, both without effect.
\<close>

theorem thread_start_effect:
  assumes "kinv s Q" and "is_thread t"
  shows "case thread_state (tcb_table s t) of
       READY \<Rightarrow> thread_start t s = Ret E_DONE s
     | RUNNING \<Rightarrow> thread_start t s = Ret E_DONE s
     | INACTIVE \<Rightarrow> thread_start t s = Ret E_FAIL s
     | ZOMBIE \<Rightarrow> thread_start t s = Ret E_FAIL s
     | SLEEPING \<Rightarrow> thread_start t s = Ret E_FAIL s
     | _ \<Rightarrow> \<exists>s'. thread_start t s = Ret E_OK s' \<and> kinv s' (moved t (run_queue s t) Q) \<and>
         strip s' = upd_tcb t (\<lambda>c. c\<lparr>thread_state := READY\<rparr>) (detached t (strip s))"
  using thread_start_kinv [OF assms] thread_start_noop [OF assms(2), of s]
  by (cases "thread_state (tcb_table s t)") simp_all

theorem thread_start_effect_witness:
  "thread_start 1 ex_state = Ret E_DONE ex_state \<and>
   (\<exists>s'. thread_start 4 ex_state = Ret E_OK s' \<and>
      kinv s' (ex_Q(PausedList := [], RunQueue 2 := [4, 3, 2])))"
proof -
  have "moved 4 (run_queue ex_state 4) ex_Q = ex_Q(PausedList := [], RunQueue 2 := [4, 3, 2])"
    by (rule ext) (auto simp: moved_def Qdel_def run_queue_def ex_tcb_state NORMAL_PRIORITY_def
        ex_Q_def split: list_ref.split)
  then show ?thesis
    using thread_start_effect [OF ex_kinv, of 1] thread_start_effect [OF ex_kinv, of 4]
    by (auto simp: ex_tcb_state simp del: fun_upd_apply)
qed

text \<open>
  C9. \<^verbatim>\<open>thread_pause\<close> on a ready, running or waiting thread takes it off its list or processor and
  puts it on the list of paused threads; a paused thread stays as it is (\<^verbatim>\<open>E_DONE\<close>), any other
  is refused without effect.
\<close>

theorem thread_pause_effect:
  assumes "kinv s Q" and "is_thread t"
  shows "case thread_state (tcb_table s t) of
       PAUSED \<Rightarrow> thread_pause t s = Ret E_DONE s
     | INACTIVE \<Rightarrow> thread_pause t s = Ret E_FAIL s
     | ZOMBIE \<Rightarrow> thread_pause t s = Ret E_FAIL s
     | SLEEPING \<Rightarrow> thread_pause t s = Ret E_FAIL s
     | _ \<Rightarrow> \<exists>s'. thread_pause t s = Ret E_OK s' \<and> kinv s' (moved t PausedList Q) \<and>
         strip s' = upd_tcb t (\<lambda>c. c\<lparr>thread_state := PAUSED\<rparr>) (detached t (strip s))"
  using thread_pause_kinv [OF assms] thread_pause_noop [OF assms(2), of s]
  by (cases "thread_state (tcb_table s t)") simp_all

theorem thread_pause_effect_witness:
  "\<exists>s'. thread_pause 1 ex_state = Ret E_OK s' \<and> kinv s' (ex_Q(PausedList := [1, 4])) \<and>
     thread_get_current s' = None"
proof -
  have "moved 1 PausedList ex_Q = ex_Q(PausedList := [1, 4])"
    by (rule ext) (auto simp: moved_def Qdel_def ex_Q_def split: list_ref.split)
  then obtain s' where s': "thread_pause 1 ex_state = Ret E_OK s'"
      "kinv s' (ex_Q(PausedList := [1, 4]))"
      "strip s' = upd_tcb 1 (\<lambda>c. c\<lparr>thread_state := PAUSED\<rparr>) (detached 1 (strip ex_state))"
    using thread_pause_effect [OF ex_kinv, of 1] by (auto simp: ex_tcb_state simp del: fun_upd_apply)
  moreover have "thread_get_current s' = None"
    using strip_fields(8) [OF s'(3)]
    by (simp add: thread_get_current_def processor_get_current_def detached_def cpu_drop_def
        ex_tcb_state)
  ultimately show ?thesis by blast
qed

text \<open>
  C30. \<^verbatim>\<open>thread_release\<close> makes a thread inactive, removes it from its list or processor and
  deregisters its interrupt handlers. The threads waiting to send to it are woken with
  \<^verbatim>\<open>E_UNREACH\<close> and become ready, but are put on no run queue, so that no scheduling decision can
  choose them; the threads waiting to receive from it go on waiting.
\<close>

theorem thread_release_effect:
  assumes "kinv s Q" and "is_thread t" and "thread_state (tcb_table s t) \<notin> {INACTIVE, SLEEPING}"
  defines "W \<equiv> set (Q (SenderQueue t)) - {t}"
  defines "Q' \<equiv> (Qdel t Q)(SenderQueue t := [])"
  shows "\<exists>s'. thread_release t s = Ret E_OK s' \<and> kinv_ex W s' Q' \<and>
     thread_state (tcb_table s' t) = INACTIVE \<and>
     (\<forall>n<NUM_IRQS. irq_handlers s' n \<noteq> Some t) \<and>
     (\<forall>w\<in>W. thread_state (tcb_table s' w) = READY \<and> w \<notin> members Q' \<and>
        eax (user_exec_state (tcb_table s' w)) = code32 E_UNREACH) \<and>
     (\<forall>w\<in>set (Q (ReceiverQueue t)) - {t} - W.
        thread_state (tcb_table s' w) = thread_state (tcb_table s w) \<and> w \<in> set (Q' (ReceiverQueue t)))"
proof -
  obtain s' where s': "thread_release t s = Ret E_OK s'" "kinv_ex W s' Q'"
      "strip s' = upd_tcb t (\<lambda>c. c\<lparr>thread_state := INACTIVE\<rparr>)
         (unregister_handlers t (unreach_all W (detached t (strip s))))"
    using thread_release_kinv [OF assms(1-3)] unfolding W_def Q'_def by blast
  note f = strip_fields(3,4) [OF s'(3)] and e = strip_env(2) [OF s'(3)]
  have tb: "thread_state (tcb_table (detached t (strip s)) w) = thread_state (tcb_table s w)" for w
    by (auto simp: detached_def split: thread_state_t.split)
  have "\<forall>n<NUM_IRQS. irq_handlers s' n \<noteq> Some t"
    using e by (simp add: unregister_handlers_def)
  moreover have "thread_state (tcb_table s' t) = INACTIVE" using f(1) [of t] by simp
  moreover have "thread_state (tcb_table s' w) = READY \<and> w \<notin> members Q' \<and>
      eax (user_exec_state (tcb_table s' w)) = code32 E_UNREACH" if "w \<in> W" for w
    using f [of w] that kinv_exD(4) [OF s'(2) that]
    by (auto simp: W_def unregister_handlers_def unreach_all_def unreach_tcb_def upd_regs_def)
  moreover have "thread_state (tcb_table s' w) = thread_state (tcb_table s w) \<and>
      w \<in> set (Q' (ReceiverQueue t))" if "w \<in> set (Q (ReceiverQueue t)) - {t} - W" for w
    using f(1) [of w] that tb [of w]
    by (auto simp: unregister_handlers_def unreach_all_def Q'_def Qdel_def)
  ultimately show ?thesis using s'(1,2) by blast
qed

theorem thread_release_effect_witness:
  "\<exists>s'. thread_release 1 ex_state = Ret E_OK s' \<and> thread_state (tcb_table s' 1) = INACTIVE \<and>
     thread_state (tcb_table s' 6) = READY \<and> 6 \<notin> members ((Qdel 1 ex_Q)(SenderQueue 1 := [])) \<and>
     thread_state (tcb_table s' 5) = WAIT_FOR_SEND"
proof -
  have "set (ex_Q (SenderQueue 1)) - {1} = {6}" "set (ex_Q (ReceiverQueue 1)) - {1} - {6} = {5}"
    by (simp_all add: ex_Q_def)
  then show ?thesis
    using thread_release_effect [OF ex_kinv, of 1] by (auto simp: ex_tcb_state simp del: fun_upd_apply)
qed

section \<open>Messages\<close>

text \<open>
  C7. A message to a thread that waits for it is delivered: \<^verbatim>\<open>send_message\<close> copies as many bytes
  as fit, wakes the recipient into the run queue of its priority, tells it sender, flags,
  subject and length in its registers, and tells the sender whom it reached and how many bytes
  went over. Nothing else changes.
\<close>

theorem send_message_delivers:
  assumes "kinv s Q" and "is_thread sender" and "is_thread r" and "r \<noteq> sender"
    and "\<not> (len > 0 \<and> buffer = 0)"
    and "send_ready (IS_FLAG_SET flags MSG_KERNEL) sender (tcb_table s r)"
    and "\<not> wait_for_kernel_msg (tcb_table s r) \<or> wait_tid (tcb_table s r) = NULL_TID"
    and "n = min (edi (user_exec_state (tcb_table s r))) len"
    and "poke_virt (ebx (user_exec_state (tcb_table s r))) n buffer (root_pmap (tcb_table s r)) s =
      Ret e s1" and "\<not> IS_ERROR e"
  shows "\<exists>s'. send_message sender r subject flags buffer len s = Ret E_OK s' \<and>
     kinv s' (moved r (run_queue s r) Q) \<and>
     strip s' = upd_tcb sender (sent r n)
       (upd_tcb r (delivered (IS_FLAG_SET flags MSG_KERNEL) sender subject flags n)
         (upd_tcb r (\<lambda>c. c\<lparr>wait_tid := NULL_TID, thread_state := READY\<rparr>) (strip s1)))"
proof -
  have "thread_state (tcb_table s r) = WAIT_FOR_SEND" using assms(6) by (simp add: send_ready_def)
  then show ?thesis
    using deliver_kinv [OF assms(1-3) _ _ assms(7-10)] assms(3,4)
      send_message_ready [OF assms(4) _ _ assms(5,6)] by auto
qed

lemma ex_root: "get_root_page_map (ex_mem m) = 0x1000"
  by (simp add: get_root_page_map_def CR3_BASE_MASK_def PAGE_BASE_MASK_def PAGE_SIZE_def)

lemma ex_poke:
  "poke_virt 0x8000 1 0x9000 0x1000 (ex_mem m) = Ret E_OK (ex_mem (m(0x8000 := m 0x9000)))"
proof -
  have w: "\<not> in_window 0x8000" "\<not> in_window 0x9000"
    by (simp_all add: in_window_def KERNEL_TEMP_START_def)
  have "memcpy 0x8000 0x9000 1 (ex_mem m) = Ret 0x8000 (ex_mem (m(0x8000 := m 0x9000)))"
    using w
    by (simp add: memcpy_def kthen_def kbind_def ex_ld8 st8_def translate_def kskip_def kret_def)
      (simp add: ex_mem_def set_phys_def)
  then show ?thesis by (simp add: ex_root poke_virt_def kthen_def kbind_def kget_def kret_def)
qed

theorem send_message_delivers_witness:
  "\<exists>s'. send_message 1 5 7 0 0x9000 1 (ex_mem (\<lambda>p. if p = 0x9000 then 42 else 0)) = Ret E_OK s' \<and>
     kinv s' (moved 5 (run_queue ex_state 5) ex_Q) \<and> phys s' 0x8000 = 42"
proof -
  let ?m = "\<lambda>p :: paddr. if p = 0x9000 then 42 else 0 :: 8 word"
  have r: "send_ready (IS_FLAG_SET 0 MSG_KERNEL) 1 (tcb_table (ex_mem ?m) 5)"
    by (simp add: send_ready_def ex_tcb_state IS_FLAG_SET_def)
  have p: "poke_virt (ebx (user_exec_state (tcb_table (ex_mem ?m) 5))) 1 0x9000
      (root_pmap (tcb_table (ex_mem ?m) 5)) (ex_mem ?m) = Ret E_OK (ex_mem (?m(0x8000 := 42)))"
    using ex_poke [of ?m] by (simp add: ex_tcb_state)
  obtain s' where s': "send_message 1 5 7 0 0x9000 1 (ex_mem ?m) = Ret E_OK s'"
      "kinv s' (moved 5 (run_queue (ex_mem ?m) 5) ex_Q)"
      "strip s' = upd_tcb 1 (sent 5 1) (upd_tcb 5 (delivered (IS_FLAG_SET 0 MSG_KERNEL) 1 7 0 1)
         (upd_tcb 5 (\<lambda>c. c\<lparr>wait_tid := NULL_TID, thread_state := READY\<rparr>)
           (strip (ex_mem (?m(0x8000 := 42))))))"
    using send_message_delivers [OF ex_mem_kinv _ _ _ _ r _ _ p, where len = 1 and subject = 7]
    by (auto simp: ex_tcb_state error_codes)
  have "phys s' = phys (strip s')" by simp
  then have "phys s' 0x8000 = 42" unfolding s'(3) by simp
  then show ?thesis using s' by (auto simp: run_queue_def)
qed

text \<open>
  C6. Into another address space the message is copied byte by byte through the recipient's page
  tables: if the processor's page walk over the recipient's page directory yields a physical address
  for every byte of the buffer, \<^verbatim>\<open>poke_virt\<close> succeeds, the bytes end up at these addresses, and no
  other physical memory changes. The buffer lies in pages of 4 KiB or in the first 4 KiB of a large
  page: elsewhere in a large page the kernel writes to another address, as
  \<open>poke_virt_large_page\<close> shows.
\<close>

theorem poke_virt_copies:
  assumes "pdir \<noteq> get_root_page_map s" and "pdir \<noteq> CURRENT_ROOT_PMAP" and "address \<noteq> 0"
    and "length xs = unat len"
    and "\<And>i. i < length xs \<Longrightarrow> vreads s R (buffer + of_nat i) (xs ! i)"
    and "\<And>i. i < length xs \<Longrightarrow> x86_maps s R pdir (address + of_nat i) (W i)"
    and "\<And>i. i < length xs \<Longrightarrow> in_large_page s pdir (address + of_nat i) \<Longrightarrow>
           page_in_large (address + of_nat i) = 0"
    and "inj_on W {..<length xs}"
  shows "\<exists>s'. poke_virt address len buffer pdir s = Ret E_OK s' \<and> written s W xs s'"
proof (rule poke_virt_other [OF assms(1-5) _ assms(8)])
  fix i assume i: "i < length xs"
  then have w: "W i \<in> R" using assms(6) by (auto simp: x86_maps_def)
  show "maps_to s R pdir (address + of_nat i) (W i)"
    by (rule x86_maps_to [OF assms(6) [OF i] assms(2)]) (use w assms(7) [OF i] in auto)
qed

text \<open>
  A page directory at \<^verbatim>\<open>0x2000\<close> whose entry 0 points to a page table at \<^verbatim>\<open>0x3000\<close>, whose entry 8
  maps virtual page \<^verbatim>\<open>0x8000\<close> to the frame at \<^verbatim>\<open>0x5000\<close>.
\<close>

definition ex_tables :: "paddr \<Rightarrow> 8 word" where
  "ex_tables = put32 0x3020 0x5003 (put32 0x2000 0x3003 (\<lambda>p. if p = 0x9000 then 42 else 0))"

lemma ex_walk:
  assumes "\<forall>p. p \<notin> {0x5000} \<longrightarrow> m p = ex_tables p"
  shows "x86_walk m 0x2000 0x8000 = Some 0x5000" and "\<not> bit (x86_pde m 0x2000 0x8000) 7"
proof -
  have "m p = ex_tables p" if "p \<noteq> 0x5000" for p using assms that by auto
  then have "phys32 m 0x2000 = 0x3003" "phys32 m 0x3020 = 0x5003"
    by (simp_all add: phys32_def ex_tables_def put32_def byte_of_def word_of_bytes_def)
  then have "x86_pde m 0x2000 0x8000 = 0x3003" "x86_pte m 0x2000 0x8000 = 0x5003"
    by (simp_all add: x86_pde_def x86_pte_def take_bit_eq_mask mask_eq_exp_minus_1)
  then show "x86_walk m 0x2000 0x8000 = Some 0x5000" "\<not> bit (x86_pde m 0x2000 0x8000) 7"
    by (simp_all add: x86_walk_def bit_numeral_rec take_bit_eq_mask mask_eq_exp_minus_1)
qed

theorem poke_virt_copies_witness:
  "\<exists>s'. poke_virt 0x8000 1 0x9000 0x2000 (ex_mem ex_tables) = Ret E_OK s' \<and> phys s' 0x5000 = 42"
proof -
  let ?s = "ex_mem ex_tables"
  have v: "vreads ?s {0x5000} 0x9000 42"
    unfolding vreads_def
  proof (intro conjI exI [of _ "0x9000"])
    show "\<not> in_window 0x9000" by (simp add: in_window_def KERNEL_TEMP_START_def)
    show "phys ?s 0x9000 = 42" by (simp add: ex_tables_def put32_def)
  qed simp_all
  have m: "x86_maps ?s {0x5000} 0x2000 0x8000 0x5000" "\<not> in_large_page ?s 0x2000 0x8000"
    using ex_walk by (auto simp: x86_maps_def in_large_page_def)
  have "\<exists>s'. poke_virt 0x8000 1 0x9000 0x2000 ?s = Ret E_OK s' \<and> written ?s (\<lambda>_. 0x5000) [42] s'"
    using v m by (intro poke_virt_copies [where R = "{0x5000}"])
      (simp_all add: ex_root CURRENT_ROOT_PMAP_def lessThan_Suc)
  then show ?thesis by (auto simp: written_def)
qed

text \<open>
  For an address in a large page the kernel adds only the offset inside 4 KiB to the frame of the
  large page: the byte is stored below the address the processor uses, in the first 4 KiB of the
  large page, and the byte the recipient reads is unchanged, although \<^verbatim>\<open>poke_virt\<close> returns
  \<^verbatim>\<open>E_OK\<close>.
\<close>

theorem poke_virt_large_page:
  assumes "pdir \<noteq> get_root_page_map s" and "pdir \<noteq> CURRENT_ROOT_PMAP" and "address \<noteq> 0"
    and "vreads s R buffer x" and "x86_maps s R pdir address w" and "in_large_page s pdir address"
    and "page_in_large address \<noteq> 0" and "w - page_in_large address \<in> R"
  shows "\<exists>s'. poke_virt address 1 buffer pdir s = Ret E_OK s' \<and>
     phys s' (w - page_in_large address) = x \<and> phys s' w = phys s w"
proof -
  let ?w = "w - page_in_large address"
  have m: "maps_to s R pdir address ?w" by (rule x86_maps_to [OF assms(5,2) _ assms(8)]) (simp add: assms(6))
  have "\<exists>s'. poke_virt address 1 buffer pdir s = Ret E_OK s' \<and> written s (\<lambda>_. ?w) [x] s'"
    by (rule poke_virt_other [OF assms(1-3)]) (use assms(4) m in \<open>simp_all add: lessThan_Suc\<close>)
  then show ?thesis using assms(7) by (auto simp: written_def)
qed


text \<open>
  The same directory with an entry 0 that maps the first 4 MiB to a large page at \<^verbatim>\<open>0x800000\<close>.
\<close>

definition ex_large :: "paddr \<Rightarrow> 8 word" where
  "ex_large = put32 0x2000 0x800083 (\<lambda>p. if p = 0x9000 then 42 else 0)"

lemma ex_large_walk:
  assumes "\<forall>p. p \<notin> {0x800000, 0x808000} \<longrightarrow> m p = ex_large p"
  shows "x86_walk m 0x2000 0x8000 = Some 0x808000" and "bit (x86_pde m 0x2000 0x8000) 7"
proof -
  have "m p = ex_large p" if "p \<noteq> 0x800000" "p \<noteq> 0x808000" for p using assms that by auto
  then have "x86_pde m 0x2000 0x8000 = 0x800083"
    by (simp add: x86_pde_def phys32_def ex_large_def put32_def byte_of_def word_of_bytes_def)
  then show "x86_walk m 0x2000 0x8000 = Some 0x808000" "bit (x86_pde m 0x2000 0x8000) 7"
    by (simp_all add: x86_walk_def bit_numeral_rec take_bit_eq_mask mask_eq_exp_minus_1)
qed

theorem poke_virt_large_page_witness:
  "x86_walk ex_large 0x2000 0x8000 = Some 0x808000 \<and>
   (\<exists>s'. poke_virt 0x8000 1 0x9000 0x2000 (ex_mem ex_large) = Ret E_OK s' \<and>
      phys s' 0x800000 = 42 \<and> phys s' 0x808000 = 0)"
proof -
  let ?s = "ex_mem ex_large" and ?R = "{0x800000, 0x808000}"
  have v: "vreads ?s ?R 0x9000 42"
    unfolding vreads_def
  proof (intro conjI exI [of _ "0x9000"])
    show "\<not> in_window 0x9000" by (simp add: in_window_def KERNEL_TEMP_START_def)
    show "phys ?s 0x9000 = 42" by (simp add: ex_large_def put32_def)
  qed simp_all
  have m: "x86_maps ?s ?R 0x2000 0x8000 0x808000" "in_large_page ?s 0x2000 0x8000"
    using ex_large_walk by (auto simp: x86_maps_def in_large_page_def)
  have p: "page_in_large 0x8000 = 0x8000"
    by (simp add: page_in_large_def take_bit_eq_mask mask_eq_exp_minus_1)
  have "\<exists>s'. poke_virt 0x8000 1 0x9000 0x2000 ?s = Ret E_OK s' \<and>
     phys s' (0x808000 - page_in_large 0x8000) = 42 \<and> phys s' 0x808000 = phys ?s 0x808000"
    using v m by (intro poke_virt_large_page [where R = ?R]) (simp_all add: ex_root CURRENT_ROOT_PMAP_def p)
  then show ?thesis using ex_large_walk(1) [of ex_large] by (simp add: p ex_large_def put32_def)
qed

text \<open>
  C10. A sender whose recipient is not ready blocks: it leaves the processor, waits on the
  recipient's queue with its buffer, length, flags and subject kept in its saved registers, and
  the kernel switches to the longest waiting thread of the highest non-empty run queue.
\<close>

theorem send_message_blocks_sender:
  assumes k: "kinv s Q" and cur: "thread_get_current s = Some t" and r: "is_thread r" and ne: "r \<noteq> t"
    and b: "\<not> (len > 0 \<and> buffer = 0)"
    and st: "thread_state (tcb_table s r) \<notin> {INACTIVE, ZOMBIE}"
    and nr: "\<not> send_ready (IS_FLAG_SET flags MSG_KERNEL) t (tcb_table s r)"
    and nb: "\<not> IS_FLAG_SET flags MSG_NOBLOCK"
    and p: "pick Q MIN_PRIORITY NUM_PRIORITIES = Some p"
    and i: "init_server_thread s = Some i" "in_table i"
  defines "nx \<equiv> last (Q (RunQueue p))"
  shows "\<exists>s1. send_message t r subject flags buffer len s = Switch (switched nx i True s1) \<and>
     kinv s1 (Q(SenderQueue r := t # Q (SenderQueue r), RunQueue p := butlast (Q (RunQueue p)))) \<and>
     thread_get_current s1 = Some nx \<and>
     strip s1 = dispatched processor_get_current None nx
       (upd_tcb t (parked (IS_FLAG_SET flags MSG_KERNEL) (\<lambda>r. r\<lparr>eax := code32 E_INTERRUPT,
           ebx := buffer, ecx := ucast flags, esi := subject, edi := len\<rparr>))
         (upd_tcb t (\<lambda>c. c\<lparr>thread_state := WAIT_FOR_RECV, wait_tid := r\<rparr>) (cpu_drop t (strip s))))"
proof -
  have it: "in_table r" "r \<noteq> NULL_TID" using r by auto
  have "loc (c\<lparr>thread_state := WAIT_FOR_RECV, wait_tid := r\<rparr>) = Some (SenderQueue r)" for c
    using it(2) by (simp add: loc_def)
  then show ?thesis
    unfolding nx_def send_message_blocks [OF ne r b st nr nb]
    using block_current [where wq = SenderQueue and partner = r and st = WAIT_FOR_RECV, OF k cur _ it(1)
        _ _ p i] it(1) by auto
qed

theorem send_message_blocks_sender_witness:
  "\<exists>s1. send_message 1 3 7 0 0x9000 1 ex_state = Switch (switched 2 2 True s1) \<and>
     kinv s1 (ex_Q(SenderQueue 3 := [1], RunQueue 2 := [3])) \<and> thread_get_current s1 = Some 2"
proof -
  have "ex_Q (RunQueue 2) = [3, 2]" "ex_Q (SenderQueue 3) = []" by (simp_all add: ex_Q_def)
  moreover have "\<not> send_ready (IS_FLAG_SET 0 MSG_KERNEL) 1 (tcb_table ex_state 3)"
    "\<not> IS_FLAG_SET 0 MSG_NOBLOCK"
    by (simp_all add: send_ready_def ex_tcb_state IS_FLAG_SET_def)
  moreover have "pick ex_Q MIN_PRIORITY NUM_PRIORITIES = Some 2" by (simp add: ex_pick MIN_PRIORITY_def)
  ultimately show ?thesis
    using send_message_blocks_sender [OF ex_kinv ex_current, of 3 1 "0x9000" 0 2 2 7]
    by (auto simp: ex_tcb_state simp del: fun_upd_apply)
qed

text \<open>
  C12. The calls \<^verbatim>\<open>send_message\<close> refuses leave the state as it is: to the sender itself or with a
  null buffer of positive length (\<^verbatim>\<open>E_INVALID_ARG\<close>), to an inactive thread or a zombie
  (\<^verbatim>\<open>E_UNREACH\<close>), and to a thread that is not ready when the sender may not block (\<^verbatim>\<open>E_BLOCK\<close>).
  The refusal of a null buffer is what the code does; the comment on the function promises that
  with a null buffer only the header of the message is sent.
\<close>

theorem send_message_refusals:
  assumes "is_thread t" and "is_thread r"
  shows "(r = t \<or> (len > 0 \<and> buffer = 0) \<longrightarrow>
      send_message t r subject flags buffer len s = Ret E_INVALID_ARG s) \<and>
    (r \<noteq> t \<longrightarrow> \<not> (len > 0 \<and> buffer = 0) \<longrightarrow> thread_state (tcb_table s r) \<in> {INACTIVE, ZOMBIE} \<longrightarrow>
      send_message t r subject flags buffer len s = Ret E_UNREACH s) \<and>
    (r \<noteq> t \<longrightarrow> \<not> (len > 0 \<and> buffer = 0) \<longrightarrow> thread_state (tcb_table s r) \<notin> {INACTIVE, ZOMBIE} \<longrightarrow>
      \<not> send_ready (IS_FLAG_SET flags MSG_KERNEL) t (tcb_table s r) \<longrightarrow>
      IS_FLAG_SET flags MSG_NOBLOCK \<longrightarrow> send_message t r subject flags buffer len s = Ret E_BLOCK s)"
  using send_message_refused [OF assms(1)] assms(2) by auto

theorem send_message_refusals_witness:
  "send_message 1 1 0 0 0 0 ex_state = Ret E_INVALID_ARG ex_state \<and>
   send_message 1 7 0 0 0 0 ex_state = Ret E_UNREACH ex_state \<and>
   send_message 1 3 0 1 0 0 ex_state = Ret E_BLOCK ex_state"
  using send_message_refusals [of 1 1 0 0 0 0 ex_state] send_message_refusals [of 1 7 0 0 0 0 ex_state]
    send_message_refusals [of 1 3 0 0 0 1 ex_state]
  by (simp add: ex_tcb_state send_ready_def IS_FLAG_SET_def MSG_NOBLOCK_def MSG_KERNEL_def)

text \<open>
  C11. A receiver takes the message of a thread that waits to send to it: \<^verbatim>\<open>receive_message\<close> copies as
  many bytes as fit, wakes the sender with \<^verbatim>\<open>E_OK\<close> and the byte count, and gets the sender's
  identity, flags and subject. It reports \<^verbatim>\<open>E_PREEMPT\<close> if it expected a kernel message and got
  another one, and \<^verbatim>\<open>E_OK\<close> otherwise. The comment on the function says the opposite: with
  \<^verbatim>\<open>MSG_KERNEL\<close> all other messages are ignored, and \<^verbatim>\<open>E_PREEMPT\<close> reports a kernel message received
  without that flag.
\<close>

theorem receive_message_accepts:
  assumes "kinv s Q" and "is_thread r" and "is_thread t" and "t \<noteq> r" and "\<not> (len > 0 \<and> buffer = 0)"
    and "receive_ready (IS_FLAG_SET flags MSG_KERNEL) r (tcb_table s t)"
    and "n = min (edi (user_exec_state (tcb_table s t))) len"
    and "peek_virt (ebx (user_exec_state (tcb_table s t))) n buffer (root_pmap (tcb_table s t)) s =
      Ret e s1" and "\<not> IS_ERROR e"
  shows "\<exists>s'. receive_message r t flags buffer len s =
       Ret (if IS_FLAG_SET flags MSG_KERNEL \<and> \<not> wait_for_kernel_msg (tcb_table s t)
            then E_PREEMPT else E_OK) s' \<and>
     kinv s' (moved t (run_queue s t) Q) \<and>
     strip s' = upd_tcb t (taken n) (upd_tcb r (received t n (tcb_table s t))
       (upd_tcb t (\<lambda>c. c\<lparr>wait_tid := NULL_TID, thread_state := READY\<rparr>) (strip s1)))"
proof -
  have "thread_state (tcb_table s t) = WAIT_FOR_RECV" using assms(6) by (simp add: receive_ready_def)
  moreover have "in_table t" "t \<noteq> NULL_TID" using assms(3) by auto
  ultimately show ?thesis
    using accept_kinv [OF assms(1-4) _ assms(7-9), where k = "IS_FLAG_SET flags MSG_KERNEL"]
    unfolding receive_message_ready [OF assms(4) \<open>t \<noteq> NULL_TID\<close> \<open>in_table t\<close> assms(5,6)] by blast
qed

theorem receive_message_accepts_witness:
  "\<exists>s'. receive_message 1 6 MSG_KERNEL 0 0 ex_state = Ret E_PREEMPT s' \<and>
     kinv s' (moved 6 (run_queue ex_state 6) ex_Q)"
proof -
  have k: "IS_FLAG_SET MSG_KERNEL MSG_KERNEL" by (simp add: IS_FLAG_SET_def MSG_KERNEL_def)
  have r: "receive_ready (IS_FLAG_SET MSG_KERNEL MSG_KERNEL) 1 (tcb_table ex_state 6)"
    by (simp add: receive_ready_def ex_tcb_state)
  have "ex_state = ex_mem (\<lambda>_. 0)" by (simp add: ex_mem_def ex_state_def)
  then have "get_root_page_map ex_state = 0x1000" using ex_root by metis
  then have p: "peek_virt (ebx (user_exec_state (tcb_table ex_state 6))) 0 0
      (root_pmap (tcb_table ex_state 6)) ex_state = Ret E_OK ex_state"
    by (simp add: ex_tcb_state peek_virt_def kthen_def kbind_def kget_def kret_def memcpy_def kskip_def)
  show ?thesis
    using receive_message_accepts [OF ex_kinv _ _ _ _ r _ p, where len = 0]
    by (auto simp: ex_tcb_state error_codes k)
qed

text \<open>
  A message to any thread takes the first waiting receiver off its queue before it is clear that the
  message can be delivered. When the copy fails, here because the receiver's buffer is not mapped,
  the call returns \<^verbatim>\<open>E_FAIL\<close> and the receiver goes on waiting, but on no queue: no later message of
  this sender to any thread will find it.
\<close>

theorem send_to_any_loses_receiver:
  assumes "kinv s Q" and "is_thread t" and "Q (ReceiverQueue t) = rs @ [r]"
    and "c = tcb_table s r" and "\<not> wait_for_kernel_msg c"
    and "buffer \<noteq> 0" and "min (edi (user_exec_state c)) len \<noteq> 0"
    and "root_pmap c \<noteq> get_root_page_map s" and "root_pmap c \<noteq> CURRENT_ROOT_PMAP"
    and "ebx (user_exec_state c) \<noteq> 0" and "x86_walk (phys s) (root_pmap c) (ebx (user_exec_state c)) = None"
  shows "\<exists>s'. send_message t ANY_RECIPIENT subject flags buffer len s = Ret E_FAIL s' \<and>
     thread_state (tcb_table s' r) = WAIT_FOR_SEND \<and> (\<nexists>Q'. kinv s' Q')"
proof -
  let ?l = "ReceiverQueue t" and ?u = "user_exec_state c" and ?k = "IS_FLAG_SET flags MSG_KERNEL"
  have rp: "repr s Q" and ql: "queue_ref ?l" "valid_ref ?l"
    using kinv_exD(1) [OF assms(1)] assms(2) by auto
  have r: "is_thread r" "thread_state c = WAIT_FOR_SEND" "wait_tid c = t"
    using kinv_queue_member [OF assms(1), of r ?l] loc_ReceiverQueue [of c t] assms(3,4) by auto
  obtain s1 where s1: "list_dequeue ?l s = Ret (Some r) s1" "repr s1 (Q(?l := rs))" "strip s1 = strip s"
    using kq.deq [OF rp ql(1) assms(3)] by blast
  have c1: "strip_tcb (tcb_table s1 r) = strip_tcb c" using strip_eqD(1) [OF s1(3), of r] assms(4) by simp
  note f = strip_tcb_eqD [OF c1]
  have ne: "\<not> LIST_IS_EMPTY (list_at ?l s)"
    using dll_empty_iff [OF reprD(1) [OF rp ql(1)]] assms(3) by simp
  have sr: "send_ready ?k t (tcb_table s1 r)" using f r by (simp add: send_ready_def)
  have nw: "walk_page (phys s1) (root_pmap c) (ebx ?u) = None"
    using assms(11) strip_eqD(8) [OF s1(3)] by (auto simp: x86_walk_def walk_page_x86 split: if_splits)
  have "get_root_page_map s1 = get_root_page_map s"
    using strip_eqD(9) [OF s1(3)] by (simp add: get_root_page_map_def)
  then have p: "poke_virt (ebx ?u) (min (edi ?u) len) buffer (root_pmap c) s1 =
      Ret E_NOT_MAPPED (set_temp_pte temp_slot 0 s1)"
    using poke_virt_unmapped [OF _ assms(9,10,7) nw] assms(8) by simp
  let ?s = "set_temp_pte temp_slot 0 s1"
  have t: "t \<noteq> NULL_TID" "in_table r" using assms(2) r(1) by auto
  have "send_message t ANY_RECIPIENT subject flags buffer len s = deliver t r ?k subject flags buffer len s1"
    using t assms(6) ne ql(2) s1(1) f r(2) sr
    by (simp add: send_message_def Let_def get_tid_def kbind_def kthen_def kret_def ld_list_def deref_def
        rd_def kguard_def)
  also have "\<dots> = Ret E_FAIL ?s"
    using t(2) f assms(5) p by (simp add: deliver_def kbind_def kthen_def kret_def rd_def kguard_def Let_def error_codes)
  finally have e: "send_message t ANY_RECIPIENT subject flags buffer len s = Ret E_FAIL ?s" .
  have st: "thread_state (tcb_table ?s r) = WAIT_FOR_SEND" using f(2) r(2) by simp
  have "\<not> kinv ?s Q'" for Q'
  proof
    assume k: "kinv ?s Q'"
    have "loc (tcb_table ?s r) = Some ?l" using f r t(1) by (simp add: loc_def)
    then have "r \<in> set (Q' ?l)" using kinv_on_list(1) [OF k r(1)] by blast
    moreover have "list_at q ?s = list_at q s1" for q by (cases q) (simp_all add: set_temp_pte_def)
    then have "repr ?s (Q(?l := rs))" using s1(2) by (simp add: repr_def)
    then have "Q' = Q(?l := rs)" using repr_functional kinv_exD(1) [OF k] by blast
    moreover have "r \<notin> set rs"
      using reprD(1) [OF rp ql(1)] assms(3) by (simp add: dll_def)
    ultimately show False by simp
  qed
  with e st show ?thesis by blast
qed


theorem send_to_any_loses_receiver_witness:
  "\<exists>s'. send_message 1 ANY_RECIPIENT 7 0 0x9000 1 (upd_tcb 5 (\<lambda>c. c\<lparr>root_pmap := 0x2000\<rparr>) ex_state) =
       Ret E_FAIL s' \<and> thread_state (tcb_table s' 5) = WAIT_FOR_SEND \<and> (\<nexists>Q'. kinv s' Q')"
proof -
  let ?u = "\<lambda>c. c\<lparr>root_pmap := 0x2000 :: 32 word\<rparr>"
  let ?s = "upd_tcb 5 ?u ex_state"
  have k: "kinv ?s ex_Q"
    by (rule kinv_upd_keeps [OF ex_kinv]) (simp add: keeps_sched_def keeps_links_def)
  have c: "root_pmap (tcb_table ?s 5) = 0x2000" "ebx (user_exec_state (tcb_table ?s 5)) = 0x8000"
      "edi (user_exec_state (tcb_table ?s 5)) = 2" "\<not> wait_for_kernel_msg (tcb_table ?s 5)"
    by (simp_all add: upd_tcb_def ex_tcb_def Let_def upd_regs_def zero_tcb_def)
  have g: "get_root_page_map ?s = 0x1000"
    by (simp add: get_root_page_map_def upd_tcb_def ex_state_def CR3_BASE_MASK_def PAGE_BASE_MASK_def PAGE_SIZE_def)
  have w: "x86_walk (phys ?s) 0x2000 0x8000 = None"
    by (simp add: x86_walk_def x86_pde_def upd_tcb_def ex_state_def phys32_def word_of_bytes_def)
  show ?thesis
    by (rule send_to_any_loses_receiver [OF k _ _ refl, of 1 "[]"])
      (simp_all only: c g w, simp_all add: ex_Q_def CURRENT_ROOT_PMAP_def)
qed

text \<open>
  The blocking branch of \<^verbatim>\<open>receive_message\<close> parks the wrong thread: when the named sender is
  not waiting to send, it is the sender that is taken off its list, put into state
  \<^verbatim>\<open>WAIT_FOR_SEND\<close> and queued behind the recipient, while the recipient keeps running.
\<close>

theorem receive_message_parks_wrong_thread:
  assumes "kinv s Q" and "is_thread r" and "is_thread t" and "t \<noteq> r"
    and "\<not> (len > 0 \<and> buffer = 0)" and "thread_state (tcb_table s t) \<notin> {INACTIVE, SLEEPING}"
    and "\<not> receive_ready (IS_FLAG_SET flags MSG_KERNEL) r (tcb_table s t)"
    and "\<not> IS_FLAG_SET flags MSG_NOBLOCK"
  shows "\<exists>s1. receive_message r t flags buffer len s = reschedule s1 \<and>
     kinv s1 (moved t (ReceiverQueue r) Q) \<and> thread_state (tcb_table s1 t) = WAIT_FOR_SEND \<and>
     thread_state (tcb_table s1 r) = thread_state (tcb_table s r)"
proof -
  obtain s1 kf regs where s1: "receive_message r t flags buffer len s = reschedule s1"
      "kinv s1 (moved t (ReceiverQueue r) Q)"
      "strip s1 = upd_tcb r (parked kf regs) (upd_tcb t
        (\<lambda>c. c\<lparr>thread_state := WAIT_FOR_SEND, wait_tid := r\<rparr>) (detached t (strip s)))"
    using receive_message_parks_sender [OF assms] by metis
  have "thread_state (tcb_table (detached t (strip s)) r) = thread_state (tcb_table s r)"
    by (auto simp: detached_def split: thread_state_t.split)
  then show ?thesis
    using s1 strip_fields(3) [OF s1(3)] assms(4) by (auto simp: parked_def upd_regs_def)
qed

theorem receive_message_parks_wrong_thread_witness:
  "\<exists>s1. receive_message 1 2 0 0 0 ex_state = reschedule s1 \<and>
     kinv s1 (moved 2 (ReceiverQueue 1) ex_Q) \<and> thread_state (tcb_table s1 2) = WAIT_FOR_SEND \<and>
     thread_state (tcb_table s1 1) = RUNNING"
  using receive_message_parks_wrong_thread [OF ex_kinv, of 1 2 0 0 0]
  by (simp add: ex_tcb_state receive_ready_def IS_FLAG_SET_def)

text \<open>
  Two message calls a user thread can make stop the kernel: a blocking receive from anybody
  when no sender waits dereferences a null pointer, and a message to a thread of another address
  space that waits with a null buffer fails the assertion of \<^verbatim>\<open>access_mem\<close>.
\<close>

theorem message_calls_stop_kernel:
  assumes "is_thread r" and "\<not> (len > 0 \<and> buffer = 0)"
  shows "(LIST_IS_EMPTY (sender_wait_queue (tcb_table s r)) \<longrightarrow> \<not> IS_FLAG_SET flags MSG_NOBLOCK \<longrightarrow>
      receive_message r ANY_SENDER flags buffer len s = Fault NullDeref) \<and>
    (is_thread t \<longrightarrow> t \<noteq> r \<longrightarrow>
      send_ready (IS_FLAG_SET flags MSG_KERNEL) t (tcb_table s r) \<longrightarrow>
      ebx (user_exec_state (tcb_table s r)) = 0 \<longrightarrow>
      root_pmap (tcb_table s r) \<noteq> get_root_page_map s \<longrightarrow>
      root_pmap (tcb_table s r) \<noteq> CURRENT_ROOT_PMAP \<longrightarrow>
      send_message t r subject flags buffer len s = Fault AssertFail)"
proof (intro conjI impI)
  have it: "in_table r" "r \<noteq> NULL_TID" using assms(1) by auto
  show "receive_message r ANY_SENDER flags buffer len s = Fault NullDeref"
    if "LIST_IS_EMPTY (sender_wait_queue (tcb_table s r))" "\<not> IS_FLAG_SET flags MSG_NOBLOCK"
    using receive_message_any_null [OF it(2) assms(2) it(1) that] .
  assume "is_thread t" and "t \<noteq> r" and sr: "send_ready (IS_FLAG_SET flags MSG_KERNEL) t (tcb_table s r)"
    and b: "ebx (user_exec_state (tcb_table s r)) = 0"
    and p: "root_pmap (tcb_table s r) \<noteq> get_root_page_map s"
      "root_pmap (tcb_table s r) \<noteq> CURRENT_ROOT_PMAP"
  then show "send_message t r subject flags buffer len s = Fault AssertFail"
    using send_message_ready [OF _ it(2,1) assms(2) sr] poke_virt_null [OF p] it(1)
    by (auto simp: deliver_def kbind_def rd_def kthen_def kguard_def Let_def b)
qed

theorem message_calls_stop_kernel_witness:
  "receive_message 2 ANY_SENDER 0 0 0 ex_state = Fault NullDeref \<and>
   send_message 1 5 0 0 0 0 (ex_state\<lparr>tcb_table := ex_tcb(5 := upd_regs (\<lambda>r. r\<lparr>ebx := 0\<rparr>)
     ((ex_tcb 5)\<lparr>root_pmap := 0x2000\<rparr>))\<rparr>) = Fault AssertFail"
proof -
  let ?s = "ex_state\<lparr>tcb_table := ex_tcb(5 := upd_regs (\<lambda>r. r\<lparr>ebx := 0\<rparr>)
     ((ex_tcb 5)\<lparr>root_pmap := 0x2000\<rparr>))\<rparr>"
  have r: "get_root_page_map (ex_state\<lparr>tcb_table := tb\<rparr>) = 0x1000" for tb
    using ex_root [of "\<lambda>_. 0"] by (simp add: get_root_page_map_def)
  have "receive_message 2 ANY_SENDER 0 0 0 ex_state = Fault NullDeref"
    by (rule message_calls_stop_kernel [THEN conjunct1, rule_format])
      (simp_all add: ex_tcb_state null_list_def LIST_IS_EMPTY_def IS_FLAG_SET_def)
  moreover have "send_message 1 5 0 0 0 0 ?s = Fault AssertFail"
    by (rule message_calls_stop_kernel [THEN conjunct2, rule_format])
      (simp_all add: r send_ready_def upd_regs_def ex_tcb_state CURRENT_ROOT_PMAP_def)
  ultimately show ?thesis by simp
qed

section \<open>Thread creation\<close>

lemma ex_vreads: "mmu s = (\<lambda>_ _ a. Some a) \<Longrightarrow> \<not> in_window a \<Longrightarrow> a \<notin> R \<Longrightarrow> vreads s R a (phys s a)"
  by (auto simp: vreads_def)

lemma unat_offset: "unat (b :: 32 word) + i < 2 ^ 32 \<Longrightarrow> unat (b + of_nat i) = unat b + i"
  by (subst unat_add_lem [THEN iffD1]) (simp_all add: unsigned_of_nat take_bit_nat_eq_self)

lemma in_window_nat: "in_window a \<longleftrightarrow> 0xFF991000 \<le> unat a \<and> unat a < 0xFFC00000"
  by (simp add: in_window_def KERNEL_TEMP_START_def KERNEL_TEMP_END_def word_le_nat_alt word_less_nat_alt)

lemma ex_outside: "n \<le> unat (b - p) \<Longrightarrow> unat (b - p) + i < 2 ^ 32 \<Longrightarrow> b + of_nat i \<notin> range_of p n"
  using unat_offset [of "b - p" i] by (simp add: range_of_def algebra_simps)

lemma ex_pokes:
  assumes "mmu s = (\<lambda>_ _ a. Some a)" and "n \<noteq> 0"
    and "unat b + unat n \<le> 2 ^ 32"
    and "unat b + unat n \<le> 0xFF991000 \<or> 0xFFC00000 \<le> unat b"
    and "unat n \<le> unat (b - p)" "unat (b - p) + unat n \<le> 2 ^ 32"
  shows "\<exists>s'. poke p b n s = Ret E_OK s' \<and> mmu s' = (\<lambda>_ _ a. Some a)"
proof -
  let ?xs = "map (\<lambda>i. phys s (b + of_nat i)) [0..<unat n]"
  have "\<not> in_window (b + of_nat i)" "b + of_nat i \<notin> range_of p (unat n)" if "i < unat n" for i
  proof -
    show "\<not> in_window (b + of_nat i)"
      using that assms(3,4) unat_offset [of b i] by (auto simp: in_window_nat)
    have "unat (b + of_nat i - p) = unat (b - p) + i"
      using that assms(6) unat_offset [of "b - p" i] by (simp add: algebra_simps)
    then show "b + of_nat i \<notin> range_of p (unat n)" using assms(5) by (simp add: range_of_def)
  qed
  then
  have "poke p b n s = Ret E_OK (set_temp_pte temp_slot 0 (s\<lparr>phys := put_bytes p ?xs (phys s)\<rparr>))"
    using assms(2) ex_vreads [OF assms(1)]
    by (intro poke_eq [where R = "range_of p (unat n)"]) (auto simp: unat_gt_0)
  then show ?thesis using assms(1) by (simp add: set_temp_pte_def)
qed

lemma ex_initialize_root_pmap:
  "\<exists>s1. initialize_root_pmap 0x2000 (ex_state\<lparr>last_tid := k\<rparr>) = Ret E_OK s1"
proof -
  note c = NDX_TO_VADDR_def KERNEL_RECURSIVE_PDE_def PDE_INDEX_def KERNEL_VSTART_def KERNEL_TEMP_END_def
  have v: "NDX_TO_VADDR KERNEL_RECURSIVE_PDE KERNEL_RECURSIVE_PDE (PDE_INDEX KERNEL_VSTART) = 0xFFFFFFEC"
    "NDX_TO_VADDR KERNEL_RECURSIVE_PDE KERNEL_RECURSIVE_PDE (PDE_INDEX KERNEL_TEMP_END) = 0xFFFFFFFC"
    "0x2000 + 4 * PDE_INDEX KERNEL_VSTART = 0x2FEC" "0x2000 + 4 * KERNEL_RECURSIVE_PDE = 0x2FFC"
    by (simp_all add: c)
  have w0: "\<not> in_window 0xFF7FF000" "\<not> in_window 0xFF7FF001" "\<not> in_window 0xFF7FF002"
    "\<not> in_window 0xFF7FF003"
    by (simp_all add: in_window_def KERNEL_TEMP_START_def)
  obtain s1 where s1: "st32 0xFF7FF000 (root_pde 0x2000) (ex_state\<lparr>last_tid := k\<rparr>) = Ret () s1"
      "mmu s1 = (\<lambda>_ _ a. Some a)"
    using w0 by (simp add: st32_def kbind_def st8_def translate_def kskip_def set_phys_def)
  obtain s2 where s2: "poke 0x2FEC 0xFFFFFFEC 16 s1 = Ret E_OK s2" "mmu s2 = (\<lambda>_ _ a. Some a)"
    using ex_pokes [OF s1(2), of 16 "0xFFFFFFEC" "0x2FEC"] by auto
  obtain s3 where s3: "poke 0x2FFC 0xFF7FF000 4 s2 = Ret E_OK s3"
    using ex_pokes [OF s2(2), of 4 "0xFF7FF000" "0x2FFC"] by auto
  show ?thesis
    using s1(1) s2(1) s3
    by (simp add: initialize_root_pmap_def Let_def v kbind_def kthen_def kget_def kret_def error_codes)
qed

text \<open>
  C25. \<^verbatim>\<open>thread_create\<close> takes the first inactive entry after the last one it handed out and fills it: the
  thread starts at the entry point, on the given stack and in the given address space, with the
  user-mode selectors, interrupts enabled and I/O privilege level 3, normal priority, and everything
  else cleared; it is left on the paused list. The page directory gets copies of the four directory
  entries of the kernel, read through the recursive mapping, and a last entry that is present,
  writable and points to the directory itself. Besides these, only a local variable of the kernel
  and the entry of the temporary window are changed. The hypotheses on memory say that the local
  variable and the entries of the kernel are mapped, and not inside the new directory.
\<close>

theorem thread_create_effect:
  assumes "kinv s Q" and "\<not> tcb_table_lock s"
    and "root = (if addr_space = CURRENT_ROOT_PMAP then get_root_page_map s else addr_space)"
    and "R = root_pmap_area l root" and "range_of l 4 \<inter> range_of (root + 0xFEC) 20 = {}"
    and "local_maps s R l" and "length xs = 16"
    and "\<And>i. i < 16 \<Longrightarrow> vreads s R (0xFFFFFFEC + of_nat i) (xs ! i)"
    and "last_tid s < k" and "unat k < TCB_TABLE_SIZE"
    and "thread_state (tcb_table s (ucast k)) = INACTIVE"
    and "\<And>i. last_tid s < i \<Longrightarrow> i < k \<Longrightarrow> thread_state (tcb_table s (ucast i)) \<noteq> INACTIVE"
    and "Q (SenderQueue (ucast k)) = []" and "Q (ReceiverQueue (ucast k)) = []"
  shows "\<exists>s' c m. thread_create entry addr_space stack_top s = Ret (Some (ucast k)) s' \<and>
     kinv s' (Q(PausedList := ucast k # Q PausedList)) \<and>
     strip s' = strip (s\<lparr>tcb_table := (tcb_table s)(ucast k := c), last_tid := k, phys := m,
       klower_mem_ptab := (klower_mem_ptab s)(temp_slot := 0)\<rparr>) \<and>
     c = \<lparr>wait_for_kernel_msg = False, thread_state = PAUSED, priority = 2, wait_tid = NULL_TID,
       receiver_wait_queue = null_list, sender_wait_queue = null_list, prev_tid = NULL_TID,
       next_tid = NULL_TID, ex_handler = NULL_TID, pager = NULL_TID, event_mask = 0,
       pending_events = 0, cap_table = 0, cap_table_size = 0, fxsave_state = 0, fxsave_state_len = 0,
       xsave_rfbm = 0, user_exec_state = \<lparr>gs = 0, fs = 0, es = 0x23, ds = 0x23, edi = 0, esi = 0,
         ebp = stack_top, ebx = 0, edx = 0, ecx = 0, eax = 0, eip = entry, cs = 0x1B,
         eflags = 0x3200, user_esp = stack_top, user_ss = 0x23\<rparr>, root_pmap = root\<rparr> \<and>
     (\<forall>i<16. m (root + 0xFEC + of_nat i) = xs ! i) \<and>
     phys32 m (root + 0xFFC) = push_bit 12 (drop_bit 12 root) OR 3 \<and>
     (\<forall>p. p \<notin> R \<longrightarrow> m p = phys s p)"
proof -
  let ?c = "new_tcb entry root stack_top"
  obtain m where m: "initialize_root_pmap root s = Ret E_OK (set_temp_pte temp_slot 0 (s\<lparr>phys := m\<rparr>))"
     "\<forall>i<16. m (root + 0xFEC + of_nat i) = xs ! i"
     "phys32 m (root + 0xFFC) = push_bit 12 (drop_bit 12 root) OR 3" "\<forall>p. p \<notin> R \<longrightarrow> m p = phys s p"
    using initialize_root_pmap_effect [OF assms(4-8)] by blast
  obtain s' where s': "thread_create entry addr_space stack_top s = Ret (Some (ucast k)) s'"
     "kinv s' (Q(PausedList := ucast k # Q PausedList))"
     "strip s' = with_tid k False (strip (upd_tcb (ucast k) (\<lambda>_. ?c) (set_temp_pte temp_slot 0 (s\<lparr>phys := m\<rparr>))))"
    using thread_create_kinv [OF assms(1-3) m(1) assms(9-)] by blast
  have "strip s' = strip (s\<lparr>tcb_table := (tcb_table s)(ucast k := ?c), last_tid := k, phys := m,
       klower_mem_ptab := (klower_mem_ptab s)(temp_slot := 0)\<rparr>)"
    unfolding s'(3) using assms(2) by (simp add: with_tid_def strip_def upd_tcb_def set_temp_pte_def)
  moreover have "?c = \<lparr>wait_for_kernel_msg = False, thread_state = PAUSED, priority = 2, wait_tid = NULL_TID,
       receiver_wait_queue = null_list, sender_wait_queue = null_list, prev_tid = NULL_TID,
       next_tid = NULL_TID, ex_handler = NULL_TID, pager = NULL_TID, event_mask = 0,
       pending_events = 0, cap_table = 0, cap_table_size = 0, fxsave_state = 0, fxsave_state_len = 0,
       xsave_rfbm = 0, user_exec_state = \<lparr>gs = 0, fs = 0, es = 0x23, ds = 0x23, edi = 0, esi = 0,
         ebp = stack_top, ebx = 0, edx = 0, ecx = 0, eax = 0, eip = entry, cs = 0x1B,
         eflags = 0x3200, user_esp = stack_top, user_ss = 0x23\<rparr>, root_pmap = root\<rparr>"
    by (simp add: new_tcb_def zero_tcb_def zero_exec_state_def EFLAGS_IF_def EFLAGS_IOPL3_def UCODE_SEL_def UDATA_SEL_def
        NORMAL_PRIORITY_def)
  ultimately show ?thesis using s'(1,2) m(2-4) by blast
qed

theorem thread_create_effect_witness:
  "\<exists>s'. thread_create 0x400000 0x2000 0x7000 ex_state = Ret (Some 8) s' \<and>
     kinv s' (ex_Q(PausedList := [8, 4])) \<and> phys32 (phys s') 0x2FFC = 0x2003 \<and>
     eip (user_exec_state (tcb_table s' 8)) = 0x400000 \<and> thread_state (tcb_table s' 8) = PAUSED"
proof -
  let ?l = "0xFF7FF000 :: paddr" and ?xs = "replicate 16 (0 :: 8 word)"
  let ?R = "root_pmap_area ?l 0x2000"
  have p: "\<not> tcb_table_lock ex_state" "length ?xs = 16" "last_tid ex_state < 8"
      "0x2000 = (if 0x2000 = CURRENT_ROOT_PMAP then get_root_page_map ex_state else 0x2000)"
      "unat (8 :: 32 word) < TCB_TABLE_SIZE"
      "thread_state (tcb_table ex_state (ucast (8 :: 32 word))) = INACTIVE"
      "ex_Q (SenderQueue (ucast (8 :: 32 word))) = []" "ex_Q (ReceiverQueue (ucast (8 :: 32 word))) = []"
      "ex_Q PausedList = [4]" "ucast (8 :: 32 word) = (8 :: tid)"
    by (simp_all add: ex_Q_def CURRENT_ROOT_PMAP_def table_sizes ex_tcb_state)
  have n: "thread_state (tcb_table ex_state (ucast i)) \<noteq> INACTIVE" if "last_tid ex_state < i" "i < 8" for i
    using that by (simp add: word_less_nat_alt)
  have d: "range_of ?l 4 \<inter> range_of (0x2000 + 0xFEC) 20 = {}"
    by (auto dest!: range_of_index [of _ ?l] simp: ex_outside)
  have l: "local_maps ex_state ?R ?l"
    using unat_offset [of ?l] by (simp add: local_maps_def in_window_nat)
  have v: "vreads ex_state ?R (0xFFFFFFEC + of_nat i) (?xs ! i)" if "i < 16" for i
  proof -
    have "\<not> in_window (0xFFFFFFEC + of_nat i)"
      using unat_offset [of "0xFFFFFFEC" i] that by (simp add: in_window_nat)
    moreover have "0xFFFFFFEC + of_nat i \<notin> ?R"
      using that by (simp add: root_pmap_area_def ex_outside)
    ultimately show ?thesis using ex_vreads [of ex_state "0xFFFFFFEC + of_nat i" ?R] that by simp
  qed
  obtain s' c m where s': "thread_create 0x400000 0x2000 0x7000 ex_state = Ret (Some 8) s'"
      "kinv s' (ex_Q(PausedList := [8, 4]))"
      "strip s' = strip (ex_state\<lparr>tcb_table := (tcb_table ex_state)(8 := c), last_tid := 8, phys := m,
       klower_mem_ptab := (klower_mem_ptab ex_state)(temp_slot := 0)\<rparr>)"
      "eip (user_exec_state c) = 0x400000" "thread_state c = PAUSED" "phys32 m 0x2FFC = 0x2003"
    using thread_create_effect [OF ex_kinv p(1,4) refl d l p(2) v p(3,5,6) n p(7,8),
        of "0x400000" "0x7000"] unfolding p(9,10)
    by auto
  have "phys s' = m" using strip_eqD(8) [OF s'(3)] by simp
  moreover have "strip_tcb (tcb_table s' 8) = strip_tcb c" using strip_eqD(1) [OF s'(3), of 8] by simp
  from strip_tcb_eqD [OF this] have "user_exec_state (tcb_table s' 8) = user_exec_state c"
      "thread_state (tcb_table s' 8) = thread_state c" by blast+
  ultimately show ?thesis using s' by auto
qed

text \<open>
  The search of \<^verbatim>\<open>thread_create\<close> never wraps around: once no entry after the last one handed out
  is inactive - even if earlier threads have been released - it reads past the end of the
  16-entry table.
\<close>

theorem thread_create_leaves_table:
  assumes "\<not> tcb_table_lock s" and "unat (last_tid s) < TCB_TABLE_SIZE"
    and "root = (if addr_space = CURRENT_ROOT_PMAP then get_root_page_map s else addr_space)"
    and "initialize_root_pmap root s = Ret E_OK s1"
    and "\<And>i. unat (last_tid s) < i \<Longrightarrow> i < TCB_TABLE_SIZE \<Longrightarrow>
      thread_state (tcb_table s (of_nat i)) \<noteq> INACTIVE"
  shows "thread_create entry addr_space stack_top s = Fault OutOfBounds"
  using thread_create_overruns [OF assms] .

theorem thread_create_leaves_table_witness:
  "thread_create 0x400000 0x2000 0x7000 (ex_state\<lparr>last_tid := 15\<rparr>) = Fault OutOfBounds"
proof -
  obtain s1 where "initialize_root_pmap 0x2000 (ex_state\<lparr>last_tid := 15\<rparr>) = Ret E_OK s1"
    using ex_initialize_root_pmap by blast
  then show ?thesis
    using thread_create_leaves_table [of "ex_state\<lparr>last_tid := 15\<rparr>" "0x2000" "0x2000"]
    by (auto simp: CURRENT_ROOT_PMAP_def table_sizes)
qed

section \<open>The context switch\<close>

text \<open>
  \<^verbatim>\<open>thread_switch_context\<close> hands the FPU state of the previous thread to the next one: when it is
  called after \<^verbatim>\<open>schedule\<close> the new thread is already current, so the registers of the old thread
  are saved into the new thread's area, over its own image, and restored from there.
\<close>

theorem switch_context_leaks_fpu:
  assumes "thread_get_current s = Some t" and "in_table t"
    and "thread_state (tcb_table s t) = RUNNING" and "fxsave_state (tcb_table s t) \<noteq> 0"
    and "init_server_thread s = Some i" and "in_table i"
  shows "\<exists>s'. (thread_switch_context t True s :: (kstate, unit) kres) = Switch s' \<and> fpu s' = fpu s \<and>
     fx_mem s' = (fx_mem s)(fxsave_state (tcb_table s t) := fpu s)"
proof -
  have "(thread_switch_context t True s :: (kstate, unit) kres) = Switch (switched t i True s)"
    using assms by (intro thread_switch_context_eq) auto
  then show ?thesis using assms(1,4) by (simp add: switched_def Let_def)
qed

theorem switch_context_leaks_fpu_witness:
  "let s = ex_state\<lparr>tcb_table := ex_tcb(1 := (ex_tcb 1)\<lparr>fxsave_state := 0x6000\<rparr>), fpu := [1, 2],
       fx_mem := (\<lambda>a. if a = 0x6000 then [3, 4] else [])\<rparr> in
   \<exists>s'. (thread_switch_context 1 True s :: (kstate, unit) kres) = Switch s' \<and> fpu s' = [1, 2] \<and> fx_mem s' 0x6000 = [1, 2]"
proof -
  let ?s = "ex_state\<lparr>tcb_table := ex_tcb(1 := (ex_tcb 1)\<lparr>fxsave_state := 0x6000\<rparr>), fpu := [1, 2],
       fx_mem := (\<lambda>a. if a = 0x6000 then [3, 4] else [])\<rparr>"
  have "thread_get_current ?s = Some 1" using ex_current by (simp add: thread_get_current_def)
  then have "\<exists>s'. (thread_switch_context 1 True ?s :: (kstate, unit) kres) = Switch s' \<and> fpu s' = fpu ?s \<and>
      fx_mem s' = (fx_mem ?s)(fxsave_state (tcb_table ?s 1) := fpu ?s)"
    by (rule switch_context_leaks_fpu [where i = 2]) (simp_all add: ex_tcb_state)
  then show ?thesis by (auto simp: Let_def)
qed

section \<open>Memory\<close>

text \<open>
  C28. \<^verbatim>\<open>memset\<close> with its alignment loop, word stores and byte tail fills the \<open>len\<close> bytes from
  \<open>ptr\<close> on, in increasing order, exactly as the plain byte loop does, faults included.
\<close>

theorem memset_is_byte_fill:
  "memset ptr value len = kthen (rep_stosb ptr (word_of_int value) (unat len)) (kret ptr)"
  by (rule memset_fills)

text \<open>
  \<^verbatim>\<open>map_temp\<close> maps as many of the requested pages as fit between the given address and the end of
  the temporary window, consecutive frames to consecutive entries, touches no other entry,
  returns the number of pages mapped, and refuses addresses below the window.
\<close>

theorem map_temp_bounds:
  "map_temp virt base count s =
     (let addr = ALIGN_DOWN virt PAGE_SIZE; pte = unat (PTE_INDEX addr);
          m = min (unat count) ((unat KERNEL_TEMP_END - unat addr) div unat PAGE_SIZE) in
      if addr < KERNEL_TEMP_START then Ret 0 s
      else Ret (of_nat m)
        (s\<lparr>klower_mem_ptab := (\<lambda>j. if pte \<le> j \<and> j < pte + m
             then temp_pte (ALIGN_DOWN base PAGE_SIZE + of_nat (j - pte) * PAGE_SIZE)
             else klower_mem_ptab s j)\<rparr>))"
  unfolding map_temp_eq map_count_def ..

text \<open>
  C24. A page map entry that has been written is read back; the write changes the four bytes of the
  entry and nothing else in physical memory.
\<close>

theorem pmap_entry_roundtrip:
  assumes "n < 1024"
  shows "\<exists>s'. write_pmap_entry pmap n v s = Ret E_OK s' \<and> read_pmap_entry pmap n s' = Ret (E_OK, v) s' \<and>
     (\<forall>q. (\<forall>i<4. q \<noteq> entry_paddr s pmap n + of_nat i) \<longrightarrow> phys s' q = phys s q)"
proof -
  let ?p = "entry_paddr s pmap n"
  let ?s = "set_temp_pte temp_slot 0 (s\<lparr>phys := put32 ?p v (phys s)\<rparr>)"
  have "entry_paddr ?s pmap n = ?p"
    by (simp add: entry_paddr_def root_of_def get_root_page_map_def set_temp_pte_def)
  then have "read_pmap_entry pmap n ?s = Ret (E_OK, v) ?s"
    using read_pmap_entry_eq [OF assms, of pmap ?s] by (simp add: set_temp_pte_def phys32_put32)
  moreover have "phys ?s q = phys s q" if "\<forall>i<4. q \<noteq> ?p + of_nat i" for q
    using that [rule_format, of 0] that [rule_format, of 1] that [rule_format, of 2]
      that [rule_format, of 3] by (simp add: set_temp_pte_def put32_def)
  ultimately show ?thesis using write_pmap_entry_eq [OF assms, of pmap v s] by auto
qed

theorem pmap_entry_roundtrip_witness:
  "\<exists>s'. write_pmap_entry 0x2000 8 0x5003 ex_state = Ret E_OK s' \<and>
     read_pmap_entry 0x2000 8 s' = Ret (E_OK, 0x5003) s'"
  using pmap_entry_roundtrip [of 8 "0x2000" "0x5003" ex_state] by auto

text \<open>
  The frame number stored in a large page directory entry is the frame number read from it, for
  every 4 MiB aligned frame below \<open>2\<^sup>2\<^sup>8\<close>; no other field of the entry changes.
\<close>

theorem large_pde_base_roundtrip:
  assumes "bf_on is_page_sized e" and "take_bit 10 f = 0" and "drop_bit 28 f = 0"
  shows "get_pde_frame_number (set_large_pde_base e f) = f \<and>
    (bf_disjoint g base_lower \<longrightarrow> bf_disjoint g base_upper \<longrightarrow>
      bf_get g (set_large_pde_base e f) = bf_get g e)"
proof (intro conjI impI)
  show "bf_disjoint g base_lower \<Longrightarrow> bf_disjoint g base_upper \<Longrightarrow>
      bf_get g (set_large_pde_base e f) = bf_get g e"
    by (simp add: set_large_pde_base_def bf_get_set_other)
  have lo: "\<not> bit f n" if "n < 10" for n
    using assms(2) that bit_take_bit_iff [of 10 f n] by simp
  have hi: "\<not> bit f n" if "28 \<le> n" for n
  proof -
    have "bit f n = bit (drop_bit 28 f) (n - 28)" using that by (simp add: bit_drop_bit_eq)
    then show ?thesis using assms(3) by simp
  qed
  have "bf_on is_page_sized (set_large_pde_base e f)"
    using assms(1) by (simp add: set_large_pde_base_def bf_on_def bf_get_set_other bf_disjoint_def fields)
  moreover have "bf_get base_lower (set_large_pde_base e f) = take_bit 10 (drop_bit 10 f)"
    "bf_get base_upper (set_large_pde_base e f) = take_bit 8 (drop_bit 20 f)"
    by (simp_all add: set_large_pde_base_def bf_get_set_other bf_get_set_same bf_disjoint_def fields
        and_mask_split take_bit_eq_mask mask_eq_exp_minus_1 ac_simps)
  moreover have "push_bit 10 (take_bit 10 (drop_bit 10 f)) OR push_bit 20 (take_bit 8 (drop_bit 20 f)) = f"
  proof (rule bit_word_eqI)
    fix n assume "n < LENGTH(32)"
    then consider "n < 10" | "10 \<le> n" "n < 20" | "20 \<le> n" "n < 28" | "28 \<le> n" by linarith
    then show "bit (push_bit 10 (take_bit 10 (drop_bit 10 f)) OR
        push_bit 20 (take_bit 8 (drop_bit 20 f))) n = bit f n"
      using lo [of n] hi [of n] by cases (auto simp: bit_simps dest: bit_imp_le_length)
  qed
  ultimately show "get_pde_frame_number (set_large_pde_base e f) = f"
    by (simp add: get_pde_frame_number_def)
qed

theorem large_pde_base_roundtrip_witness:
  "get_pde_frame_number (set_large_pde_base 0x80 0x12400) = 0x12400 \<and>
   bf_get is_user (set_large_pde_base 0x84 0x12400) = bf_get is_user 0x84"
  using large_pde_base_roundtrip [of "0x80" "0x12400"]
    large_pde_base_roundtrip [of "0x84" "0x12400" is_user]
  by (simp add: bf_on_def bf_get_def fields bf_disjoint_def take_bit_eq_mask mask_eq_exp_minus_1)

text \<open>
  \<^verbatim>\<open>is_readable\<close> does not look at the present bit of a directory entry that points to a page table:
  it answers 1 for an address behind an absent entry as soon as the memory the entry's frame
  number points to looks like a present page, while a copy to the same address is refused with
  \<^verbatim>\<open>E_NOT_MAPPED\<close>.
\<close>

theorem is_readable_ignores_absent_pde:
  assumes "pde = phys32 (phys s) (entry_paddr s dir (PDE_INDEX a))"
    and "\<not> bf_on is_present pde" and "\<not> bf_on is_page_sized pde"
    and "bf_on is_present (phys32 (phys s) (PBASE_TO_PADDR (bf_get entry_base pde) + 4 * PTE_INDEX a))"
    and "dir \<noteq> get_root_page_map s" and "dir \<noteq> CURRENT_ROOT_PMAP" and "a \<noteq> 0" and "len \<noteq> 0"
  shows "(\<exists>s1. is_readable a dir s = Ret 1 s1) \<and>
    (\<exists>s2. poke_virt a len buffer dir s = Ret E_NOT_MAPPED s2)"
proof (intro conjI impI)
  have ok: "\<not> IS_ERROR E_OK" by (simp add: error_codes)
  let ?s = "set_temp_pte temp_slot 0 s" and ?t = "PBASE_TO_PADDR (bf_get entry_base pde)"
  have 1: "read_pde (PDE_INDEX a) dir s = Ret (E_OK, pde) ?s"
    using read_pmap_entry_eq [OF index_less(1) [of a], of dir s] assms(1) by (simp add: read_pde_def)
  have "entry_paddr ?s ?t (PTE_INDEX a) = ?t + 4 * PTE_INDEX a"
    using PBASE_not_current PBASE_aligned by (simp add: entry_paddr_def root_of_def)
  then have 2: "read_pte (PTE_INDEX a) ?t ?s =
      Ret (E_OK, phys32 (phys s) (?t + 4 * PTE_INDEX a)) (set_temp_pte temp_slot 0 ?s)"
    using read_pmap_entry_eq [OF index_less(2) [of a], of ?t ?s] by (simp add: read_pte_def set_temp_pte_def)
  have f: "get_pde_frame_number pde = bf_get entry_base pde"
    using assms(3) by (simp add: get_pde_frame_number_def)
  show "\<exists>s1. is_readable a dir s = Ret 1 s1"
    using 1 2 f ok assms(3,4) by (simp add: is_readable_def is_accessible_def kbind_def kret_def)
  have "walk_page (phys s) dir a = None"
    using assms(1,2,6) by (simp add: walk_page_def entry_paddr_def root_of_def)
  then show "\<exists>s2. poke_virt a len buffer dir s = Ret E_NOT_MAPPED s2"
    using poke_virt_unmapped [OF assms(5-8)] by blast
qed

theorem is_readable_ignores_absent_pde_witness:
  "let s = ex_mem (put32 0x3020 0x5003 (put32 0x2000 0x3002 (\<lambda>_. 0))) in
   (\<exists>s1. is_readable 0x8000 0x2000 s = Ret 1 s1) \<and>
   (\<exists>s2. poke_virt 0x8000 1 0x9000 0x2000 s = Ret E_NOT_MAPPED s2)"
proof -
  let ?m = "put32 0x3020 0x5003 (put32 0x2000 0x3002 (\<lambda>_. 0))"
  have p: "entry_paddr (ex_mem ?m) 0x2000 (PDE_INDEX 0x8000) = 0x2000"
    by (simp add: entry_paddr_def root_of_def CURRENT_ROOT_PMAP_def PDE_INDEX_def ALIGN_DOWN_def PAGE_SIZE_def)
  have v: "phys32 ?m 0x2000 = 0x3002" "phys32 ?m 0x3020 = 0x5003"
    by (simp_all add: phys32_def put32_def byte_of_def word_of_bytes_def)
  have b: "\<not> bf_on is_present (0x3002 :: 32 word)" "\<not> bf_on is_page_sized (0x3002 :: 32 word)"
    "bf_on is_present (0x5003 :: 32 word)"
    "PBASE_TO_PADDR (bf_get entry_base 0x3002) + 4 * PTE_INDEX 0x8000 = 0x3020"
    by (simp_all add: bf_on_def bf_get_def fields PBASE_TO_PADDR_def PTE_INDEX_def take_bit_eq_mask
        mask_eq_exp_minus_1)
  have h: "\<not> bf_on is_present (phys32 (phys (ex_mem ?m)) (entry_paddr (ex_mem ?m) 0x2000 (PDE_INDEX 0x8000)))"
    "\<not> bf_on is_page_sized (phys32 (phys (ex_mem ?m)) (entry_paddr (ex_mem ?m) 0x2000 (PDE_INDEX 0x8000)))"
    "bf_on is_present (phys32 (phys (ex_mem ?m)) (PBASE_TO_PADDR (bf_get entry_base
       (phys32 (phys (ex_mem ?m)) (entry_paddr (ex_mem ?m) 0x2000 (PDE_INDEX 0x8000)))) + 4 * PTE_INDEX 0x8000))"
    unfolding p ex_mem_fields v b(4) by (rule b(1-3))+
  have n: "0x2000 \<noteq> get_root_page_map (ex_mem ?m)" "0x2000 \<noteq> CURRENT_ROOT_PMAP"
    "(0x8000 :: 32 word) \<noteq> 0" "(1 :: 32 word) \<noteq> 0"
    unfolding ex_root by (simp_all add: CURRENT_ROOT_PMAP_def)
  show ?thesis
    unfolding Let_def
    using is_readable_ignores_absent_pde [OF refl h n]
    by blast
qed

section \<open>Interrupts\<close>

text \<open>
  C27. Registering a free IRQ line and giving it up again restores the handler table and the
  thread's control block, provided the thread did not use the line's event bit before. While
  registered, the line is held by the current thread and exactly its bit is set in the event
  mask; a second registration and lines beyond 23 are refused without effect.
\<close>

theorem irq_register_roundtrip:
  assumes "in_table t" and "irq < 24" and "irq_handlers s (unat irq) = None"
    and "thread_get_current s = Some t"
    and "\<not> bit (event_mask (tcb_table s t)) (unat irq + 8)"
    and "\<not> bit (pending_events (tcb_table s t)) (unat irq + 8)"
  shows "\<exists>s1. irq_register t irq s = Ret E_OK s1 \<and> irq_handlers s1 (unat irq) = Some t \<and>
     (\<forall>n. bit (event_mask (tcb_table s1 t)) n \<longleftrightarrow> bit (event_mask (tcb_table s t)) n \<or> n = unat irq + 8) \<and>
     (\<forall>u. in_table u \<longrightarrow> irq_register u irq s1 = Ret E_FAIL s1) \<and>
     irq_unregister t irq s1 = Ret E_OK s"
proof -
  let ?s = "upd_tcb t (enabled irq) (set_irq_handler (unat irq) (Some t) s)"
  have d: "disabled irq (enabled irq (tcb_table s t)) = tcb_table s t"
    using disabled_enabled [OF assms(2,5,6)] .
  have h: "(irq_handlers s)(unat irq := None) = irq_handlers s" using assms(3) by auto
  have "upd_tcb t (disabled irq) (set_irq_handler (unat irq) None ?s) = s"
    by (simp add: upd_tcb_def set_irq_handler_def d h)
  then show ?thesis
    using irq_register_eq [OF assms(1,2), of s] irq_register_eq [OF _ assms(2), of _ ?s]
      irq_unregister_eq [OF assms(1,2), of ?s] enabled_bits(1) [OF assms(2)] assms(3,4)
    by (intro exI [of _ ?s]) auto
qed

theorem irq_register_roundtrip_witness:
  "\<exists>s1. irq_register 1 5 ex_state = Ret E_OK s1 \<and> irq_handlers s1 5 = Some 1 \<and>
     irq_unregister 1 5 s1 = Ret E_OK ex_state"
  using irq_register_roundtrip [of 1 5 ex_state] by (auto simp: ex_tcb_state)

text \<open>
  Interrupts are lost: registration sets event bit 8 for line 0, the handler tests and raises bit
  0. Whatever line a thread registers, \<^verbatim>\<open>handle_irq\<close> neither wakes it nor records an event, but
  only resumes the interrupted context.
\<close>

theorem registered_irq_is_lost:
  assumes "in_table t" and "irq < 24" and "thread_get_current s = Some t"
    and "irq_register t irq s = Ret E_OK s1" and "\<not> bit (event_mask (tcb_table s t)) 0"
    and "\<And>u. irq_handlers s 0 = Some u \<Longrightarrow> u = t"
  shows "handle_irq frame s1 = Switch (s1\<lparr>user_regs := frame\<rparr>)"
proof -
  have s1: "s1 = upd_tcb t (enabled irq) (set_irq_handler (unat irq) (Some t) s)"
    using irq_register_eq [OF assms(1,2), of s] assms(3,4) by (auto simp: error_codes split: if_splits)
  have "u = t" if "irq_handlers s1 0 = Some u" for u
    using that assms(6) by (auto simp: s1 split: if_splits)
  then show ?thesis
    using assms(1,5) enabled_bits(1) [OF assms(2), of "tcb_table s t" 0]
    by (intro handle_irq_idle) (auto simp: s1)
qed

theorem registered_irq_is_lost_witness:
  "\<exists>s1. irq_register 1 0 ex_state = Ret E_OK s1 \<and> irq_handlers s1 0 = Some 1 \<and>
     handle_irq zero_exec_state s1 = Switch (s1\<lparr>user_regs := zero_exec_state\<rparr>)"
proof -
  let ?s = "upd_tcb 1 (enabled 0) (set_irq_handler 0 (Some 1) ex_state)"
  have r: "irq_register 1 0 ex_state = Ret E_OK ?s" by (simp add: irq_register_eq)
  then show ?thesis
    using registered_irq_is_lost [OF _ _ ex_current r, of zero_exec_state] by (simp add: ex_tcb_state)
qed

text \<open>
  An exception of a thread without an exception handler releases the thread; it is the thread
  that was running, so that the processor is left without a current thread.
\<close>

theorem unhandled_exception_releases:
  assumes k: "kinv s Q" and cur: "thread_get_current s = Some t"
    and "ex_num f \<noteq> 13 \<or> cs (frame_state f) \<noteq> UCODE_SEL" and "ex_handler (tcb_table s t) = NULL_TID"
  shows "\<exists>s'. handle_cpu_exception ss f s = Ret () s' \<and> thread_state (tcb_table s' t) = INACTIVE \<and>
     thread_get_current s' = None \<and>
     kinv_ex (set (Q (SenderQueue t)) - {t}) s' ((Qdel t Q)(SenderQueue t := []))"
proof -
  note t = kinv_current(2) [OF k cur] and run = kinv_current(3) [OF k cur]
  obtain s' where s': "thread_release t s = Ret E_OK s'"
      "kinv_ex (set (Q (SenderQueue t)) - {t}) s' ((Qdel t Q)(SenderQueue t := []))"
      "strip s' = upd_tcb t (\<lambda>c. c\<lparr>thread_state := INACTIVE\<rparr>)
         (unregister_handlers t (unreach_all (set (Q (SenderQueue t)) - {t}) (detached t (strip s))))"
    using thread_release_kinv [OF k t] run by auto
  have "in_table t" using t by auto
  then have "handle_cpu_exception ss f s = Ret () s'"
    using handle_cpu_exception_unhandled [OF cur _ assms(3,4)] s'(1) by (simp add: kbind_def kskip_def)
  moreover have "thread_get_current s' = None"
    using strip_fields(8) [OF s'(3)] cur run kinv_exD(2) [OF k]
    by (simp add: thread_get_current_def processor_get_current_def unregister_handlers_def
        unreach_all_def detached_def cpu_drop_def wf_cpus_def)
  moreover have "thread_state (tcb_table s' t) = INACTIVE" using strip_fields(3) [OF s'(3), of t] by simp
  ultimately show ?thesis using s'(2) by blast
qed

theorem unhandled_exception_releases_witness:
  "\<exists>s'. handle_cpu_exception 0x10 \<lparr>ex_num = 14, error_code = 4, old_tss_esp0 = 0,
       frame_state = zero_exec_state\<rparr> ex_state = Ret () s' \<and>
     thread_state (tcb_table s' 1) = INACTIVE \<and> thread_get_current s' = None"
  using unhandled_exception_releases [OF ex_kinv ex_current, of "\<lparr>ex_num = 14, error_code = 4,
      old_tss_esp0 = 0, frame_state = zero_exec_state\<rparr>" "0x10"]
  by (auto simp: ex_tcb_state)

text \<open>
  C31. An exception of a thread whose handler (for page faults its pager) waits for a message is
  delivered as a kernel message with the 76 bytes of the exception record; the handler becomes
  ready, and the faulting thread stays the running thread.
\<close>

theorem exception_is_delivered:
  assumes "kinv s Q" and "thread_get_current s = Some t"
    and "ex_num f \<noteq> 13 \<or> cs (frame_state f) \<noteq> UCODE_SEL"
    and "ex_handler (tcb_table s t) \<noteq> NULL_TID"
    and "h = (if ex_num f = 14 then pager (tcb_table s t) else ex_handler (tcb_table s t))"
    and "is_thread h" and "h \<noteq> t" and "thread_state (tcb_table s h) = WAIT_FOR_SEND"
    and "\<not> wait_for_kernel_msg (tcb_table s h) \<or> wait_tid (tcb_table s h) = NULL_TID"
    and "local_var s \<noteq> 0"
    and "store_bytes (local_var s) (exception_message ss f t s) s = Ret () s0"
    and "n = min (edi (user_exec_state (tcb_table s h))) 76"
    and "poke_virt (ebx (user_exec_state (tcb_table s h))) n (local_var s)
        (root_pmap (tcb_table s h)) s0 = Ret e s1" and "\<not> IS_ERROR e"
  shows "\<exists>s'. handle_cpu_exception ss f s = Ret () s' \<and>
     kinv s' (moved h (run_queue s h) Q) \<and> thread_state (tcb_table s' t) = RUNNING \<and>
     strip s' = upd_tcb t (sent h n) (upd_tcb h (delivered True t EXCEPTION_MSG MSG_KERNEL n)
       (upd_tcb h (\<lambda>c. c\<lparr>wait_tid := NULL_TID, thread_state := READY\<rparr>) (strip s1)))"
  using handle_cpu_exception_delivers [OF assms] .

lemma ex_store_bytes:
  assumes "mmu s = (\<lambda>_ _ a. Some a)" and "unat a + length bs \<le> 0xFF991000"
  shows "\<exists>m. store_bytes a bs s = Ret () (s\<lparr>phys := m\<rparr>)"
  using assms
proof (induction bs arbitrary: a s)
  case Nil
  show ?case by (rule exI [of _ "phys s"]) (simp add: kskip_def)
next
  case (Cons b bs)
  have "\<not> in_window a"
    using Cons.prems(2) by (simp add: in_window_def KERNEL_TEMP_START_def word_le_nat_alt)
  then have s: "st8 a b s = Ret () (set_phys a b s)"
    using Cons.prems(1) by (simp add: st8_def translate_def)
  have "unat (a + 1) = Suc (unat a)"
    using Cons.prems(2) by (subst unat_add_lem [THEN iffD1]) simp_all
  then obtain m where "store_bytes (a + 1) bs (set_phys a b s) = Ret () (set_phys a b s\<lparr>phys := m\<rparr>)"
    using Cons.IH [of "set_phys a b s" "a + 1"] Cons.prems by auto
  then show ?case using s by (auto simp: kthen_def kbind_def set_phys_def)
qed

theorem exception_is_delivered_witness:
  "\<exists>s'. handle_cpu_exception 0x10 \<lparr>ex_num = 6, error_code = 0, old_tss_esp0 = 0,
       frame_state = zero_exec_state\<rparr> (upd_tcb 5 (upd_regs (\<lambda>r. r\<lparr>edi := 0\<rparr>))
         (upd_tcb 1 (\<lambda>c. c\<lparr>ex_handler := 5\<rparr>) ex_state)) = Ret () s' \<and>
     kinv s' (moved 5 (run_queue ex_state 5) ex_Q) \<and> thread_state (tcb_table s' 1) = RUNNING"
proof -
  let ?s = "upd_tcb 5 (upd_regs (\<lambda>r. r\<lparr>edi := 0\<rparr>)) (upd_tcb 1 (\<lambda>c. c\<lparr>ex_handler := 5\<rparr>) ex_state)"
  let ?f = "\<lparr>ex_num = 6, error_code = 0, old_tss_esp0 = 0, frame_state = zero_exec_state\<rparr>"
  have k: "kinv ?s ex_Q"
    by (rule kinv_upd_keeps, rule kinv_upd_keeps [OF ex_kinv])
      (simp_all add: keeps_sched_def keeps_links_def upd_regs_def)
  have cur: "thread_get_current ?s = Some 1" using ex_current by (simp add: thread_get_current_def)
  have lv: "local_var ?s = 0xFF7FF000" by (simp add: upd_tcb_def)
  obtain m where st: "store_bytes (local_var ?s) (exception_message 0x10 ?f 1 ?s) ?s =
      Ret () (?s\<lparr>phys := m\<rparr>)"
    using ex_store_bytes [of ?s "local_var ?s" "exception_message 0x10 ?f 1 ?s"]
    by (auto simp: length_exception_message lv)
  have c: "user_exec_state (tcb_table ?s 5) = (user_exec_state (ex_tcb 5))\<lparr>edi := 0\<rparr>"
    "root_pmap (tcb_table ?s 5) = 0x1000"
    by (simp_all add: upd_regs_def ex_tcb_state)
  have "get_root_page_map (?s\<lparr>phys := m\<rparr>) = 0x1000"
    using ex_root [of m] by (simp add: get_root_page_map_def upd_tcb_def)
  then have p: "poke_virt (ebx (user_exec_state (tcb_table ?s 5))) 0 (local_var ?s)
      (root_pmap (tcb_table ?s 5)) (?s\<lparr>phys := m\<rparr>) = Ret E_OK (?s\<lparr>phys := m\<rparr>)"
    unfolding c by (simp add: poke_virt_def kthen_def kbind_def kget_def kret_def memcpy_def kskip_def)
  have n: "0 = min (edi (user_exec_state (tcb_table ?s 5))) (76 :: 32 word)"
    unfolding c by (simp add: min_def)
  have "\<exists>s'. handle_cpu_exception 0x10 ?f ?s = Ret () s' \<and>
     kinv s' (moved 5 (run_queue ?s 5) ex_Q) \<and> thread_state (tcb_table s' 1) = RUNNING \<and>
     strip s' = upd_tcb 1 (sent 5 0) (upd_tcb 5 (delivered True 1 EXCEPTION_MSG MSG_KERNEL 0)
       (upd_tcb 5 (\<lambda>c. c\<lparr>wait_tid := NULL_TID, thread_state := READY\<rparr>) (strip (?s\<lparr>phys := m\<rparr>))))"
    by (rule exception_is_delivered [OF k cur _ _ _ _ _ _ _ _ st n p])
      (simp_all add: lv ex_tcb_state upd_regs_def error_codes)
  moreover have "run_queue ?s 5 = run_queue ex_state 5" by (simp add: run_queue_def upd_regs_def)
  ultimately show ?thesis by auto
qed

text \<open>
  C26. The sleep call with time 0 yields: the caller is put back into its run queue and the longest
  waiting thread of the highest ready priority, from the caller's on, takes the processor; without
  such a thread the call fails and changes nothing. With an infinite time the caller is paused and
  the next thread runs.
\<close>

theorem sys_sleep_schedules:
  assumes "kinv s Q" and "thread_get_current s = Some t"
    and "init_server_thread s = Some i" and "in_table i"
  shows "(arg1 args = 0 \<longrightarrow>
       (case pick Q (unat (priority (tcb_table s t))) NUM_PRIORITIES of
          None \<Rightarrow> handle_sys_sleep args s = Ret ESYS_FAIL s
        | Some p \<Rightarrow> let nx = last (Q (RunQueue p)) in
            \<exists>s1. handle_sys_sleep args s = Switch (switched nx i True s1) \<and>
              kinv s1 (requeued s (Some t) (Q(RunQueue p := butlast (Q (RunQueue p))))) \<and>
              thread_get_current s1 = Some nx \<and> thread_state (tcb_table s1 t) = READY)) \<and>
    (arg1 args = SL_INF_DURATION \<longrightarrow> pick Q MIN_PRIORITY NUM_PRIORITIES = Some p \<longrightarrow>
       (\<exists>s1. handle_sys_sleep args s = Switch (switched (last (Q (RunQueue p))) i True s1) \<and>
         kinv s1 (Q(PausedList := t # Q PausedList, RunQueue p := butlast (Q (RunQueue p)))) \<and>
         thread_get_current s1 = Some (last (Q (RunQueue p)))))"
  using handle_sys_sleep_yield [OF assms(1,2) _ assms(3,4)]
    handle_sys_sleep_forever [OF assms(1,2) _ _ assms(3,4)] by blast+

theorem sys_sleep_schedules_witness:
  "(\<exists>s1. handle_sys_sleep (pushed_args zero_exec_state) ex_state = Switch (switched 2 2 True s1) \<and>
      thread_get_current s1 = Some 2 \<and> thread_state (tcb_table s1 1) = READY) \<and>
   (\<exists>s1. handle_sys_sleep (pushed_args (zero_exec_state\<lparr>ebx := SL_INF_DURATION\<rparr>)) ex_state =
      Switch (switched 2 2 True s1) \<and> thread_get_current s1 = Some 2)"
  using sys_sleep_schedules [OF ex_kinv, of 1 2 "pushed_args zero_exec_state"]
    sys_sleep_schedules [OF ex_kinv, of 1 2
      "pushed_args (zero_exec_state\<lparr>ebx := SL_INF_DURATION\<rparr>)" 2]
  by (auto simp: pushed_args_def zero_exec_state_def ex_tcb_state NORMAL_PRIORITY_def MIN_PRIORITY_def
      ex_pick ex_Q_def Let_def)

text \<open>
  Setting the status of another thread to paused through the thread information call takes
  the thread off its list and writes the state, but enters it in no list: it is paused and missing
  from the paused list, so that only the threads not in that state satisfy the invariant.
\<close>

theorem update_tcb_pause_loses_thread:
  assumes "kinv s Q" and "is_thread t" and "thread_state (tcb_table s t) \<notin> {INACTIVE, SLEEPING}"
    and "ld16 args s = Ret t s" and "ld32 (args + 4) s = Ret TF_STATUS s"
    and "ld32 (args + 8) s = Ret info s" and "ld8 (info + 56) s = Ret (state_num PAUSED) s"
  shows "\<exists>s'. handle_sys_update_tcb args s = Ret ESYS_OK s' \<and> kinv_ex {t} s' (Qdel t Q) \<and>
     thread_state (tcb_table s' t) = PAUSED \<and> t \<notin> set (Qdel t Q PausedList) \<and>
     (\<nexists>Q'. kinv s' Q')"
proof -
  obtain s' where s': "handle_sys_update_tcb args s = Ret ESYS_OK s'" "kinv_ex {t} s' (Qdel t Q)"
      "thread_state (tcb_table s' t) = PAUSED"
    using handle_sys_update_tcb_pause [OF assms] by auto
  have d: "t \<notin> set (Qdel t Q r)" for r by (simp add: Qdel_def)
  have "\<not> kinv s' Q'" for Q'
  proof
    assume k: "kinv s' Q'"
    then have "t \<in> set (Q' PausedList)"
      using assms(2) s'(3) by (simp add: kinv_ex_def wf_thread_def Let_def loc_def)
    moreover have "Q' = Qdel t Q"
      using k s'(2) by (auto simp: kinv_ex_def dest: repr_functional)
    ultimately show False using d by simp
  qed
  with s' d show ?thesis by blast
qed

theorem update_tcb_pause_loses_thread_witness:
  "\<exists>s'. handle_sys_update_tcb 0x4000 (ex_mem (\<lambda>p. if p = 0x4000 then 2 else if p = 0x4004 then 1
       else if p = 0x4009 then 0x50 else if p = 0x5038 then state_num PAUSED else 0)) = Ret ESYS_OK s' \<and>
     thread_state (tcb_table s' 2) = PAUSED \<and> (\<nexists>Q'. kinv s' Q')"
proof -
  let ?m = "\<lambda>p :: paddr. if p = 0x4000 then 2 else if p = 0x4004 then 1
    else if p = 0x4009 then 0x50 else if p = 0x5038 then state_num PAUSED else 0 :: 8 word"
  have a: "ld16 0x4000 (ex_mem ?m) = Ret 2 (ex_mem ?m)"
    by (simp add: ld16_def kbind_def kret_def ex_ld8 ex_low)
  have b: "ld32 (0x4000 + 4) (ex_mem ?m) = Ret TF_STATUS (ex_mem ?m)"
    "ld32 (0x4000 + 8) (ex_mem ?m) = Ret 0x5000 (ex_mem ?m)"
    by (simp_all add: ex_ld32 ex_low phys32_def word_of_bytes_def TF_STATUS_def push_bit_eq_mult)
  have c: "ld8 (0x5000 + 56) (ex_mem ?m) = Ret (state_num PAUSED) (ex_mem ?m)"
    by (simp add: ex_ld8 ex_low)
  show ?thesis
    using update_tcb_pause_loses_thread [OF ex_mem_kinv _ _ a b c] by (simp add: ex_tcb_state) blast
qed

text \<open>
  The call that is to give up an interrupt line does not: made by the owner it registers the
  line again, which fails, and the owner stays registered.
\<close>

theorem destroy_int_keeps_handler:
  assumes "thread_get_current s = Some t" and "ld32 args s = Ret irq s" and "irq < 24"
    and "irq_handlers s (unat irq) = Some t"
  shows "handle_sys_destroy_int args s = Ret E_FAIL s"
  using handle_sys_destroy_int_owner [OF assms] .

theorem destroy_int_keeps_handler_witness:
  "handle_sys_destroy_int 0x4000 (ex_mem (\<lambda>_. 0)\<lparr>irq_handlers := (\<lambda>_. None)(0 := Some 1)\<rparr>) =
     Ret E_FAIL (ex_mem (\<lambda>_. 0)\<lparr>irq_handlers := (\<lambda>_. None)(0 := Some 1)\<rparr>)"
proof -
  let ?s = "ex_mem (\<lambda>_. 0)\<lparr>irq_handlers := (\<lambda>_. None)(0 := Some 1)\<rparr>"
  have "thread_get_current ?s = Some 1"
    by (simp add: thread_get_current_def processor_get_current_def ex_mem_def)
  moreover have "ld32 0x4000 ?s = Ret 0 ?s"
    by (simp add: ld32_def kbind_def kret_def ld8_def translate_def ex_low word_of_bytes_def)
  ultimately show ?thesis by (rule destroy_int_keeps_handler) simp_all
qed

text \<open>
  C29. A system call through the user stub: for call numbers below 7 the handler of that number runs
  on the stub's arguments 1, 3 and 4 and its result arrives in \<^verbatim>\<open>eax\<close>, with execution continuing
  behind the stub; any other number reads past the handler table. The second argument of the stub
  never reaches the kernel, which reads the caller's \<^verbatim>\<open>ecx\<close> instead.
\<close>

theorem stub_system_call:
  shows "sysenter_entry (SYSCALL4 label num a1 a2 a3 a4 r) s =
       sysenter_entry (SYSCALL4 label num a1 b2 a3 a4 r) s \<and>
    (unat (num AND 0xFF) < 7 \<longrightarrow>
       args = \<lparr>syscall_arg = num, arg1 = a1, arg2 = ecx r, return_address = label, arg3 = a3,
         arg4 = a4, user_stack = user_esp r - 4, sys_eflags = eflags r\<rparr> \<longrightarrow>
       (case (syscall_table ! unat (num AND 0xFF)) args s of
          Ret ret s' \<Rightarrow> \<exists>regs. sysenter_entry (SYSCALL4 label num a1 a2 a3 a4 r) s =
              Switch (s'\<lparr>user_regs := regs\<rparr>) \<and> eax regs = word_of_int ret \<and> eip regs = label
        | Switch s' \<Rightarrow> sysenter_entry (SYSCALL4 label num a1 a2 a3 a4 r) s = Switch s'
        | Fault f \<Rightarrow> sysenter_entry (SYSCALL4 label num a1 a2 a3 a4 r) s = Fault f)) \<and>
    (7 \<le> unat (num AND 0xFF) \<longrightarrow>
       sysenter_entry (SYSCALL4 label num a1 a2 a3 a4 r) s = Fault OutOfBounds)"
proof (intro conjI impI)
  let ?r = "SYSCALL4 label num a1 a2 a3 a4 r"
  have e: "eax ?r = num" "edx ?r = label" by (simp_all add: SYSCALL4_def SYSENTER_INSTR_def Let_def)
  show "sysenter_entry ?r s = sysenter_entry (SYSCALL4 label num a1 b2 a3 a4 r) s"
    by (simp add: SYSCALL4_def SYSENTER_INSTR_def Let_def)
  show "sysenter_entry ?r s = Fault OutOfBounds" if "7 \<le> unat (num AND 0xFF)"
    using that by (intro sysenter_entry_bad) (simp add: e)
  assume n: "unat (num AND 0xFF) < 7" and a: "args = \<lparr>syscall_arg = num, arg1 = a1, arg2 = ecx r,
    return_address = label, arg3 = a3, arg4 = a4, user_stack = user_esp r - 4, sys_eflags = eflags r\<rparr>"
  have "sysenter_entry ?r s = kbind ((syscall_table ! unat (num AND 0xFF)) args) (\<lambda>ret.
      kthen (kmod (\<lambda>s. s\<lparr>user_regs := sysexit_regs ret ?r\<rparr>)) RESTORE_STATE) s"
    using n by (simp add: sysenter_entry_def Let_def kthen_def kbind_def kguard_def kret_def e
        pushed_args_SYSCALL4 a syscall_table_def)
  then show "case (syscall_table ! unat (num AND 0xFF)) args s of
      Ret ret s' \<Rightarrow> \<exists>regs. sysenter_entry ?r s =
          Switch (s'\<lparr>user_regs := regs\<rparr>) \<and> eax regs = word_of_int ret \<and> eip regs = label
    | Switch s' \<Rightarrow> sysenter_entry ?r s = Switch s'
    | Fault f \<Rightarrow> sysenter_entry ?r s = Fault f"
    by (auto simp: kexec sysexit_regs_def e split: kres.split)
qed

theorem stub_system_call_witness:
  "sysenter_entry (SYSCALL4 0x400 0 9 1 0 0 zero_exec_state) ex_state =
     sysenter_entry (SYSCALL4 0x400 0 9 2 0 0 zero_exec_state) ex_state \<and>
   (\<exists>regs. sysenter_entry (SYSCALL4 0x400 0 9 1 0 0 zero_exec_state) ex_state =
     Switch (ex_state\<lparr>user_regs := regs\<rparr>) \<and> eax regs = word_of_int ESYS_NOTIMPL \<and> eip regs = 0x400) \<and>
   sysenter_entry (SYSCALL4 0x400 7 0 0 0 0 zero_exec_state) ex_state = Fault OutOfBounds"
  using stub_system_call [THEN conjunct1, of "0x400" 0 9 1 0 0 zero_exec_state ex_state 2]
    stub_system_call [THEN conjunct2, THEN conjunct1, rule_format, OF _ refl, where num = 0 and label = "0x400" and ?a1.0 = 9 and ?a2.0 = 1
      and ?a3.0 = 0 and ?a4.0 = 0 and r = zero_exec_state and s = ex_state]
    stub_system_call [THEN conjunct2, THEN conjunct2, rule_format, where num = 7 and label = "0x400" and ?a1.0 = 0 and ?a2.0 = 0
      and ?a3.0 = 0 and ?a4.0 = 0 and r = zero_exec_state and s = ex_state]
  by (simp add: syscall_table_def handle_sys_create_def RES_TCB_def RES_INT_def kret_def)

text \<open>
  The update of page mappings never maps anything: a level of 2 or more is refused, with level 0
  or below no entry is visited although the call reports all mappings as done, and with level 1 the
  directory entry that is written is present only if it was present, and a user entry, before.
\<close>

theorem update_mappings_never_maps:
  assumes "load_pm_args p s = Ret args s" and "pm_mappings args \<noteq> 0"
    and "pm_addr_space args \<noteq> CURRENT_ROOT_PMAP"
  shows "(2 \<le> pm_level args \<longrightarrow> handle_sys_update_page_mappings p s = Ret ESYS_FAIL s) \<and>
    (pm_level args \<le> 0 \<longrightarrow> handle_sys_update_page_mappings p s = Ret (sint (pm_count args)) s) \<and>
    (pm_level args = 1 \<longrightarrow> pm_count args = 1 \<longrightarrow>
      ALIGN_DOWN (pm_addr_space args) PAGE_SIZE = pm_addr_space args \<longrightarrow>
      handle_sys_update_page_mappings p s = Ret 1 s' \<longrightarrow>
      e = phys32 (phys s) (pm_addr_space args + 4 * PDE_INDEX (pm_virt args)) \<longrightarrow>
      bf_on is_present (phys32 (phys s') (pm_addr_space args + 4 * PDE_INDEX (pm_virt args))) \<longrightarrow>
      bf_on is_present e \<and> bf_on is_user e)"
proof -
  have 1: "handle_sys_update_page_mappings p s = Ret ESYS_FAIL s" if "2 \<le> pm_level args"
    using that assms by (simp add: handle_sys_update_page_mappings_def kbind_def kret_def N_PM_LEVELS_def)
  have 2: "handle_sys_update_page_mappings p s = Ret (sint (pm_count args)) s" if "pm_level args \<le> 0"
    using update_page_mappings_none(1) [OF assms(1,2) that assms(3)] .
  have 3: "bf_on is_present e \<and> bf_on is_user e" if l: "pm_level args = 1" "pm_count args = 1"
    and al: "ALIGN_DOWN (pm_addr_space args) PAGE_SIZE = pm_addr_space args"
    and r: "handle_sys_update_page_mappings p s = Ret 1 s'"
    and e: "e = phys32 (phys s) (pm_addr_space args + 4 * PDE_INDEX (pm_virt args))"
    and pr: "bf_on is_present (phys32 (phys s') (pm_addr_space args + 4 * PDE_INDEX (pm_virt args)))"
  proof -
    have "update_levels args 0 (pm_virt args) (pm_addr_space args) 0 False 0 1 s = Ret True s'"
      using r unfolding update_page_mappings_one [OF assms(1,2) l assms(3) al]
      by (auto simp: kbind_eq_Ret_iff kret_def split: if_splits)
    from update_levels_entry [OF al assms(3) refl this, folded e] pr
    show ?thesis by (auto dest: switch_entry_present)
  qed
  show ?thesis using 1 2 3 by blast
qed

lemma ex_load_pm_args:
  assumes "l = 0 \<or> l = 1 \<or> l = 2"
  shows "load_pm_args 0x4000 (ex_mem (ex_pm l)) =
    Ret \<lparr>pm_virt = 0, pm_count = 1, pm_addr_space = 0x2000, pm_mappings = 0x6000, pm_level = sint l\<rparr>
      (ex_mem (ex_pm l))"
  using assms
  by (auto simp: load_pm_args_def kbind_def kret_def ex_ld32 ex_low phys32_def word_of_bytes_def
      ex_pm_def push_bit_eq_mult)

lemma ex_update_levels:
  assumes "args = \<lparr>pm_virt = 0, pm_count = 1, pm_addr_space = 0x2000, pm_mappings = 0x6000, pm_level = 1\<rparr>"
  shows "\<exists>s'. update_levels args 0 0 0x2000 0 False 0 1 (ex_mem (ex_pm 1)) = Ret True s' \<and>
     bf_on is_present (phys32 (phys s') 0x2000)"
proof -
  have al: "ALIGN_DOWN 0x2000 PAGE_SIZE = (0x2000 :: 32 word)" "(0x2000 :: 32 word) \<noteq> CURRENT_ROOT_PMAP"
    by (simp_all add: ALIGN_DOWN_def PAGE_SIZE_def CURRENT_ROOT_PMAP_def)
  note ep = entry_paddr_aligned [OF al]
  have i: "PDE_INDEX 0 = 0" by (simp add: PDE_INDEX_def)
  have st: "set_temp_pte temp_slot 0 (ex_mem (ex_pm 1)) = ex_mem (ex_pm 1)"
    by (simp add: set_temp_pte_def ex_mem_def ex_state_def fun_upd_def)
  have e: "phys32 (ex_pm 1) 0x2000 = 7" by (simp add: phys32_def word_of_bytes_def ex_pm_def)
  have rd: "read_pmap_entry 0x2000 0 (ex_mem (ex_pm 1)) = Ret (E_OK, 7) (ex_mem (ex_pm 1))"
    using read_pmap_entry_eq [of 0 "0x2000" "ex_mem (ex_pm 1)"] by (simp add: ep e st)
  have m: "load_mapping 0x6000 (ex_mem (ex_pm 1)) =
      Ret \<lparr>pm_type = PMT_PAGE, pm_flags = 0, phys_frame = 0x2000\<rparr> (ex_mem (ex_pm 1))"
    by (simp add: load_mapping_def kbind_def kret_def ex_ld32 ex_low phys32_def word_of_bytes_def
        ex_pm_def PMT_PAGE_def push_bit_eq_mult)
  define v where "v = large_entry \<lparr>pm_type = PMT_PAGE, pm_flags = 0, phys_frame = 0x2000\<rparr> 7"
  have p: "bf_on is_present (7 :: 32 word)" "bf_on is_user (7 :: 32 word)"
    by (simp_all add: bf_on_def bf_get_def is_present_def is_user_def mask_eq_exp_minus_1)
  have sw: "switch_entry 0 False \<lparr>pm_type = PMT_PAGE, pm_flags = 0, phys_frame = 0x2000\<rparr> 7 =
      Some (v, True, True, None)"
    by (simp add: switch_entry_def Let_def PMT_PAGE_def PMT_BLOCK_def PMT_PAGE_TABLE_def v_def
        IS_FLAG_SET_def PM_UNMAPPED_def avail_bits_def N_PM_LEVELS_def p)
  have w: "write_pmap_entry 0x2000 0 v (ex_mem (ex_pm 1)) =
      Ret E_OK (set_temp_pte temp_slot 0 ((ex_mem (ex_pm 1))\<lparr>phys := put32 0x2000 v (ex_pm 1)\<rparr>))"
    using write_pmap_entry_eq [of 0 "0x2000" v "ex_mem (ex_pm 1)"] by (simp add: ep)
  have "update_levels args 0 0 0x2000 0 False 0 1 (ex_mem (ex_pm 1)) =
      Ret True (set_temp_pte temp_slot 0 ((ex_mem (ex_pm 1))\<lparr>phys := put32 0x2000 v (ex_pm 1)\<rparr>))"
    using pmap_entry_index [of 0]
    by (simp add: Let_def i kbind_def kret_def rd m sw w p assms mapping_addr_def error_codes)
  moreover have "bf_on is_present v" unfolding v_def by (simp add: entries_keep_present p)
  ultimately show ?thesis by (auto simp: set_temp_pte_def phys32_put32)
qed

theorem update_mappings_never_maps_witness:
  "handle_sys_update_page_mappings 0x4000 (ex_mem (ex_pm 2)) = Ret ESYS_FAIL (ex_mem (ex_pm 2)) \<and>
   handle_sys_update_page_mappings 0x4000 (ex_mem (ex_pm 0)) = Ret 1 (ex_mem (ex_pm 0)) \<and>
   (\<exists>s'. handle_sys_update_page_mappings 0x4000 (ex_mem (ex_pm 1)) = Ret 1 s' \<and>
      bf_on is_present (phys32 (phys s') 0x2000) \<and> bf_on is_present (phys32 (ex_pm 1) 0x2000))"
proof (intro conjI)
  have c: "(0x2000 :: 32 word) \<noteq> CURRENT_ROOT_PMAP" by (simp add: CURRENT_ROOT_PMAP_def)
  have a2: "load_pm_args 0x4000 (ex_mem (ex_pm 2)) = Ret \<lparr>pm_virt = 0, pm_count = 1,
      pm_addr_space = 0x2000, pm_mappings = 0x6000, pm_level = 2\<rparr> (ex_mem (ex_pm 2))"
    and a1: "load_pm_args 0x4000 (ex_mem (ex_pm 1)) = Ret \<lparr>pm_virt = 0, pm_count = 1,
      pm_addr_space = 0x2000, pm_mappings = 0x6000, pm_level = 1\<rparr> (ex_mem (ex_pm 1))"
    and a0: "load_pm_args 0x4000 (ex_mem (ex_pm 0)) = Ret \<lparr>pm_virt = 0, pm_count = 1,
      pm_addr_space = 0x2000, pm_mappings = 0x6000, pm_level = 0\<rparr> (ex_mem (ex_pm 0))"
    using ex_load_pm_args [of 2] ex_load_pm_args [of 1] ex_load_pm_args [of 0] by simp_all
  show "handle_sys_update_page_mappings 0x4000 (ex_mem (ex_pm 2)) = Ret ESYS_FAIL (ex_mem (ex_pm 2))"
    using update_mappings_never_maps [OF a2] c by simp
  show "handle_sys_update_page_mappings 0x4000 (ex_mem (ex_pm 0)) = Ret 1 (ex_mem (ex_pm 0))"
    using update_mappings_never_maps [OF a0] c by simp
  let ?args = "\<lparr>pm_virt = 0, pm_count = 1, pm_addr_space = 0x2000, pm_mappings = 0x6000, pm_level = 1\<rparr>"
  have al: "ALIGN_DOWN 0x2000 PAGE_SIZE = (0x2000 :: 32 word)" by (simp add: ALIGN_DOWN_def PAGE_SIZE_def)
  have i: "PDE_INDEX 0 = 0" by (simp add: PDE_INDEX_def)
  obtain s' where s': "update_levels ?args 0 0 0x2000 0 False 0 1 (ex_mem (ex_pm 1)) = Ret True s'"
      "bf_on is_present (phys32 (phys s') 0x2000)"
    using ex_update_levels by blast
  have h: "handle_sys_update_page_mappings 0x4000 (ex_mem (ex_pm 1)) = Ret 1 s'"
    using update_page_mappings_one [OF a1] s'(1) c al by (simp add: kbind_def kret_def)
  then show "\<exists>s'. handle_sys_update_page_mappings 0x4000 (ex_mem (ex_pm 1)) = Ret 1 s' \<and>
      bf_on is_present (phys32 (phys s') 0x2000) \<and> bf_on is_present (phys32 (ex_pm 1) 0x2000)"
    using update_mappings_never_maps [OF a1] h s'(2) c al i by auto
qed

section \<open>From the kernel to the init server\<close>

lemma le16_bytes16: "le16 (bytes16 w) = w"
proof (rule bit_word_eqI)
  fix n assume "n < LENGTH(16)"
  then show "bit (le16 (bytes16 w)) n = bit w n"
    by (auto simp: le16_def bytes16_def bit_simps)
qed

lemma le32_bytes32: "le32 (bytes32 w) = w"
proof (rule bit_word_eqI)
  fix n assume n: "n < LENGTH(32)"
  then consider "n < 8" | "8 \<le> n" "n < 16" | "16 \<le> n" "n < 24" | "24 \<le> n" "n < 32"
    by fastforce
  then show "bit (le32 (bytes32 w)) n = bit w n"
    by cases (auto simp: le32_def bytes32_def byte_of_def bit_simps)
qed

lemmas message_bytes = bytes16_def bytes32_def

lemmas le_bytes [simp] =
  le16_bytes16 [unfolded bytes16_def] le32_bytes32 [unfolded bytes32_def, simplified]

text \<open>
  The init server cannot read the exception messages the kernel sends. The kernel sends the 76
  bytes of its structure; the server asks for the size of its own structure, which the attribute
  \<^verbatim>\<open>align(16)\<close> rounds up to 80, and reports a parse error: no page fault is ever resolved. The layout
  of the fields agrees: with four more bytes behind the message the server would read the fault
  address, the error code, the instruction pointer, the fault number and the thread as the kernel
  wrote them.
\<close>

theorem exception_message_is_rejected:
  "length (exception_message kss f who s) = 76 \<and>
   handle_kernel_message sys spaces EXCEPTION (exception_message kss f who s) st =
     Some (Inl ParseError, st) \<and>
   (\<forall>pad. 4 \<le> length pad \<longrightarrow>
     (\<exists>m. exception_try_from (exception_message kss f who s @ pad) = Some m \<and>
        em_cr2 m = cr2 s \<and> em_error_code m = error_code f \<and>
        em_eip m = eip (user_exec_state (tcb_table s who)) \<and>
        em_eax m = eax (frame_state f) \<and> em_cs m = cs (frame_state f) \<and>
        em_fault_num m = ucast (ex_num f) \<and> em_who m = who))"
proof -
  have l: "length (exception_message kss f who s) = 76"
    by (simp add: exception_message_def message_bytes Let_def)
  have "\<exists>m. exception_try_from (exception_message kss f who s @ pad) = Some m \<and>
        em_cr2 m = cr2 s \<and> em_error_code m = error_code f \<and>
        em_eip m = eip (user_exec_state (tcb_table s who)) \<and>
        em_eax m = eax (frame_state f) \<and> em_cs m = cs (frame_state f) \<and>
        em_fault_num m = ucast (ex_num f) \<and> em_who m = who" if "4 \<le> length pad" for pad
  proof -
    have "\<not> length (exception_message kss f who s @ pad) < 80" using that l by simp
    then show ?thesis
      by (simp add: exception_try_from_def SIZEOF_ExceptionMessage_def)
        (simp add: exception_message_def Let_def message_bytes slice_def)
  qed
  then show ?thesis
    using l by (simp add: handle_kernel_message_def exception_try_from_def SIZEOF_ExceptionMessage_def)
qed

theorem exception_message_is_rejected_witness:
  "let f = \<lparr>ex_num = 14, error_code = 4, old_tss_esp0 = 0,
       frame_state = user_exec_state (tcb_table ex_state 1)\<rparr>;
     msg = exception_message 0x10 f 1 ex_state in
   handle_kernel_message (\<lambda>level v p ms s. (1, s)) ex_spaces EXCEPTION msg () =
     Some (Inl ParseError, ()) \<and>
   (\<exists>m. exception_try_from (msg @ [0, 0, 0, 0]) = Some m \<and> em_fault_num m = 14 \<and> em_who m = 1)"
proof -
  let ?f = "\<lparr>ex_num = 14, error_code = 4, old_tss_esp0 = 0,
    frame_state = user_exec_state (tcb_table ex_state 1)\<rparr>"
  note t = exception_message_is_rejected [of "0x10" ?f 1 ex_state
      "\<lambda>level v p ms s. (1, s)" ex_spaces "()"]
  obtain m where "exception_try_from (exception_message 0x10 ?f 1 ex_state @ [0, 0, 0, 0]) = Some m"
      "em_fault_num m = ucast (ex_num ?f)" "em_who m = 1"
    using t [THEN conjunct2, THEN conjunct2, rule_format, of "[0, 0, 0, 0]"] by auto
  then show ?thesis using t by (simp add: Let_def)
qed

text \<open>
  The structures of the message for a thread that exits do not agree: the kernel puts the thread
  before the status code, the init server reads the exit code first. The server takes the thread id
  for the exit code and the lower half of the status code for the thread.
\<close>

theorem exit_message_is_misread:
  "exit_try_from (exit_message st who) = Some \<lparr>exit_code = ucast who, exit_who = ucast (eax st)\<rparr>"
proof -
  have "le32 [ucast who, ucast (drop_bit 8 who), 0, 0] = ucast who"
    by (rule bit_word_eqI) (auto simp: le32_def bit_simps dest: bit_imp_le_length)
  moreover have "le16 [byte_of 0 w, byte_of (Suc 0) w] = ucast w" for w
    by (rule bit_word_eqI) (auto simp: le16_def byte_of_def bit_simps)
  ultimately show ?thesis
    by (simp add: exit_try_from_def exit_message_def message_bytes slice_def)
qed

end
